(* ===== verification/Prelude.thy ===== *)
theory Prelude
  imports Main "HOL-Library.Word" "HOL-Library.AList"
begin

text \<open>
  Shared vocabulary of the development: the machine types of the Rust code, the result
  values of fallible functions, the little-endian and decimal codecs of the standard
  library that the code uses, and the generic lemmas on lists and association lists
  that the component theories rest on.

  \<^item> \<open>u8\<close>, \<open>u32\<close>, \<open>u64\<close> are machine words; arithmetic on them wraps, as the release
    profile of the code does (no \<open>overflow-checks\<close>).  Lengths and offsets of in-memory
    buffers (\<open>usize\<close>) are natural numbers.
  \<^item> a fallible function returns \<open>error + 'a\<close>; one that also changes a state returns the
    result together with the new state, because the effects made before an early return
    stay in place.
\<close>

type_synonym u8 = "8 word"
type_synonym u32 = "32 word"
type_synonym u64 = "64 word"
type_synonym bytes = "u8 list"

text \<open>Rules collected for the component theories: \<open>frame_simps\<close> say what an operation
  leaves alone, \<open>codec_simps\<close> invert an encoder.\<close>

named_theorems frame_simps "what an operation does not change"
named_theorems codec_simps "decode after encode"

section \<open>Results\<close>

datatype error =
    IoError                      \<comment> \<open>an \<open>io::Error\<close> of the standard library\<close>
  | DbError                      \<comment> \<open>an error of RocksDB\<close>
  | JsonError                    \<comment> \<open>an error of serde\_json\<close>
  | YamlError                    \<comment> \<open>an error of serde\_yaml\<close>
  | CodecError                   \<comment> \<open>an error of the Reed-Solomon crate\<close>
  | Failure string               \<comment> \<open>an error the code makes itself, by its message\<close>
  | Panic                        \<comment> \<open>an \<open>unwrap\<close> or index out of range: the process aborts\<close>

type_synonym ('s, 'a) step = "'s \<Rightarrow> (error + 'a) \<times> 's"

text \<open>The \<open>?\<close> operator on a function that threads a state.\<close>

definition bindS :: "('s, 'a) step \<Rightarrow> ('a \<Rightarrow> ('s, 'b) step) \<Rightarrow> ('s, 'b) step" where
  "bindS m k s = (case m s of (Inl e, s') \<Rightarrow> (Inl e, s') | (Inr x, s') \<Rightarrow> k x s')"

definition returnS :: "'a \<Rightarrow> ('s, 'a) step" where
  "returnS x s = (Inr x, s)"

definition failS :: "error \<Rightarrow> ('s, 'a) step" where
  "failS e s = (Inl e, s)"

text \<open>A call that only reads the state, and one that does not use it at all.\<close>

definition readS :: "('s \<Rightarrow> error + 'a) \<Rightarrow> ('s, 'a) step" where
  "readS f s = (f s, s)"

definition liftS :: "error + 'a \<Rightarrow> ('s, 'a) step" where
  "liftS x s = (x, s)"

text \<open>The \<open>?\<close> operator on a function without state.\<close>

definition bindE :: "error + 'a \<Rightarrow> ('a \<Rightarrow> error + 'b) \<Rightarrow> error + 'b" where
  "bindE m k = (case m of Inl e \<Rightarrow> Inl e | Inr x \<Rightarrow> k x)"

lemma bindS_Inr_iff:
  "bindS m k s = (Inr y, s'') \<longleftrightarrow> (\<exists>x s'. m s = (Inr x, s') \<and> k x s' = (Inr y, s''))"
  by (auto simp: bindS_def split: prod.splits sum.splits)

lemma bindS_Inl [simp]: "m s = (Inl e, s') \<Longrightarrow> bindS m k s = (Inl e, s')"
  by (simp add: bindS_def)

lemma bindS_Inr [simp]: "m s = (Inr x, s') \<Longrightarrow> bindS m k s = k x s'"
  by (simp add: bindS_def)

lemma returnS_apply [simp]: "returnS x s = (Inr x, s)"
  by (simp add: returnS_def)

lemma failS_apply [simp]: "failS e s = (Inl e, s)"
  by (simp add: failS_def)

lemma readS_apply [simp]: "readS f s = (f s, s)"
  by (simp add: readS_def)

lemma liftS_apply [simp]: "liftS x s = (x, s)"
  by (simp add: liftS_def)

lemma bindE_simps [simp]: "bindE (Inl e) k = Inl e" "bindE (Inr x) k = k x"
  by (simp_all add: bindE_def)

lemma bindE_Inr_iff: "bindE m k = Inr y \<longleftrightarrow> (\<exists>x. m = Inr x \<and> k x = Inr y)"
  by (auto simp: bindE_def split: sum.splits)

lemma bindE_cong [cong]: "m = m' \<Longrightarrow> bindE m k = bindE m' k"
  by simp

text \<open>\<open>for item in items { op(item)?; }\<close>.\<close>

fun for_each :: "('a \<Rightarrow> ('s, 'b) step) \<Rightarrow> 'a list \<Rightarrow> ('s, unit) step" where
  "for_each f [] = returnS ()"
| "for_each f (x # xs) = bindS (f x) (\<lambda>_. for_each f xs)"

text \<open>A condition that holds at every state in which \<open>for_each\<close> runs its step.\<close>

fun all_along :: "('s \<Rightarrow> 'a \<Rightarrow> bool) \<Rightarrow> ('a \<Rightarrow> ('s, 'b) step) \<Rightarrow> 'a list \<Rightarrow> 's \<Rightarrow> bool" where
  "all_along P f [] s = True"
| "all_along P f (x # xs) s = (P s x \<and> all_along P f xs (snd (f x s)))"

section \<open>Association lists\<close>

text \<open>Hash maps, column families and directories are association lists: the list order
  stands for the iteration order, which nothing here depends on.\<close>

definition put :: "'k \<Rightarrow> 'v \<Rightarrow> ('k \<times> 'v) list \<Rightarrow> ('k \<times> 'v) list" where
  "put k v xs = AList.update k v xs"

definition del :: "'k \<Rightarrow> ('k \<times> 'v) list \<Rightarrow> ('k \<times> 'v) list" where
  "del k xs = AList.delete k xs"

lemma map_of_put [simp]: "map_of (put k v xs) = (map_of xs)(k \<mapsto> v)"
  by (simp add: put_def update_conv')

lemma map_of_del [simp]: "map_of (del k xs) = (map_of xs)(k := None)"
  by (simp add: del_def delete_conv')

lemma distinct_put [simp]: "distinct (map fst xs) \<Longrightarrow> distinct (map fst (put k v xs))"
  by (simp add: put_def distinct_update)

lemma distinct_del [simp]: "distinct (map fst xs) \<Longrightarrow> distinct (map fst (del k xs))"
  by (simp add: del_def distinct_delete)

lemma keys_put [simp]: "fst ` set (put k v xs) = insert k (fst ` set xs)"
  by (simp add: put_def dom_update)

lemma put_simps [simp, code]:
  "put k v [] = [(k, v)]"
  "put k v (p # ps) = (if fst p = k then (k, v) # ps else p # put k v ps)"
  by (simp_all add: put_def)

lemma del_code [code]: "del k xs = filter (\<lambda>p. k \<noteq> fst p) xs"
  by (simp add: del_def AList.delete_eq case_prod_unfold)

section \<open>Slices\<close>

text \<open>\<open>slice::chunks(n)\<close>: consecutive pieces of \<open>n\<close> elements, the last one shorter.  A
  chunk size of 0 panics in Rust; the callers exclude it.\<close>

function chunks :: "nat \<Rightarrow> 'a list \<Rightarrow> 'a list list" where
  "chunks n xs = (if xs = [] \<or> n = 0 then [] else take n xs # chunks n (drop n xs))"
  by pat_completeness auto
termination
  by (relation "measure (\<lambda>(n, xs). length xs)") auto

declare chunks.simps [simp del]

lemma concat_chunks: "0 < n \<Longrightarrow> concat (chunks n xs) = xs"
proof (induction n xs rule: chunks.induct)
  case (1 n xs)
  then show ?case by (cases "xs = []") (simp_all add: chunks.simps [of n "[]"] chunks.simps [of n xs] del: concat_eq_Nil_conv)
qed

lemma length_chunks_mult: "0 < n \<Longrightarrow> length xs = n * k \<Longrightarrow> length (chunks n xs) = k"
proof (induction k arbitrary: xs)
  case 0
  then show ?case by (simp add: chunks.simps)
next
  case (Suc k)
  then have "length (chunks n (drop n xs)) = k" by simp
  with Suc.prems show ?case by (auto simp: chunks.simps [of n xs])
qed

lemma chunks_each_mult:
  "0 < n \<Longrightarrow> length xs = n * k \<Longrightarrow> \<forall>c \<in> set (chunks n xs). length c = n"
proof (induction k arbitrary: xs)
  case 0
  then show ?case by (simp add: chunks.simps)
next
  case (Suc k)
  then have "length (drop n xs) = n * k" by simp
  with Suc have "\<forall>c \<in> set (chunks n (drop n xs)). length c = n" by blast
  with Suc.prems show ?case by (simp add: chunks.simps [of n xs])
qed

lemma drop_eq_append_take: "n \<le> length xs \<Longrightarrow> take n xs @ drop n xs = xs"
  by simp

lemma map_of_eq_Some_iff_mem:
  "distinct (map fst xs) \<Longrightarrow> map_of xs k = Some v \<longleftrightarrow> (k, v) \<in> set xs"
  by (rule map_of_eq_Some_iff)

section \<open>Little-endian integers\<close>

text \<open>\<open>to_le_bytes\<close> and \<open>from_le_bytes\<close> of the standard library, through the value of the
  integer: \<open>le_bytes n x\<close> are the \<open>n\<close> low-order bytes, least significant first.\<close>

fun le_bytes :: "nat \<Rightarrow> nat \<Rightarrow> bytes" where
  "le_bytes 0 x = []"
| "le_bytes (Suc n) x = of_nat (x mod 256) # le_bytes n (x div 256)"

fun le_value :: "bytes \<Rightarrow> nat" where
  "le_value [] = 0"
| "le_value (b # bs) = unat b + 256 * le_value bs"

lemma length_le_bytes [simp]: "length (le_bytes n x) = n"
  by (induction n arbitrary: x) auto

lemma le_value_le_bytes: "x < 256 ^ n \<Longrightarrow> le_value (le_bytes n x) = x"
proof (induction n arbitrary: x)
  case 0
  then show ?case by simp
next
  case (Suc n)
  from Suc.prems have "x div 256 < 256 ^ n" by (simp add: less_mult_imp_div_less mult.commute)
  then have "le_value (le_bytes n (x div 256)) = x div 256" by (rule Suc.IH)
  moreover have "unat (of_nat (x mod 256) :: u8) = x mod 256"
    by (simp add: unat_of_nat)
  ultimately show ?case by simp
qed

definition u64_to_le :: "u64 \<Rightarrow> bytes" where
  "u64_to_le w = le_bytes 8 (unat w)"

definition u64_from_le :: "bytes \<Rightarrow> u64" where
  "u64_from_le bs = of_nat (le_value bs)"

definition u32_to_le :: "u32 \<Rightarrow> bytes" where
  "u32_to_le w = le_bytes 4 (unat w)"

definition u32_from_le :: "bytes \<Rightarrow> u32" where
  "u32_from_le bs = of_nat (le_value bs)"

lemma length_u64_to_le [simp]: "length (u64_to_le w) = 8"
  by (simp add: u64_to_le_def)

lemma length_u32_to_le [simp]: "length (u32_to_le w) = 4"
  by (simp add: u32_to_le_def)

lemma unat_u64_bound: "unat (w :: u64) < 256 ^ 8"
proof -
  have "unat w < 2 ^ 64" using unsigned_less [of w] by simp
  then show ?thesis by simp
qed

lemma unat_u32_bound: "unat (w :: u32) < 256 ^ 4"
proof -
  have "unat w < 2 ^ 32" using unsigned_less [of w] by simp
  then show ?thesis by simp
qed

lemma u64_le_roundtrip [codec_simps]: "u64_from_le (u64_to_le w) = w"
  by (simp only: u64_from_le_def u64_to_le_def le_value_le_bytes [OF unat_u64_bound]) simp

lemma u32_le_roundtrip [codec_simps]: "u32_from_le (u32_to_le w) = w"
  by (simp only: u32_from_le_def u32_to_le_def le_value_le_bytes [OF unat_u32_bound]) simp

section \<open>Strings as bytes\<close>

text \<open>A \<open>String\<close> is the list of its UTF-8 bytes; HOL characters are bytes.\<close>

definition bytes_of :: "string \<Rightarrow> bytes" where
  "bytes_of s = map (\<lambda>c. of_nat (of_char c)) s"

definition string_of :: "bytes \<Rightarrow> string" where
  "string_of bs = map (\<lambda>b. char_of (unat b)) bs"

lemma string_of_bytes_of [codec_simps]: "string_of (bytes_of s) = s"
proof -
  have "char_of (unat (of_nat (of_char c) :: u8)) = c" for c :: char
    by (simp add: unat_of_nat)
  then show ?thesis by (simp add: string_of_def bytes_of_def comp_def)
qed

lemma bytes_of_inj: "bytes_of s = bytes_of t \<longleftrightarrow> s = t"
  by (metis string_of_bytes_of)

text \<open>\<open>str::from_utf8\<close> succeeds on well-formed UTF-8 (Unicode, table 3-7).\<close>

definition cont :: "u8 \<Rightarrow> bool" where
  "cont b = (128 \<le> b \<and> b \<le> 191)"

fun utf8_valid :: "bytes \<Rightarrow> bool" where
  "utf8_valid [] = True"
| "utf8_valid (a # xs) =
     (if a < 128 then utf8_valid xs
      else case xs of
        b # ys \<Rightarrow>
          if 194 \<le> a \<and> a \<le> 223 then cont b \<and> utf8_valid ys
          else (case ys of
            c # zs \<Rightarrow>
              if 224 \<le> a \<and> a \<le> 239 then
                cont b \<and> (a = 224 \<longrightarrow> 160 \<le> b) \<and> (a = 237 \<longrightarrow> b \<le> 159) \<and> cont c \<and> utf8_valid zs
              else (case zs of
                d # us \<Rightarrow>
                  240 \<le> a \<and> a \<le> 244 \<and> cont b \<and> (a = 240 \<longrightarrow> 144 \<le> b) \<and> (a = 244 \<longrightarrow> b \<le> 143) \<and>
                  cont c \<and> cont d \<and> utf8_valid us
              | [] \<Rightarrow> False)
          | [] \<Rightarrow> False)
      | [] \<Rightarrow> False)"

lemma utf8_valid_ascii: "list_all (\<lambda>b. b < 128) bs \<Longrightarrow> utf8_valid bs"
  by (induction bs) auto

section \<open>Decimal numbers\<close>

definition digit_char :: "nat \<Rightarrow> char" where
  "digit_char d = char_of (48 + d)"

definition digit_value :: "char \<Rightarrow> nat option" where
  "digit_value c = (let n = of_char c in if 48 \<le> n \<and> n \<le> 57 then Some (n - 48) else None)"

text \<open>\<open>format!("{}", n)\<close>.\<close>

fun show_nat :: "nat \<Rightarrow> string" where
  "show_nat n = (if n < 10 then [digit_char n] else show_nat (n div 10) @ [digit_char (n mod 10)])"

declare show_nat.simps [simp del]

text \<open>\<open>format!("{:05}", n)\<close>: zero-padded on the left to at least \<open>w\<close> places.\<close>

definition show_padded :: "nat \<Rightarrow> nat \<Rightarrow> string" where
  "show_padded w n = replicate (w - length (show_nat n)) (digit_char 0) @ show_nat n"

text \<open>\<open>str::parse\<close> into an unsigned integer: an optional \<open>+\<close>, at least one digit, nothing
  else, and the value must be below the bound of the type.\<close>

fun parse_digits :: "nat \<Rightarrow> string \<Rightarrow> nat option" where
  "parse_digits acc [] = Some acc"
| "parse_digits acc (c # cs) =
     (case digit_value c of None \<Rightarrow> None | Some d \<Rightarrow> parse_digits (10 * acc + d) cs)"

definition parse_nat :: "nat \<Rightarrow> string \<Rightarrow> nat option" where
  "parse_nat bound s =
     (let ds = (case s of c # cs \<Rightarrow> if c = CHR ''+'' then cs else s | [] \<Rightarrow> []) in
      if ds = [] then None
      else case parse_digits 0 ds of
        None \<Rightarrow> None
      | Some n \<Rightarrow> if n < bound then Some n else None)"

lemma digit_value_char [simp]: "d < 10 \<Longrightarrow> digit_value (digit_char d) = Some d"
  by (simp add: digit_value_def digit_char_def Let_def)

lemma parse_digits_append:
  "parse_digits acc (xs @ ys) = (case parse_digits acc xs of None \<Rightarrow> None | Some a \<Rightarrow> parse_digits a ys)"
  by (induction xs arbitrary: acc) (simp_all split: option.splits)

lemma parse_digits_show: "parse_digits 0 (show_nat n) = Some n"
proof (induction n rule: show_nat.induct)
  case (1 n)
  show ?case
  proof (cases "n < 10")
    case True
    then show ?thesis by (simp add: show_nat.simps [of n])
  next
    case False
    then show ?thesis using 1 by (simp add: show_nat.simps [of n] parse_digits_append)
  qed
qed

lemma show_nat_ne [simp]: "show_nat n \<noteq> []"
  by (simp add: show_nat.simps [of n])

lemma parse_digits_zeros: "parse_digits 0 (replicate k (digit_char 0) @ s) = parse_digits 0 s"
  by (induction k) simp_all

lemma show_nat_digits: "c \<in> set (show_nat n) \<Longrightarrow> 48 \<le> (of_char c :: nat) \<and> (of_char c :: nat) \<le> 57"
proof (induction n rule: show_nat.induct)
  case (1 n)
  then show ?case by (cases "n < 10") (auto simp: show_nat.simps [of n] digit_char_def)
qed

lemma show_padded_digits:
  "c \<in> set (show_padded w n) \<Longrightarrow> 48 \<le> (of_char c :: nat) \<and> (of_char c :: nat) \<le> 57"
  using show_nat_digits [of c n] by (auto simp: show_padded_def digit_char_def)

lemma parse_nat_digits:
  assumes "\<And>c. c \<in> set s \<Longrightarrow> 48 \<le> (of_char c :: nat) \<and> (of_char c :: nat) \<le> 57" and "s \<noteq> []"
  shows "parse_nat bound s = (case parse_digits 0 s of None \<Rightarrow> None | Some n \<Rightarrow> if n < bound then Some n else None)"
  using assms by (cases s) (fastforce simp: parse_nat_def Let_def)+

lemma parse_show_padded [codec_simps]: "n < bound \<Longrightarrow> parse_nat bound (show_padded w n) = Some n"
proof -
  assume "n < bound"
  moreover have "parse_digits 0 (show_padded w n) = Some n"
    by (simp add: show_padded_def parse_digits_zeros parse_digits_show)
  moreover have "show_padded w n \<noteq> []" by (simp add: show_padded_def)
  ultimately show ?thesis by (simp add: parse_nat_digits [OF show_padded_digits])
qed

lemma parse_show_nat [codec_simps]: "n < bound \<Longrightarrow> parse_nat bound (show_nat n) = Some n"
  by (simp add: parse_nat_digits [OF show_nat_digits] parse_digits_show)

end
