(* ===== verification/Chunker.thy ===== *)
theory Chunker
  imports Prelude
begin

text \<open>
  The content-defined chunker, \<open>sidecar/src/backup/chunker.rs\<close>: the boundary scan with its
  rolling hash in wrapping \<open>u64\<close> arithmetic, the whole-buffer path \<open>chunk_file\<close> and the
  streaming path \<open>chunk_reader\<close>.

  BLAKE3 is a parameter \<open>h\<close> (\<open>blake3::hash(..).to_hex().to_string()\<close>).  A \<open>Read\<close>er is the
  list of the results its \<open>read\<close> calls give; the empty list is the end of the input.  Both
  loops are partial functions: \<open>None\<close> is a loop that never ends, which happens for an engine
  with \<open>max_size = 0\<close> only; that they return otherwise is proved.

  The locale \<open>cutter\<close> is what both loops need of the boundary scan; its client is the
  specification \<open>cuts\<close>, which the two loops refine.
\<close>

unbundle bit_operations_syntax

section \<open>Data\<close>

record chunk =
  ck_hash :: string
  ck_offset :: nat
  ck_size :: nat
  ck_data :: bytes

record chunk_engine =
  min_size :: nat
  avg_size :: nat
  max_size :: nat

definition ChunkEngine_new :: chunk_engine where
  "ChunkEngine_new = \<lparr>min_size = 4 * 1024, avg_size = 64 * 1024, max_size = 256 * 1024\<rparr>"

definition with_sizes :: "nat \<Rightarrow> nat \<Rightarrow> nat \<Rightarrow> chunk_engine" where
  "with_sizes mn av mx = \<lparr>min_size = mn, avg_size = av, max_size = mx\<rparr>"

definition boundary_mask :: "chunk_engine \<Rightarrow> u64" where
  "boundary_mask eng = of_nat (avg_size eng) - 1"

lemma ChunkEngine_new_sizes [simp]:
  "min_size ChunkEngine_new = 4096" "avg_size ChunkEngine_new = 65536"
  "max_size ChunkEngine_new = 262144"
  by (simp_all add: ChunkEngine_new_def)

section \<open>The boundary scan\<close>

definition window :: nat where
  "window = 48"

text \<open>The initial loop over the first window: \<open>hash = hash * 31 + byte\<close>.\<close>

definition window_hash :: "bytes \<Rightarrow> u64" where
  "window_hash bs = fold (\<lambda>b h. h * 31 + ucast b) bs 0"

definition roll :: "u64 \<Rightarrow> u8 \<Rightarrow> u8 \<Rightarrow> u64" where
  "roll h oldest newest = (h - ucast oldest * 31 ^ (window - 1)) * 31 + ucast newest"

text \<open>The sliding loop \<open>for i in (search_start + window)..search_end\<close>.\<close>

function boundary_scan :: "bytes \<Rightarrow> u64 \<Rightarrow> nat \<Rightarrow> nat \<Rightarrow> u64 \<Rightarrow> nat" where
  "boundary_scan data msk search_end i h =
     (if i < search_end then
        let h' = roll h (data ! (i - window)) (data ! i) in
        if h' AND msk = 0 then i + 1
        else boundary_scan data msk search_end (i + 1) h'
      else search_end)"
  by pat_completeness auto
termination
  by (relation "measure (\<lambda>(data, msk, e, i, h). e - i)") auto

declare boundary_scan.simps [simp del]

definition find_boundary_at :: "bytes \<Rightarrow> nat \<Rightarrow> nat \<Rightarrow> u64 \<Rightarrow> nat" where
  "find_boundary_at data mn mx msk =
     (let search_start = mn; search_end = min mx (length data) in
      if search_start \<ge> search_end then search_end
      else
        let h = window_hash (take (min window (length data - search_start)) (drop search_start data))
        in boundary_scan data msk search_end (search_start + window) h)"

definition find_boundary :: "chunk_engine \<Rightarrow> bytes \<Rightarrow> u64 \<Rightarrow> nat" where
  "find_boundary eng data msk = find_boundary_at data (min_size eng) (max_size eng) msk"

section \<open>The whole-buffer path\<close>

partial_function (option) chunk_file_loop ::
  "(bytes \<Rightarrow> string) \<Rightarrow> chunk_engine \<Rightarrow> bytes \<Rightarrow> nat \<Rightarrow> chunk list \<Rightarrow> chunk list option" where
  "chunk_file_loop h eng data offset acc =
     (if offset < length data then
        let remaining = length data - offset;
            chunk_size = (if remaining \<le> min_size eng then remaining
                          else find_boundary eng (drop offset data) (boundary_mask eng));
            chunk_end = min (offset + chunk_size) (length data);
            chunk_data = take (chunk_end - offset) (drop offset data);
            ck = \<lparr>ck_hash = h chunk_data, ck_offset = offset, ck_size = length chunk_data,
                  ck_data = chunk_data\<rparr>
        in chunk_file_loop h eng data chunk_end (acc @ [ck])
      else Some acc)"

definition chunk_file :: "(bytes \<Rightarrow> string) \<Rightarrow> chunk_engine \<Rightarrow> bytes \<Rightarrow> chunk list option" where
  "chunk_file h eng data =
     (if data = [] then Some []
      else if length data \<le> min_size eng then
        Some [\<lparr>ck_hash = h data, ck_offset = 0, ck_size = length data, ck_data = data\<rparr>]
      else chunk_file_loop h eng data 0 [])"

section \<open>The streaming path\<close>

text \<open>One call of \<open>reader.read(&mut tmp)\<close> gives some bytes (none at the end) or an error.\<close>

datatype read_event = Data bytes | ReadErr

type_synonym reader = "read_event list"

definition tmp_len :: nat where
  "tmp_len = 8192"

text \<open>What \<open>Read::read\<close> promises: at most \<open>tmp.len()\<close> bytes, and 0 bytes at the end only.\<close>

definition reader_ok :: "reader \<Rightarrow> bool" where
  "reader_ok r = (\<forall>ev \<in> set r. case ev of Data d \<Rightarrow> d \<noteq> [] \<and> length d \<le> tmp_len | ReadErr \<Rightarrow> False)"

fun reader_bytes :: "reader \<Rightarrow> bytes" where
  "reader_bytes [] = []"
| "reader_bytes (Data d # r) = d @ reader_bytes r"
| "reader_bytes (ReadErr # r) = []"

text \<open>The inner loop \<open>while buf.len() < self.min_size && !eof\<close>.\<close>

fun fill_buf :: "nat \<Rightarrow> bytes \<Rightarrow> bool \<Rightarrow> reader \<Rightarrow> error + (bytes \<times> bool \<times> reader)" where
  "fill_buf mn buf eof r =
     (if length buf < mn \<and> \<not> eof then
        (case r of
           [] \<Rightarrow> Inr (buf, True, [])
         | ReadErr # r' \<Rightarrow> Inl IoError
         | Data d # r' \<Rightarrow> (if d = [] then Inr (buf, True, r') else fill_buf mn (buf @ d) eof r'))
      else Inr (buf, eof, r))"

declare fill_buf.simps [simp del]

text \<open>The outer loop.  \<open>on_chunk\<close> is the caller's closure over its own state \<open>'s\<close>.\<close>

partial_function (option) chunk_reader_loop ::
  "(bytes \<Rightarrow> string) \<Rightarrow> chunk_engine \<Rightarrow> (chunk \<Rightarrow> ('s, unit) step) \<Rightarrow> bytes \<Rightarrow> bool \<Rightarrow> reader \<Rightarrow> nat
     \<Rightarrow> 's \<Rightarrow> ((error + unit) \<times> 's) option" where
  "chunk_reader_loop h eng on_chunk buf eof r offset s =
     (case fill_buf (min_size eng) buf eof r of
        Inl e \<Rightarrow> Some (Inl e, s)
      | Inr (buf', eof', r') \<Rightarrow>
          if buf' = [] then Some (Inr (), s)
          else
            let chunk_len = (if length buf' \<le> min_size eng then length buf'
                             else min (find_boundary_at buf' (min_size eng) (max_size eng)
                                         (boundary_mask eng)) (length buf'));
                chunk_data = take chunk_len buf';
                ck = \<lparr>ck_hash = h chunk_data, ck_offset = offset, ck_size = chunk_len,
                      ck_data = chunk_data\<rparr>
            in case on_chunk ck s of
                 (Inl e, s') \<Rightarrow> Some (Inl e, s')
               | (Inr u, s') \<Rightarrow>
                   if eof' \<and> drop chunk_len buf' = [] then Some (Inr (), s')
                   else chunk_reader_loop h eng on_chunk (drop chunk_len buf') eof' r'
                          (offset + chunk_len) s')"

definition chunk_reader ::
  "(bytes \<Rightarrow> string) \<Rightarrow> chunk_engine \<Rightarrow> reader \<Rightarrow> (chunk \<Rightarrow> ('s, unit) step) \<Rightarrow> 's
     \<Rightarrow> ((error + unit) \<times> 's) option" where
  "chunk_reader h eng r on_chunk s = chunk_reader_loop h eng on_chunk [] False r 0 s"

text \<open>The closure of the test helper \<open>collect_stream\<close>: push every chunk.\<close>

definition collect :: "chunk \<Rightarrow> (chunk list, unit) step" where
  "collect ck s = (Inr (), s @ [ck])"

section \<open>The rolling hash is the hash of the window\<close>

lemma window_hash_snoc: "window_hash (bs @ [b]) = window_hash bs * 31 + ucast b"
  by (simp add: window_hash_def)

lemma fold_window_hash: "fold (\<lambda>b h. h * 31 + ucast b) bs (x :: u64) = x * 31 ^ length bs + window_hash bs"
proof (induction bs arbitrary: x rule: rev_induct)
  case Nil
  then show ?case by (simp add: window_hash_def)
next
  case (snoc b bs)
  then show ?case by (simp add: window_hash_snoc algebra_simps)
qed

lemma window_hash_Cons: "window_hash (b # bs) = ucast b * 31 ^ length bs + window_hash bs"
proof -
  have "window_hash (b # bs) = fold (\<lambda>b h. h * 31 + ucast b) bs (ucast b)"
    by (simp add: window_hash_def)
  then show ?thesis by (simp only: fold_window_hash)
qed

lemma roll_window:
  "length bs = window - 1 \<Longrightarrow> roll (window_hash (a # bs)) a b = window_hash (bs @ [b])"
  by (simp add: roll_def window_hash_Cons window_hash_snoc)

text \<open>The window that ends at position \<open>i\<close>.\<close>

definition window_at :: "bytes \<Rightarrow> nat \<Rightarrow> bytes" where
  "window_at data i = take window (drop (i + 1 - window) data)"

lemma roll_window_at:
  assumes "window \<le> i" and "i < length data"
  shows "roll (window_hash (take window (drop (i - window) data))) (data ! (i - window)) (data ! i)
           = window_hash (window_at data i)"
proof -
  let ?mid = "take (window - 1) (drop (i + 1 - window) data)"
  have "drop (i - window) data = data ! (i - window) # drop (i + 1 - window) data"
    using assms by (simp add: Cons_nth_drop_Suc Suc_diff_le)
  then have "take window (drop (i - window) data) = data ! (i - window) # ?mid"
    by (simp add: window_def)
  moreover have "window_at data i = ?mid @ [data ! i]"
  proof -
    have "take (Suc (window - 1)) (drop (i + 1 - window) data)
            = ?mid @ [drop (i + 1 - window) data ! (window - 1)]"
      using assms by (intro take_Suc_conv_app_nth) (simp add: window_def)
    moreover have "drop (i + 1 - window) data ! (window - 1) = data ! i"
      using assms by (simp add: window_def)
    ultimately show ?thesis by (simp add: window_at_def window_def)
  qed
  moreover have "length ?mid = window - 1" using assms by (simp add: window_def)
  ultimately show ?thesis by (simp add: roll_window)
qed

definition content_cut :: "bytes \<Rightarrow> u64 \<Rightarrow> nat \<Rightarrow> bool" where
  "content_cut data msk i = (window_hash (window_at data i) AND msk = 0)"

lemma boundary_scan_find:
  assumes "window \<le> i" and "e \<le> length data"
    and "i < e \<Longrightarrow> h = window_hash (take window (drop (i - window) data))"
  shows "boundary_scan data msk e i h =
           (case find (content_cut data msk) [i..<e] of Some j \<Rightarrow> j + 1 | None \<Rightarrow> e)"
  using assms
proof (induction data msk e i h rule: boundary_scan.induct)
  case (1 data msk e i h)
  show ?case
  proof (cases "i < e")
    case True
    have h': "roll h (data ! (i - window)) (data ! i) = window_hash (window_at data i)"
      using 1(2-4) True roll_window_at by simp
    have "boundary_scan data msk e (i + 1) (window_hash (window_at data i)) =
            (case find (content_cut data msk) [i + 1..<e] of Some j \<Rightarrow> j + 1 | None \<Rightarrow> e)"
      if "\<not> content_cut data msk i"
    proof (rule 1(1) [OF True h'[symmetric]])
      show "window_hash (window_at data i) AND msk \<noteq> 0"
        using that by (simp add: content_cut_def)
      show "window \<le> i + 1" "e \<le> length data" using 1(2,3) by simp_all
      show "window_hash (window_at data i) = window_hash (take window (drop (i + 1 - window) data))"
        by (simp add: window_at_def)
    qed
    then show ?thesis using True h'
      by (simp add: boundary_scan.simps [of data msk e i h] content_cut_def [of data msk i]
          upt_conv_Cons)
  next
    case False
    then show ?thesis by (simp add: boundary_scan.simps [of data msk e i h])
  qed
qed

text \<open>The specification of the scan: the first position past the minimum whose window hash
  matches the mask, else the end of the search range.\<close>

definition boundary_spec :: "bytes \<Rightarrow> nat \<Rightarrow> nat \<Rightarrow> u64 \<Rightarrow> nat" where
  "boundary_spec data mn mx msk =
     (let e = min mx (length data) in
      case find (content_cut data msk) [mn + window..<e] of Some j \<Rightarrow> j + 1 | None \<Rightarrow> e)"

lemma find_boundary_at_spec: "find_boundary_at data mn mx msk = boundary_spec data mn mx msk"
proof (cases "mn \<ge> min mx (length data)")
  case True
  then show ?thesis by (simp add: find_boundary_at_def boundary_spec_def)
next
  case False
  let ?e = "min mx (length data)"
  have "boundary_scan data msk ?e (mn + window)
          (window_hash (take (min window (length data - mn)) (drop mn data))) =
        (case find (content_cut data msk) [mn + window..<?e] of Some j \<Rightarrow> j + 1 | None \<Rightarrow> ?e)"
    by (rule boundary_scan_find) (auto simp: min_def)
  with False show ?thesis by (simp add: find_boundary_at_def boundary_spec_def Let_def)
qed

text \<open>C31: the rolling scan computes the specification: a cut depends on the 48 bytes of its
  window only, never on how the hash was rolled there, in wrapping 64-bit arithmetic.\<close>

theorem find_boundary_at_is_spec: "find_boundary_at data mn mx msk = boundary_spec data mn mx msk"
  by (rule find_boundary_at_spec)

section \<open>Bounds of a cut\<close>

lemma find_upt_SomeD: "find P [a..<b] = Some j \<Longrightarrow> a \<le> j \<and> j < b \<and> P j"
  by (auto simp: find_Some_iff)

lemma boundary_spec_le: "boundary_spec data mn mx msk \<le> min mx (length data)"
  by (auto simp: boundary_spec_def Let_def split: option.splits dest: find_upt_SomeD)

lemma boundary_spec_pos: "data \<noteq> [] \<Longrightarrow> 0 < mx \<Longrightarrow> 0 < boundary_spec data mn mx msk"
  by (auto simp: boundary_spec_def Let_def split: option.splits)

lemma boundary_spec_min:
  "mn < min mx (length data) \<Longrightarrow> mn < boundary_spec data mn mx msk"
  by (auto simp: boundary_spec_def Let_def split: option.splits dest!: find_upt_SomeD)

lemma boundary_bounds:
  assumes "data \<noteq> []" and "0 < mx"
  shows "0 < find_boundary_at data mn mx msk \<and>
     find_boundary_at data mn mx msk \<le> min mx (length data) \<and>
     min (Suc mn) (min mx (length data)) \<le> find_boundary_at data mn mx msk"
proof -
  have "min (Suc mn) (min mx (length data)) \<le> boundary_spec data mn mx msk"
    by (auto simp: boundary_spec_def Let_def split: option.splits dest!: find_upt_SomeD)
  with assms show ?thesis
    by (simp add: find_boundary_at_spec boundary_spec_le boundary_spec_pos
        del: min_less_iff_conj min.bounded_iff)
qed

text \<open>A cut never passes \<open>max_size\<close> or the end of the data, always makes progress, and
  leaves more than \<open>min_size\<close> bytes in the chunk unless the data or \<open>max_size\<close> end earlier.\<close>

theorem find_boundary_at_bounds:
  assumes "data \<noteq> []" and "0 < mx"
  shows "0 < find_boundary_at data mn mx msk \<and>
     find_boundary_at data mn mx msk \<le> min mx (length data) \<and>
     min (Suc mn) (min mx (length data)) \<le> find_boundary_at data mn mx msk"
  using assms by (rule boundary_bounds)

theorem find_boundary_at_bounds_witness:
  "0 < find_boundary_at [1, 2, 3] 0 2 7 \<and> find_boundary_at [1, 2, 3] 0 2 7 \<le> 2"
  using find_boundary_at_bounds [of "[1, 2, 3]" 2 0 7] by simp

text \<open>A boundary that the content decides (one before the end of the search range) is found
  at the same place when more data follows.\<close>

lemma find_upt_append_range:
  "find P [a..<b] = Some j \<Longrightarrow> b \<le> c \<Longrightarrow> find P [a..<c] = Some j"
proof -
  assume found: "find P [a..<b] = Some j" and "b \<le> c"
  then have "a \<le> b" using find_upt_SomeD by fastforce
  with \<open>b \<le> c\<close> have "[a..<c] = [a..<b] @ [b..<c]" by (metis le_add_diff_inverse upt_add_eq_append)
  moreover have "find P (xs @ ys) = Some j" if "find P xs = Some j" for xs ys
    using that by (induction xs) (auto split: if_splits)
  ultimately show ?thesis using found by simp
qed

lemma window_at_append: "window \<le> i \<Longrightarrow> i < length data \<Longrightarrow> window_at (data @ rest) i = window_at data i"
  by (simp add: window_at_def window_def)

lemma find_cong_upt: "(\<And>i. a \<le> i \<Longrightarrow> i < b \<Longrightarrow> P i = Q i) \<Longrightarrow> find P [a..<b] = find Q [a..<b]"
  by (rule find_cong) auto

lemma boundary_spec_append:
  assumes "boundary_spec data mn mx msk < min mx (length data)"
  shows "boundary_spec (data @ rest) mn mx msk = boundary_spec data mn mx msk"
proof -
  from assms obtain j where j: "find (content_cut data msk) [mn + window..<min mx (length data)] = Some j"
    by (auto simp: boundary_spec_def Let_def split: option.splits)
  have "find (content_cut (data @ rest) msk) [mn + window..<min mx (length data)]
          = find (content_cut data msk) [mn + window..<min mx (length data)]"
    by (rule find_cong_upt) (simp add: content_cut_def window_at_append)
  with j have "find (content_cut (data @ rest) msk) [mn + window..<min mx (length (data @ rest))] = Some j"
    by (auto intro: find_upt_append_range)
  with j show ?thesis by (simp add: boundary_spec_def)
qed

section \<open>The interface of a boundary scan and its client\<close>

text \<open>The specification of a chunker over a scan \<open>ct\<close>: cut, take, go on.\<close>

function cuts :: "(bytes \<Rightarrow> nat) \<Rightarrow> bytes \<Rightarrow> bytes list" where
  "cuts ct data =
     (if data = [] \<or> ct data = 0 then [] else take (ct data) data # cuts ct (drop (ct data) data))"
  by pat_completeness auto
termination
  by (relation "measure (\<lambda>(ct, data). length data)") auto

declare cuts.simps [simp del]

fun label :: "(bytes \<Rightarrow> string) \<Rightarrow> nat \<Rightarrow> bytes list \<Rightarrow> chunk list" where
  "label h offset [] = []"
| "label h offset (d # ds) =
     \<lparr>ck_hash = h d, ck_offset = offset, ck_size = length d, ck_data = d\<rparr>
       # label h (offset + length d) ds"

text \<open>What the chunk loops need of the scan: progress, and staying within the data.\<close>

locale cutter =
  fixes ct :: "bytes \<Rightarrow> nat"
  assumes cut_pos: "data \<noteq> [] \<Longrightarrow> 0 < ct data"
    and cut_le: "ct data \<le> length data"
begin

lemma cuts_Nil: "cuts ct [] = []"
  by (simp add: cuts.simps)

lemma cuts_step: "data \<noteq> [] \<Longrightarrow> cuts ct data = take (ct data) data # cuts ct (drop (ct data) data)"
  using cut_pos by (simp add: cuts.simps [of ct data])

lemma cuts_induct [case_names Nil Cut]:
  assumes "P []" and step: "\<And>data. data \<noteq> [] \<Longrightarrow> P (drop (ct data) data) \<Longrightarrow> P data"
  shows "P data"
proof (induction "length data" arbitrary: data rule: less_induct)
  case less
  show ?case
  proof (cases "data = []")
    case False
    then have "length (drop (ct data) data) < length data" using cut_pos by simp
    then have "P (drop (ct data) data)" by (rule less)
    with False show ?thesis by (rule step)
  qed (use assms(1) in simp)
qed

lemma concat_cuts: "concat (cuts ct data) = data"
proof (induction data rule: cuts_induct)
  case (Cut data)
  then show ?case by (simp add: cuts_step [of data])
qed (simp add: cuts_Nil)

lemma cuts_inv:
  assumes "\<And>d. d \<noteq> [] \<Longrightarrow> P (take (ct d) d)"
  shows "\<forall>c \<in> set (cuts ct data). P c"
proof (induction data rule: cuts_induct)
  case (Cut data)
  then show ?case by (simp add: cuts_step [of data] assms)
qed (simp add: cuts_Nil)

lemma cuts_nonempty: "\<forall>c \<in> set (cuts ct data). c \<noteq> []"
  by (rule cuts_inv) (use cut_pos in fastforce)

lemma cuts_butlast_inv:
  assumes step: "\<And>d. ct d < length d \<Longrightarrow> P (take (ct d) d)"
  shows "\<forall>c \<in> set (butlast (cuts ct data)). P c"
proof (induction data rule: cuts_induct)
  case (Cut data)
  show ?case
  proof (cases "drop (ct data) data = []")
    case True
    then show ?thesis using Cut.hyps by (simp add: cuts_step [of data] cuts_Nil)
  next
    case False
    then have "P (take (ct data) data)" by (intro step) simp
    then show ?thesis using Cut False by (simp add: cuts_step [OF Cut.hyps])
  qed
qed (simp add: cuts_Nil)

end

lemma label_append: "label h off (xs @ ys) = label h off xs @ label h (off + length (concat xs)) ys"
  by (induction xs arbitrary: off) (simp_all add: add.assoc)

lemma label_data [simp]: "map ck_data (label h off ds) = ds"
  by (induction ds arbitrary: off) simp_all

lemma label_props:
  "c \<in> set (label h off ds) \<Longrightarrow> ck_hash c = h (ck_data c) \<and> ck_size c = length (ck_data c) \<and> ck_data c \<in> set ds"
  by (induction ds arbitrary: off) auto

lemma label_offset:
  "k < length ds \<Longrightarrow> ck_offset (label h off ds ! k) = off + length (concat (take k ds))"
proof (induction ds arbitrary: off k)
  case (Cons d ds)
  then show ?case by (cases k) auto
qed simp

section \<open>The engine's scan implements the interface\<close>

text \<open>The chunk length both paths take of the bytes at hand.\<close>

definition cut_len :: "chunk_engine \<Rightarrow> bytes \<Rightarrow> nat" where
  "cut_len eng buf =
     (if length buf \<le> min_size eng then length buf
      else min (find_boundary eng buf (boundary_mask eng)) (length buf))"

lemma cut_len_cutter: "0 < max_size eng \<Longrightarrow> cutter (cut_len eng)"
  by unfold_locales (auto simp: cut_len_def find_boundary_def boundary_bounds)

interpretation default_cutter: cutter "cut_len ChunkEngine_new"
  by (rule cut_len_cutter) simp

lemma cut_len_max: "min_size eng \<le> max_size eng \<Longrightarrow> cut_len eng buf \<le> max_size eng"
  using boundary_spec_le [of buf "min_size eng" "max_size eng" "boundary_mask eng"]
  by (auto simp: cut_len_def find_boundary_def find_boundary_at_spec)

lemma cut_len_min:
  assumes "min_size eng < max_size eng" and "cut_len eng buf < length buf"
  shows "min_size eng < cut_len eng buf"
  using assms boundary_spec_min [of "min_size eng" "max_size eng" buf "boundary_mask eng"]
  by (auto simp: cut_len_def find_boundary_def find_boundary_at_spec split: if_splits)

section \<open>The whole-buffer path refines the specification\<close>

lemma cuts_single: "data \<noteq> [] \<Longrightarrow> ct data = length data \<Longrightarrow> cuts ct data = [data]"
  by (simp add: cuts.simps [of ct data] cuts.simps [of ct "[]"])

lemma chunk_file_loop_cuts:
  assumes mx: "0 < max_size eng" and "off \<le> length data"
  shows "chunk_file_loop h eng data off acc
           = Some (acc @ label h off (cuts (cut_len eng) (drop off data)))"
  using assms(2)
proof (induction "length data - off" arbitrary: off acc rule: less_induct)
  case less
  note cutter = cut_len_cutter [OF mx]
  show ?case
  proof (cases "off < length data")
    case True
    define rest where "rest = drop off data"
    define n where "n = cut_len eng rest"
    have ne: "rest \<noteq> []" using True by (simp add: rest_def)
    have n: "0 < n" "n \<le> length rest"
      using cutter.cut_pos [OF cutter ne] cutter.cut_le [OF cutter, of rest] by (simp_all add: n_def)
    have len: "length rest = length data - off" by (simp add: rest_def)
    have lt: "length data - (off + n) < length data - off" using n True by simp
    have "chunk_file_loop h eng data off acc = chunk_file_loop h eng data (off + n)
            (acc @ [\<lparr>ck_hash = h (take n rest), ck_offset = off, ck_size = n, ck_data = take n rest\<rparr>])"
    proof -
      have "min (off + (if length data - off \<le> min_size eng then length data - off
              else find_boundary eng rest (boundary_mask eng))) (length data) = off + n"
        using n len True by (auto simp: n_def cut_len_def min_def)
      then have "chunk_file_loop h eng data off acc = chunk_file_loop h eng data (off + n)
            (acc @ [\<lparr>ck_hash = h (take (off + n - off) rest), ck_offset = off,
                     ck_size = length (take (off + n - off) rest), ck_data = take (off + n - off) rest\<rparr>])"
        by (simp only: chunk_file_loop.simps [of h eng data off] True if_True Let_def rest_def [symmetric])
      then show ?thesis using n by simp
    qed
    also have "\<dots> = Some (acc @ label h off (take n rest # cuts (cut_len eng) (drop n rest)))"
      using less(1) [OF lt] n len by (simp add: rest_def add.commute)
    also have "take n rest # cuts (cut_len eng) (drop n rest) = cuts (cut_len eng) rest"
      using cutter.cuts_step [OF cutter ne] by (simp add: n_def)
    finally show ?thesis by (simp add: rest_def)
  next
    case False
    then show ?thesis by (simp add: chunk_file_loop.simps [of h eng data off] cuts.simps)
  qed
qed

lemma chunk_file_cuts:
  "0 < max_size eng \<Longrightarrow> chunk_file h eng data = Some (label h 0 (cuts (cut_len eng) data))"
proof -
  assume mx: "0 < max_size eng"
  have "cuts (cut_len eng) data = [data]" if "data \<noteq> []" "length data \<le> min_size eng"
    using that by (simp add: cuts_single cut_len_def)
  then show ?thesis
    using chunk_file_loop_cuts [OF mx, of 0 data h "[]"]
    by (auto simp: chunk_file_def cuts.simps [of "cut_len eng" "[]"])
qed

text \<open>Chunking a buffer returns (for any engine with a positive maximum), and the chunks
  are a partition of the data: their data concatenate to it, each is non-empty, carries the
  hash and the length of its own data, and its offset is the number of bytes before it.\<close>

theorem chunk_file_partition:
  assumes "0 < max_size eng"
  shows "\<exists>cs. chunk_file h eng data = Some cs \<and> concat (map ck_data cs) = data \<and>
     list_all (\<lambda>c. ck_data c \<noteq> [] \<and> ck_hash c = h (ck_data c) \<and> ck_size c = length (ck_data c)) cs \<and>
     map ck_offset cs = map (\<lambda>k. length (concat (map ck_data (take k cs)))) [0..<length cs]"
proof -
  note cutter = cut_len_cutter [OF assms]
  let ?ds = "cuts (cut_len eng) data"
  let ?cs = "label h 0 ?ds"
  have len: "length ?cs = length ?ds" by (metis label_data length_map)
  have props: "list_all (\<lambda>c. ck_data c \<noteq> [] \<and> ck_hash c = h (ck_data c) \<and> ck_size c = length (ck_data c)) ?cs"
    using cutter.cuts_nonempty [OF cutter, of data]
    by (auto simp: list_all_iff dest: label_props)
  have offsets: "map ck_offset ?cs = map (\<lambda>k. length (concat (map ck_data (take k ?cs)))) [0..<length ?cs]"
    by (rule nth_equalityI) (simp_all add: label_offset len flip: take_map)
  have "concat (map ck_data ?cs) = data" by (simp add: cutter.concat_cuts [OF cutter])
  with props offsets show ?thesis
    by (intro exI [of _ ?cs] conjI chunk_file_cuts [OF assms])
qed

theorem chunk_file_partition_witness:
  "0 < max_size (with_sizes 2 4 6) \<and>
   (\<exists>cs. chunk_file (\<lambda>_. ''h'') (with_sizes 2 4 6) [1, 2, 3, 4, 5, 6, 7] = Some cs \<and>
     concat (map ck_data cs) = [1, 2, 3, 4, 5, 6, 7])"
  using chunk_file_partition [of "with_sizes 2 4 6" "\<lambda>_. ''h''" "[1, 2, 3, 4, 5, 6, 7]"]
  by (auto simp: with_sizes_def)

text \<open>C30: with \<open>min_size < max_size\<close> no chunk is longer than \<open>max_size\<close>, and every chunk but
  the last is longer than \<open>min_size\<close>.\<close>

theorem chunk_file_sizes:
  assumes "min_size eng < max_size eng" and "chunk_file h eng data = Some cs"
  shows "list_all (\<lambda>c. ck_size c \<le> max_size eng) cs \<and>
         list_all (\<lambda>c. min_size eng < ck_size c) (butlast cs)"
proof -
  have mx: "0 < max_size eng" using assms(1) by simp
  note cutter = cut_len_cutter [OF mx]
  let ?ds = "cuts (cut_len eng) data"
  have cs: "cs = label h 0 ?ds" using assms(2) by (simp add: chunk_file_cuts [OF mx])
  have "\<forall>d \<in> set ?ds. length d \<le> max_size eng"
    by (rule cutter.cuts_inv [OF cutter]) (use assms(1) cut_len_max in \<open>simp add: min.coboundedI2\<close>)
  moreover have big: "\<forall>d \<in> set (butlast ?ds). min_size eng < length d"
    by (rule cutter.cuts_butlast_inv [OF cutter]) (simp add: cut_len_min assms(1))
  moreover have data: "map ck_data (butlast cs) = butlast ?ds" by (simp add: cs map_butlast)
  moreover have size: "\<forall>c \<in> set cs. ck_size c = length (ck_data c) \<and> ck_data c \<in> set ?ds"
    by (auto simp: cs dest: label_props)
  ultimately have "ck_size c \<le> max_size eng" if "c \<in> set cs" for c using that by simp
  moreover have "min_size eng < ck_size c" if c: "c \<in> set (butlast cs)" for c
  proof -
    from c have "ck_data c \<in> set (map ck_data (butlast cs))" by simp
    then have "ck_data c \<in> set (butlast ?ds)" by (simp only: data)
    with big size in_set_butlastD [OF c] show ?thesis by simp
  qed
  ultimately show ?thesis by (simp add: list_all_iff)
qed

theorem chunk_file_sizes_witness:
  "min_size (with_sizes 2 4 6) < max_size (with_sizes 2 4 6) \<and>
   (\<exists>cs. chunk_file (\<lambda>_. ''h'') (with_sizes 2 4 6) [1, 2, 3, 4, 5, 6, 7] = Some cs \<and>
     list_all (\<lambda>c. ck_size c \<le> 6) cs \<and> list_all (\<lambda>c. 2 < ck_size c) (butlast cs))"
proof -
  have ok: "chunk_file (\<lambda>_. ''h'') (with_sizes 2 4 6) [1, 2, 3, 4, 5, 6, 7] =
      Some (label (\<lambda>_. ''h'') 0 (cuts (cut_len (with_sizes 2 4 6)) [1, 2, 3, 4, 5, 6, 7]))"
    by (rule chunk_file_cuts) (simp add: with_sizes_def)
  have "min_size (with_sizes 2 4 6) < max_size (with_sizes 2 4 6)"
    by (simp add: with_sizes_def)
  from chunk_file_sizes [OF this ok] this ok show ?thesis by (auto simp: with_sizes_def)
qed

section \<open>The streaming path\<close>

text \<open>Running the closure over a list of chunks, stopping at its first error.\<close>

fun deliver :: "(chunk \<Rightarrow> ('s, unit) step) \<Rightarrow> chunk list \<Rightarrow> ('s, unit) step" where
  "deliver f [] s = (Inr (), s)"
| "deliver f (c # cs) s = (case f c s of (Inl e, s') \<Rightarrow> (Inl e, s') | (Inr u, s') \<Rightarrow> deliver f cs s')"

lemma deliver_collect: "deliver collect cs s = (Inr (), s @ cs)"
  by (induction cs arbitrary: s) (simp_all add: collect_def)

text \<open>Filling keeps the bytes and the end-of-input flag consistent, and falls short of the
  minimum only at the end.\<close>

lemma fill_buf_ok:
  assumes "reader_ok r" and "eof \<longrightarrow> r = []"
  shows "\<exists>buf' eof' r'. fill_buf mn buf eof r = Inr (buf', eof', r') \<and> reader_ok r' \<and>
           (eof' \<longrightarrow> r' = []) \<and> buf' @ reader_bytes r' = buf @ reader_bytes r \<and>
           (length buf' < mn \<longrightarrow> eof')"
  using assms
proof (induction mn buf eof r rule: fill_buf.induct)
  case (1 mn buf eof r)
  show ?case
  proof (cases "length buf < mn \<and> \<not> eof")
    case True
    show ?thesis
    proof (cases r)
      case Nil
      then have "fill_buf mn buf eof r = Inr (buf, True, [])" using True by (simp add: fill_buf.simps)
      then show ?thesis using Nil by (auto simp: reader_ok_def)
    next
      case (Cons ev r')
      then obtain d where d: "ev = Data d" "d \<noteq> []" and ok: "reader_ok r'"
        using 1(2) by (cases ev) (auto simp: reader_ok_def)
      have "\<exists>buf' eof' r''. fill_buf mn (buf @ d) eof r' = Inr (buf', eof', r'') \<and> reader_ok r'' \<and>
           (eof' \<longrightarrow> r'' = []) \<and> buf' @ reader_bytes r'' = (buf @ d) @ reader_bytes r' \<and>
           (length buf' < mn \<longrightarrow> eof')"
        by (rule 1(1) [OF True Cons d(1,2) ok]) (use True in simp)
      moreover have "fill_buf mn buf eof r = fill_buf mn (buf @ d) eof r'"
        using True Cons d by (simp add: fill_buf.simps [of mn buf False])
      ultimately show ?thesis using Cons d(1) by simp
    qed
  next
    case False
    then show ?thesis using 1(2,3) by (auto simp: fill_buf.simps [of mn buf eof r])
  qed
qed

text \<open>One iteration of the outer loop, once the buffer is filled.\<close>

lemma chunk_reader_loop_step:
  assumes fill: "fill_buf (min_size eng) buf eof r = Inr (buf', eof', r')" and ne: "buf' \<noteq> []"
  shows "chunk_reader_loop h eng f buf eof r off s =
     (let n = cut_len eng buf';
          ck = \<lparr>ck_hash = h (take n buf'), ck_offset = off, ck_size = n, ck_data = take n buf'\<rparr>
      in case f ck s of
           (Inl e, s') \<Rightarrow> Some (Inl e, s')
         | (Inr u, s') \<Rightarrow> if eof' \<and> drop n buf' = [] then Some (Inr (), s')
                         else chunk_reader_loop h eng f (drop n buf') eof' r' (off + n) s')"
  using fill ne
  by (simp add: chunk_reader_loop.simps [of h eng f buf eof r] cut_len_def find_boundary_def Let_def
      cong: if_cong)

lemma chunk_reader_loop_end:
  "fill_buf (min_size eng) buf eof r = Inr ([], eof', r') \<Longrightarrow>
   chunk_reader_loop h eng f buf eof r off s = Some (Inr (), s)"
  by (simp add: chunk_reader_loop.simps [of h eng f buf eof r])

text \<open>What a chunk list owes the engine: non-empty chunks within the maximum, all but the last
  of at least \<open>min_size\<close> bytes.\<close>

definition stream_sizes :: "chunk_engine \<Rightarrow> bytes list \<Rightarrow> bool" where
  "stream_sizes eng ds =
     (list_all (\<lambda>d. d \<noteq> [] \<and> length d \<le> max_size eng) ds \<and>
      list_all (\<lambda>d. min_size eng \<le> length d) (butlast ds))"

text \<open>The pieces that streaming cuts, as a relation on the state of the loop.\<close>

inductive streams :: "chunk_engine \<Rightarrow> bytes \<Rightarrow> bool \<Rightarrow> reader \<Rightarrow> bytes list \<Rightarrow> bool" for eng where
  empty: "fill_buf (min_size eng) buf eof r = Inr ([], eof', r') \<Longrightarrow> streams eng buf eof r []"
| final: "fill_buf (min_size eng) buf eof r = Inr (buf', True, r') \<Longrightarrow> buf' \<noteq> [] \<Longrightarrow>
     drop (cut_len eng buf') buf' = [] \<Longrightarrow> streams eng buf eof r [take (cut_len eng buf') buf']"
| piece: "fill_buf (min_size eng) buf eof r = Inr (buf', eof', r') \<Longrightarrow> buf' \<noteq> [] \<Longrightarrow>
     \<not> (eof' \<and> drop (cut_len eng buf') buf' = []) \<Longrightarrow> streams eng (drop (cut_len eng buf') buf') eof' r' ds \<Longrightarrow>
     streams eng buf eof r (take (cut_len eng buf') buf' # ds)"

text \<open>The loop hands the pieces to the closure, whatever the closure does.\<close>

lemma streams_deliver:
  assumes "streams eng buf eof r ds" and "0 < max_size eng"
  shows "chunk_reader_loop h eng f buf eof r off s = Some (deliver f (label h off ds) s)"
  using assms(1)
proof (induction arbitrary: off s rule: streams.induct)
  case (empty buf eof r eof' r')
  then show ?case by (simp add: chunk_reader_loop_end)
next
  case (final buf eof r buf' r')
  with cutter.cut_le [OF cut_len_cutter [OF assms(2)], of buf'] show ?case
    by (auto simp: chunk_reader_loop_step Let_def split: prod.splits sum.splits)
next
  case (piece buf eof r buf' eof' r' ds)
  with cutter.cut_le [OF cut_len_cutter [OF assms(2)], of buf'] show ?case
    by (auto simp: chunk_reader_loop_step Let_def split: prod.splits sum.splits)
qed

lemma chunk_reader_loop_cuts:
  assumes sizes: "0 < min_size eng" "min_size eng < max_size eng"
    and "reader_ok r" and "eof \<longrightarrow> r = []"
  shows "\<exists>ds. streams eng buf eof r ds \<and> concat ds = buf @ reader_bytes r \<and> stream_sizes eng ds"
  using assms(3,4)
proof (induction "length (buf @ reader_bytes r)" arbitrary: buf eof r rule: less_induct)
  case less
  have mx: "0 < max_size eng" using sizes by simp
  note cutter = cut_len_cutter [OF mx]
  obtain buf' eof' r' where fill: "fill_buf (min_size eng) buf eof r = Inr (buf', eof', r')"
    and ok: "reader_ok r'" "eof' \<longrightarrow> r' = []" and bytes: "buf' @ reader_bytes r' = buf @ reader_bytes r"
    and short: "length buf' < min_size eng \<longrightarrow> eof'"
    using fill_buf_ok [OF less.prems] by blast
  show ?case
  proof (cases "buf' = []")
    case True
    then have "r' = []" using short ok sizes by simp
    with True fill bytes show ?thesis
      by (intro exI [of _ "[]"]) (simp add: stream_sizes_def streams.empty)
  next
    case False
    define n where "n = cut_len eng buf'"
    have n: "0 < n" "n \<le> length buf'" "n \<le> max_size eng"
      using cutter.cut_pos [OF cutter False] cutter.cut_le [OF cutter, of buf'] cut_len_max [of eng buf'] sizes
      by (simp_all add: n_def)
    have lt: "length (drop n buf' @ reader_bytes r') < length (buf @ reader_bytes r)"
      using n by (simp flip: bytes)
    obtain ds where ds: "streams eng (drop n buf') eof' r' ds"
      and cat: "concat ds = drop n buf' @ reader_bytes r'" and sz: "stream_sizes eng ds"
      using less(1) [OF lt ok] by blast
    have "streams eng buf eof r (take n buf' # ds)"
    proof (cases "eof' \<and> drop n buf' = []")
      case True
      have "ds = []"
      proof (rule ccontr)
        assume "ds \<noteq> []"
        then have "concat ds \<noteq> []" using sz by (cases ds) (auto simp: stream_sizes_def)
        then show False using cat ok True by simp
      qed
      with True fill False streams.final [of eng buf eof r buf' r'] show ?thesis by (simp add: n_def)
    next
      case more: False
      show ?thesis using streams.piece [OF fill False more [unfolded n_def] ds [unfolded n_def]] by (simp add: n_def)
    qed
    moreover have "concat (take n buf' # ds) = buf @ reader_bytes r"
      by (simp add: cat flip: bytes append_assoc)
    moreover have "stream_sizes eng (take n buf' # ds)"
    proof -
      have "min_size eng \<le> n" if "ds \<noteq> []"
      proof (cases "length buf' \<le> min_size eng")
        case True
        then have "n = length buf'" by (simp add: n_def cut_len_def)
        then have "reader_bytes r' \<noteq> []" using cat sz that by (cases ds) (auto simp: stream_sizes_def)
        then show ?thesis using short ok \<open>n = length buf'\<close> by (cases "eof'") auto
      next
        case False
        then show ?thesis using cut_len_min [of eng buf'] sizes n by (cases "n < length buf'") (auto simp: n_def)
      qed
      then show ?thesis using n sz False by (auto simp: stream_sizes_def)
    qed
    ultimately show ?thesis by blast
  qed
qed

text \<open>C29: streaming a file returns, and hands the caller's closure a sequence of chunks that
  does not depend on the closure: the chunks partition the bytes of the reader (in order, with
  their hashes and offsets), none is empty or longer than \<open>max_size\<close>, all but the last have at
  least \<open>min_size\<close> bytes, and the first error of the closure ends the run with that error.\<close>

theorem chunk_reader_partition:
  assumes "0 < min_size eng" and "min_size eng < max_size eng" and "reader_ok r"
  shows "\<exists>ds. concat ds = reader_bytes r \<and> stream_sizes eng ds \<and>
           (\<forall>f (s :: 's). chunk_reader h eng r f s = Some (deliver f (label h 0 ds) s))"
proof -
  have mx: "0 < max_size eng" using assms(1,2) by simp
  from chunk_reader_loop_cuts [OF assms, of False "[]"] obtain ds where
    "streams eng [] False r ds" "concat ds = reader_bytes r" "stream_sizes eng ds" by auto
  with streams_deliver [OF _ mx, of "[]" False r ds h _ 0] show ?thesis by (auto simp: chunk_reader_def)
qed

theorem chunk_reader_partition_witness:
  "0 < min_size (with_sizes 2 4 6) \<and> reader_ok [Data [1, 2, 3], Data [4, 5]] \<and>
   (\<exists>ds. concat ds = [1, 2, 3, 4, 5] \<and>
     chunk_reader (\<lambda>_. ''h'') (with_sizes 2 4 6) [Data [1, 2, 3], Data [4, 5]] collect []
       = Some (Inr (), label (\<lambda>_. ''h'') 0 ds))"
proof -
  have "0 < min_size (with_sizes 2 4 6)" "min_size (with_sizes 2 4 6) < max_size (with_sizes 2 4 6)"
    and ok: "reader_ok [Data [1, 2, 3], Data [4, 5]]"
    by (simp_all add: with_sizes_def reader_ok_def tmp_len_def)
  from chunk_reader_partition [OF this, of "\<lambda>_. ''h''"] obtain ds where
    "concat ds = [1, 2, 3, 4, 5]" and
    "\<And>f (s :: chunk list). chunk_reader (\<lambda>_. ''h'') (with_sizes 2 4 6) [Data [1, 2, 3], Data [4, 5]] f s
       = Some (deliver f (label (\<lambda>_. ''h'') 0 ds) s)"
    by auto
  with ok show ?thesis by (intro conjI exI [of _ ds]) (simp_all add: deliver_collect with_sizes_def)
qed

section \<open>Streaming against the whole buffer\<close>

lemma chunk_reader_loop_all_read:
  assumes mx: "0 < max_size eng"
  shows "chunk_reader_loop h eng f buf eof [] off s
           = Some (deliver f (label h off (cuts (cut_len eng) buf)) s)"
proof (induction "length buf" arbitrary: buf eof off s rule: less_induct)
  case less
  note cutter = cut_len_cutter [OF mx]
  obtain eof' where fill: "fill_buf (min_size eng) buf eof [] = Inr (buf, eof', [])"
    by (cases "length buf < min_size eng \<and> \<not> eof") (simp_all add: fill_buf.simps)
  show ?case
  proof (cases "buf = []")
    case True
    then show ?thesis using fill by (simp add: chunk_reader_loop_end cuts.simps)
  next
    case False
    define n where "n = cut_len eng buf"
    have n: "0 < n" "n \<le> length buf"
      using cutter.cut_pos [OF cutter False] cutter.cut_le [OF cutter, of buf] by (simp_all add: n_def)
    have IH: "chunk_reader_loop h eng f (drop n buf) eof' [] (off + n) s
                = Some (deliver f (label h (off + n) (cuts (cut_len eng) (drop n buf))) s)" for s
      by (rule less) (use n in simp)
    have step: "cuts (cut_len eng) buf = take n buf # cuts (cut_len eng) (drop n buf)"
      using cutter.cuts_step [OF cutter False] by (simp add: n_def)
    show ?thesis using n
      by (auto simp: chunk_reader_loop_step [OF fill False] step IH cuts.simps [of "cut_len eng" "[]"]
          Let_def simp flip: n_def split: prod.splits sum.splits)
  qed
qed

text \<open>On a file that one \<open>read\<close> call delivers whole (at most 8192 bytes), streaming gives
  exactly the chunks of the whole-buffer path, as the comment on \<open>chunk_reader\<close> promises.\<close>

theorem chunk_reader_single_read:
  assumes "0 < min_size eng" and "0 < max_size eng" and "d \<noteq> []"
  shows "chunk_reader h eng [Data d] collect [] = map_option (Pair (Inr ())) (chunk_file h eng d)"
proof -
  have "fill_buf (min_size eng) [] False [Data d] = fill_buf (min_size eng) d False []"
    using assms by (simp add: fill_buf.simps [of "min_size eng" "[]" False "[Data d]"])
  then have "chunk_reader_loop h eng collect [] False [Data d] 0 []
               = chunk_reader_loop h eng collect d False [] 0 []"
    by (simp add: chunk_reader_loop.simps [of h eng collect "[]" False]
        chunk_reader_loop.simps [of h eng collect d False])
  then show ?thesis
    by (simp add: chunk_reader_def chunk_reader_loop_all_read chunk_file_cuts assms deliver_collect)
qed

theorem chunk_reader_single_read_witness:
  "0 < min_size ChunkEngine_new \<and> [7 :: u8, 8] \<noteq> [] \<and>
   chunk_reader (\<lambda>_. ''h'') ChunkEngine_new [Data [7, 8]] collect []
     = Some (Inr (), [\<lparr>ck_hash = ''h'', ck_offset = 0, ck_size = 2, ck_data = [7, 8]\<rparr>])"
  using chunk_reader_single_read [of ChunkEngine_new "[7, 8]" "\<lambda>_. ''h''"]
  by (simp add: chunk_file_def)

text \<open>On data whose windows never match the mask, a cut is the end of the search range.\<close>

lemma window_hash_ones: "window_hash (replicate window 1) AND boundary_mask ChunkEngine_new \<noteq> 0"
proof -
  have "replicate window (1 :: u8) = [1, 1, 1, 1, 1, 1, 1, 1, 1, 1, 1, 1, 1, 1, 1, 1, 1, 1, 1, 1, 1, 1, 1, 1,
      1, 1, 1, 1, 1, 1, 1, 1, 1, 1, 1, 1, 1, 1, 1, 1, 1, 1, 1, 1, 1, 1, 1, 1]"
    by (simp add: window_def eval_nat_numeral)
  then have "window_hash (replicate window 1) AND 65535 = 25344"
    by (simp add: window_hash_def)
  then show ?thesis by (simp add: boundary_mask_def)
qed

lemma window_at_replicate: "window \<le> i + 1 \<Longrightarrow> i < n \<Longrightarrow> window_at (replicate n b) i = replicate window b"
  by (simp add: window_at_def window_def)

lemma cut_len_ones: "n \<le> 262144 \<Longrightarrow> cut_len ChunkEngine_new (replicate n 1) = n"
proof -
  assume n: "n \<le> 262144"
  have "find (content_cut (replicate n 1) (boundary_mask ChunkEngine_new)) [4096 + window..<min 262144 n] = None"
    using window_hash_ones by (auto simp: find_None_iff content_cut_def window_at_replicate)
  with n show ?thesis
    by (simp add: cut_len_def find_boundary_def find_boundary_at_spec boundary_spec_def)
qed

lemma cuts_ones:
  assumes "0 < n" and "n \<le> 262144"
  shows "cuts (cut_len ChunkEngine_new) (replicate n 1) = [replicate n 1]"
  using assms by (simp add: cuts_single cut_len_ones)

lemma chunk_reader_ones:
  "chunk_reader h ChunkEngine_new [Data (replicate 8192 1), Data (replicate 8192 1)] f s
     = Some (deliver f (label h 0 [replicate 8192 1, replicate 8192 1]) s)"
proof -
  let ?one = "replicate 8192 1 :: bytes"
  have fill: "fill_buf (min_size ChunkEngine_new) [] False [Data ?one, Data ?one] = Inr (?one, False, [Data ?one])"
    and fill2: "fill_buf (min_size ChunkEngine_new) [] False [Data ?one] = Inr (?one, False, [])"
    by (simp_all add: fill_buf.simps)
  have ne: "?one \<noteq> []" by simp
  have cut: "cut_len ChunkEngine_new ?one = 8192" by (rule cut_len_ones) simp
  have last: "chunk_reader_loop h ChunkEngine_new f [] False [] off s = Some (Inr (), s)" for off s
    by (subst chunk_reader_loop_all_read) (simp_all add: cuts.simps)
  show ?thesis
    by (simp add: chunk_reader_def chunk_reader_loop_step [OF fill ne] chunk_reader_loop_step [OF fill2 ne]
        cut Let_def last split: prod.splits sum.splits)
qed

text \<open>On larger files the two paths differ.  With the default engine, 16384 bytes of value 1
  that arrive in 8192-byte reads are one chunk of 16384 bytes for \<open>chunk_file\<close> and two chunks of
  8192 bytes for \<open>chunk_reader\<close>: the streaming path searches only the bytes it has buffered and
  cuts at the end of the buffer.\<close>

theorem chunk_reader_differs_from_chunk_file:
  "map_option (map ck_size) (chunk_file h ChunkEngine_new (replicate 16384 1)) = Some [16384] \<and>
   map_option (\<lambda>(res, cs). map ck_size cs)
     (chunk_reader h ChunkEngine_new [Data (replicate 8192 1), Data (replicate 8192 1)] collect [])
       = Some [8192, 8192] \<and>
   reader_bytes [Data (replicate 8192 1), Data (replicate 8192 1)] = replicate 16384 1"
  by (simp add: chunk_file_cuts cuts_ones chunk_reader_ones collect_def flip: replicate_add)

end
