(* ===== verification/Filesystem.thy ===== *)
theory Filesystem
  imports Prelude
begin

text \<open>
  The part of \<open>std::path\<close> and \<open>std::fs\<close> that the sidecar uses.

  A path is the list of its components, the view in which Rust compares paths: an absolute
  path starts with the component \<open>/\<close>, a relative one may start with \<open>.\<close>.  A file system is
  the list of its entries with their contents (the order of the entries is the order in which
  \<open>read_dir\<close> lists them), the paths on which the operating system reports an I/O error, and
  the real location of a path, which \<open>canonicalize\<close> returns.  An operation that fails returns
  \<open>IoError\<close> and leaves the state as it was when it failed.
\<close>

type_synonym path = "string list"

datatype node = File bytes | Dir

record fs =
  entries :: "(path \<times> node) list"
  faulty :: "path list"
  real_path :: "path \<Rightarrow> path"

section \<open>Paths\<close>

definition is_absolute :: "path \<Rightarrow> bool" where
  "is_absolute p = (p \<noteq> [] \<and> hd p = ''/'')"

text \<open>\<open>Path::join\<close>: an absolute argument replaces the base.\<close>

definition join :: "path \<Rightarrow> path \<Rightarrow> path" where
  "join base p = (if is_absolute p then p else base @ filter (\<lambda>c. c \<noteq> ''.'') p)"

definition path_starts_with :: "path \<Rightarrow> path \<Rightarrow> bool" where
  "path_starts_with p base = (take (length base) p = base)"

definition parent :: "path \<Rightarrow> path" where
  "parent p = butlast p"

text \<open>Splitting a string at a separator, as \<open>str::split\<close> does (always at least one piece).\<close>

fun split_on :: "char \<Rightarrow> string \<Rightarrow> string list" where
  "split_on c [] = [[]]"
| "split_on c (x # xs) =
     (if x = c then [] # split_on c xs
      else case split_on c xs of [] \<Rightarrow> [[x]] | s # ss \<Rightarrow> (x # s) # ss)"

text \<open>\<open>Path::new(s).components()\<close> on Unix: a leading \<open>/\<close> is the root, empty components and
  inner \<open>.\<close> components disappear.\<close>

definition path_of :: "string \<Rightarrow> path" where
  "path_of s =
     (let cs = filter (\<lambda>c. c \<noteq> []) (split_on (CHR ''/'') s) in
      if s \<noteq> [] \<and> hd s = CHR ''/'' then ''/'' # filter (\<lambda>c. c \<noteq> ''.'') cs
      else case cs of [] \<Rightarrow> [] | c # cs' \<Rightarrow> c # filter (\<lambda>c. c \<noteq> ''.'') cs')"

section \<open>Reading\<close>

definition fs_node :: "fs \<Rightarrow> path \<Rightarrow> node option" where
  "fs_node f p = (if p = [] \<or> p = [''/''] \<or> p = [''.''] then Some Dir else map_of (entries f) p)"

definition fs_exists :: "fs \<Rightarrow> path \<Rightarrow> bool" where
  "fs_exists f p = (fs_node f p \<noteq> None)"

definition is_dir :: "fs \<Rightarrow> path \<Rightarrow> bool" where
  "is_dir f p = (fs_node f p = Some Dir)"

definition is_file :: "fs \<Rightarrow> path \<Rightarrow> bool" where
  "is_file f p = (case fs_node f p of Some (File b) \<Rightarrow> True | _ \<Rightarrow> False)"

definition fs_read :: "fs \<Rightarrow> path \<Rightarrow> error + bytes" where
  "fs_read f p =
     (case fs_node f p of
        Some (File b) \<Rightarrow> if p \<in> set (faulty f) then Inl IoError else Inr b
      | _ \<Rightarrow> Inl IoError)"

definition fs_read_to_string :: "fs \<Rightarrow> path \<Rightarrow> error + string" where
  "fs_read_to_string f p = bindE (fs_read f p)
     (\<lambda>b. if utf8_valid b then Inr (string_of b) else Inl IoError)"

text \<open>\<open>path.metadata().ok().map(|m| m.len()).unwrap_or(0)\<close> of a file; the length the operating
  system reports for a directory is taken as 0.\<close>

definition file_len :: "fs \<Rightarrow> path \<Rightarrow> nat" where
  "file_len f p = (case fs_node f p of Some (File b) \<Rightarrow> length b | _ \<Rightarrow> 0)"

definition read_dir :: "fs \<Rightarrow> path \<Rightarrow> error + string list" where
  "read_dir f p =
     (if is_dir f p \<and> p \<notin> set (faulty f)
      then Inr (map (last \<circ> fst) (filter (\<lambda>(q, n). q \<noteq> [] \<and> butlast q = p) (entries f)))
      else Inl IoError)"

definition canonicalize :: "fs \<Rightarrow> path \<Rightarrow> error + path" where
  "canonicalize f p = (if fs_exists f p then Inr (real_path f p) else Inl IoError)"

section \<open>Writing\<close>

definition set_node :: "path \<Rightarrow> node \<Rightarrow> fs \<Rightarrow> fs" where
  "set_node p n f = f\<lparr>entries := put p n (entries f)\<rparr>"

definition fs_write :: "path \<Rightarrow> bytes \<Rightarrow> (fs, unit) step" where
  "fs_write p b f =
     (if p \<in> set (faulty f) \<or> is_dir f p \<or> \<not> is_dir f (parent p) then (Inl IoError, f)
      else (Inr (), set_node p (File b) f))"

text \<open>Appending to a file that is open for writing.\<close>

definition fs_append :: "path \<Rightarrow> bytes \<Rightarrow> (fs, unit) step" where
  "fs_append p b f =
     (case fs_read f p of Inl e \<Rightarrow> (Inl e, f) | Inr old \<Rightarrow> (Inr (), set_node p (File (old @ b)) f))"

fun mkdirs :: "path \<Rightarrow> path \<Rightarrow> (fs, unit) step" where
  "mkdirs p [] f = (Inr (), f)"
| "mkdirs p (c # cs) f =
     (let q = p @ [c] in
      case fs_node f q of
        Some Dir \<Rightarrow> mkdirs q cs f
      | Some (File b) \<Rightarrow> (Inl IoError, f)
      | None \<Rightarrow> if q \<in> set (faulty f) then (Inl IoError, f) else mkdirs q cs (set_node q Dir f))"

definition create_dir_all :: "path \<Rightarrow> (fs, unit) step" where
  "create_dir_all p = mkdirs [] p"

definition remove_file :: "path \<Rightarrow> (fs, unit) step" where
  "remove_file p f =
     (if is_file f p \<and> p \<notin> set (faulty f) then (Inr (), f\<lparr>entries := del p (entries f)\<rparr>)
      else (Inl IoError, f))"

definition below :: "path \<Rightarrow> path \<Rightarrow> bool" where
  "below p q = (take (length p) q = p)"

definition remove_dir_all :: "path \<Rightarrow> (fs, unit) step" where
  "remove_dir_all p f =
     (if is_dir f p \<and> p \<notin> set (faulty f)
      then (Inr (), f\<lparr>entries := filter (\<lambda>(q, n). \<not> below p q) (entries f)\<rparr>)
      else (Inl IoError, f))"

text \<open>\<open>rename\<close> moves a file or a directory tree; it replaces a file by a file and an empty
  directory by a directory.\<close>

definition rename :: "path \<Rightarrow> path \<Rightarrow> (fs, unit) step" where
  "rename a b f =
     (if fs_exists f a \<and> a \<notin> set (faulty f) \<and> b \<notin> set (faulty f) \<and> is_dir f (parent b) \<and> \<not> below a b \<and>
         (case fs_node f b of
            None \<Rightarrow> True
          | Some (File x) \<Rightarrow> is_file f a
          | Some Dir \<Rightarrow> is_dir f a \<and> \<not> (\<exists>(q, n) \<in> set (entries f). below b q \<and> q \<noteq> b))
      then (Inr (), f\<lparr>entries := map (\<lambda>(q, n). if below a q then (b @ drop (length a) q, n) else (q, n))
                                   (filter (\<lambda>(q, n). \<not> below b q) (entries f))\<rparr>)
      else (Inl IoError, f))"

section \<open>Lookup after update\<close>

lemma fs_node_set_node [simp]:
  "fs_node (set_node p n f) q =
     (if q = [] \<or> q = [''/''] \<or> q = [''.''] then Some Dir else if q = p then Some n else fs_node f q)"
  by (simp add: fs_node_def set_node_def)

lemma fs_node_root: "q = [] \<or> q = [''/''] \<or> q = [''.''] \<Longrightarrow> fs_node f q = Some Dir"
  by (auto simp: fs_node_def)

lemma faulty_set_node [frame_simps]: "faulty (set_node p n f) = faulty f"
  by (simp add: set_node_def)

lemma real_path_set_node [frame_simps]: "real_path (set_node p n f) = real_path f"
  by (simp add: set_node_def)

lemma fs_write_InrD:
  assumes "fs_write p b f = (Inr (), f')"
  shows "f' = set_node p (File b) f" "p \<notin> set (faulty f)" "\<not> is_dir f p" "is_dir f (parent p)"
  using assms by (auto simp: fs_write_def split: if_splits)

lemma root_is_dir: "p = [] \<or> p = [''/''] \<or> p = [''.''] \<Longrightarrow> is_dir f p"
  by (auto simp: is_dir_def fs_node_def)

lemma fs_node_write:
  "fs_write p b f = (Inr (), f') \<Longrightarrow> fs_node f' q = (if q = p then Some (File b) else fs_node f q)"
  using fs_write_InrD [of p b f f'] root_is_dir [of p f] by (auto simp: fs_node_def set_node_def)

lemma fs_write_frame [frame_simps]:
  "fs_write p b f = (r, f') \<Longrightarrow> faulty f' = faulty f \<and> real_path f' = real_path f"
  by (auto simp: fs_write_def set_node_def split: if_splits)

lemma fs_read_write:
  "fs_write p b f = (Inr (), f') \<Longrightarrow> fs_read f' q = (if q = p then Inr b else fs_read f q)"
  using fs_write_InrD(2) [of p b f f'] fs_write_frame [of p b f "Inr ()" f']
  by (simp add: fs_read_def fs_node_write split: node.splits option.splits)

lemma is_dir_write:
  "fs_write p b f = (Inr (), f') \<Longrightarrow> is_dir f' q = is_dir f q"
  using fs_write_InrD(3) [of p b f f'] by (auto simp: is_dir_def fs_node_write)

lemma fs_node_remove_file:
  "remove_file p f = (Inr (), f') \<Longrightarrow> fs_node f' q = (if q = p then None else fs_node f q)"
  using root_is_dir [of p f]
  by (auto simp: remove_file_def fs_node_def is_file_def is_dir_def split: if_splits)

lemma remove_file_frame [frame_simps]:
  "remove_file p f = (r, f') \<Longrightarrow> faulty f' = faulty f \<and> real_path f' = real_path f"
  by (auto simp: remove_file_def split: if_splits)

lemma mkdirs_props:
  "mkdirs p cs f = (r, f') \<Longrightarrow>
     faulty f' = faulty f \<and> real_path f' = real_path f \<and>
     (\<forall>q b. fs_node f q = Some (File b) \<longleftrightarrow> fs_node f' q = Some (File b)) \<and>
     (\<forall>q. is_dir f q \<longrightarrow> is_dir f' q)"
proof (induction p cs f rule: mkdirs.induct)
  case (1 p f)
  then show ?case by simp
next
  case (2 p c cs f)
  show ?case
  proof (cases "fs_node f (p @ [c])")
    case None
    show ?thesis
    proof (cases "p @ [c] \<in> set (faulty f)")
      case False
      let ?g = "set_node (p @ [c]) Dir f"
      from None False "2.prems" have "mkdirs (p @ [c]) cs ?g = (r, f')" by (simp add: Let_def)
      with 2(1) [OF refl None False]
      have IH: "faulty f' = faulty ?g" "real_path f' = real_path ?g"
        "\<And>q b. fs_node ?g q = Some (File b) \<longleftrightarrow> fs_node f' q = Some (File b)"
        "\<And>q. is_dir ?g q \<Longrightarrow> is_dir f' q" by blast+
      have "fs_node f q = Some (File b) \<longleftrightarrow> fs_node ?g q = Some (File b)" for q b
        using None fs_node_root [of q f] by (cases "q = [] \<or> q = [''/''] \<or> q = [''.'']") auto
      moreover have "is_dir ?g q" if "is_dir f q" for q using that by (auto simp: is_dir_def)
      ultimately show ?thesis using IH by (simp add: frame_simps)
    qed (use None "2.prems" in \<open>auto simp: Let_def\<close>)
  next
    case (Some n)
    then show ?thesis using 2 by (cases n) (auto simp: Let_def)
  qed
qed

lemma fs_read_set_node:
  "fs_node f p \<noteq> Some Dir \<Longrightarrow> p \<notin> set (faulty f) \<Longrightarrow>
   fs_read (set_node p (File b) f) q = (if q = p then Inr b else fs_read f q)"
  using fs_node_root [of p f] by (auto simp: fs_read_def set_node_def fs_node_def split: node.splits option.splits)

lemma fs_read_InrD: "fs_read f p = Inr b \<Longrightarrow> fs_node f p = Some (File b) \<and> p \<notin> set (faulty f)"
  by (auto simp: fs_read_def split: node.splits option.splits if_splits)

lemma fs_read_append:
  assumes "fs_append p b f = (Inr (), f')"
  obtains old where "fs_read f p = Inr old" "\<And>q. fs_read f' q = (if q = p then Inr (old @ b) else fs_read f q)"
proof (cases "fs_read f p")
  case (Inr old)
  then have "f' = set_node p (File (old @ b)) f" using assms by (simp add: fs_append_def)
  with Inr fs_read_set_node [of f p] fs_read_InrD [OF Inr] that show ?thesis by auto
qed (use assms in \<open>simp add: fs_append_def\<close>)

lemma fs_read_mkdirs:
  assumes "mkdirs p cs f = (r, f')" shows "fs_read f' q = fs_read f q"
proof (cases "\<exists>b. fs_node f q = Some (File b)")
  case True
  then obtain b where "fs_node f q = Some (File b)" "fs_node f' q = Some (File b)"
    using mkdirs_props [OF assms] by blast
  moreover have "faulty f' = faulty f" using mkdirs_props [OF assms] by blast
  ultimately show ?thesis by (simp add: fs_read_def)
next
  case False
  then have "\<nexists>b. fs_node f' q = Some (File b)" using mkdirs_props [OF assms] by blast
  with False show ?thesis by (auto simp: fs_read_def split: option.splits node.splits)
qed

lemma fs_read_remove_file:
  "fs_read (snd (remove_file p f)) q = (if q = p \<and> fst (remove_file p f) = Inr () then Inl IoError else fs_read f q)"
proof (cases "fst (remove_file p f)")
  case (Inr u)
  then have "remove_file p f = (Inr (), snd (remove_file p f))" by (simp add: prod_eq_iff)
  with fs_node_remove_file [OF this, of q] remove_file_frame [OF this] Inr show ?thesis
    by (simp add: fs_read_def split: option.splits node.splits)
qed (auto simp: remove_file_def split: if_splits)

lemma file_len_write:
  "fs_write p b f = (Inr (), f') \<Longrightarrow> file_len f' q = (if q = p then length b else file_len f q)"
  by (simp add: file_len_def fs_node_write)

lemma file_len_mkdirs:
  assumes "mkdirs p cs f = (r, f')" shows "file_len f' q = file_len f q"
proof -
  have eq: "\<And>b. fs_node f q = Some (File b) \<longleftrightarrow> fs_node f' q = Some (File b)"
    using mkdirs_props [OF assms] by blast
  show ?thesis
  proof (cases "\<exists>b. fs_node f q = Some (File b)")
    case True
    then obtain b where "fs_node f q = Some (File b)" "fs_node f' q = Some (File b)" using eq by blast
    then show ?thesis by (simp add: file_len_def)
  next
    case False
    then have "\<nexists>b. fs_node f' q = Some (File b)" using eq by blast
    with False show ?thesis by (auto simp: file_len_def split: option.splits node.splits)
  qed
qed

text \<open>A path that a file can be written to.\<close>

definition writable :: "fs \<Rightarrow> path \<Rightarrow> bool" where
  "writable f p = (p \<notin> set (faulty f) \<and> \<not> is_dir f p \<and> is_dir f (parent p))"

lemma fs_write_succeeds: "writable f p \<Longrightarrow> \<exists>f'. fs_write p b f = (Inr (), f')"
  by (simp add: fs_write_def writable_def)

lemma writable_write:
  assumes "fs_write p b f = (Inr (), f')" shows "writable f' q = writable f q"
proof -
  have "faulty f' = faulty f" using fs_write_frame [OF assms] by simp
  then show ?thesis by (simp add: writable_def is_dir_write [OF assms])
qed

section \<open>Entries after directories are made, moved and removed\<close>

lemma below_append [simp]: "below p (p @ q)"
  by (simp add: below_def)

lemma mkdirs_node:
  "mkdirs p cs f = (r, f') \<Longrightarrow> (\<And>k. q \<noteq> p @ take k cs) \<Longrightarrow> fs_node f' q = fs_node f q"
proof (induction p cs f arbitrary: r rule: mkdirs.induct)
  case (2 p c cs f)
  have q: "q \<noteq> (p @ [c]) @ take k cs" "q \<noteq> p @ [c]" for k
    using "2.prems"(2) [of "Suc k"] "2.prems"(2) [of 1] by simp_all
  have "fs_node (set_node (p @ [c]) Dir f) q = fs_node f q"
    using q(2) fs_node_root [of q f] by auto
  with 2 q show ?case by (auto simp: Let_def split: option.splits node.splits if_splits)
qed simp

lemma create_dir_all_node:
  "create_dir_all p f = (r, f') \<Longrightarrow> \<not> below q p \<Longrightarrow> fs_node f' q = fs_node f q"
proof -
  assume "create_dir_all p f = (r, f')" "\<not> below q p"
  moreover from this(2) have "q \<noteq> [] @ take k p" for k by (cases "k \<le> length p") (auto simp: below_def)
  ultimately show ?thesis unfolding create_dir_all_def by (intro mkdirs_node)
qed

lemma mkdirs_dir: "mkdirs p cs f = (Inr (), f') \<Longrightarrow> is_dir f p \<Longrightarrow> is_dir f' (p @ cs)"
proof (induction p cs f rule: mkdirs.induct)
  case (2 p c cs f)
  have "is_dir (set_node (p @ [c]) Dir f) (p @ [c])" by (simp add: is_dir_def)
  with 2 show ?case by (auto simp: Let_def is_dir_def split: option.splits node.splits if_splits)
qed simp

lemma create_dir_all_dir: "create_dir_all p f = (Inr (), f') \<Longrightarrow> is_dir f' p"
  using mkdirs_dir [of "[]" p f f'] root_is_dir [of "[]" f] by (simp add: create_dir_all_def)

lemma create_dir_all_frame:
  "create_dir_all p f = (r, f') \<Longrightarrow> faulty f' = faulty f \<and> real_path f' = real_path f \<and>
     (\<forall>q b. fs_node f q = Some (File b) \<longleftrightarrow> fs_node f' q = Some (File b)) \<and> (\<forall>q. is_dir f q \<longrightarrow> is_dir f' q) \<and>
     (\<forall>q. fs_read f' q = fs_read f q)"
  using mkdirs_props [of "[]" p f r f'] fs_read_mkdirs [of "[]" p f r f'] unfolding create_dir_all_def by blast

text \<open>Renaming a tree to a place that is not below it.\<close>

lemma below_iff: "below p q \<longleftrightarrow> (\<exists>t. q = p @ t)"
  by (auto simp: below_def) (metis append_take_drop_id)

lemma below_both: "below a q \<Longrightarrow> below b q \<Longrightarrow> below a b \<or> below b a"
  by (auto simp: below_iff append_eq_append_conv2)

lemma map_of_rename:
  assumes "\<not> below b a" and "\<not> below a b"
  defines "move \<equiv> \<lambda>(q, n :: node). if below a q then (b @ drop (length a) q, n) else (q, n)"
  shows "map_of (map move (filter (\<lambda>(q, n). \<not> below b q) xs)) (b @ t) = map_of xs (a @ t)"
    and "\<not> below b q \<Longrightarrow> below a q \<Longrightarrow> map_of (map move (filter (\<lambda>(q, n). \<not> below b q) xs)) q = None"
    and "\<not> below b q \<Longrightarrow> \<not> below a q \<Longrightarrow> map_of (map move (filter (\<lambda>(q, n). \<not> below b q) xs)) q = map_of xs q"
proof -
  have apart: "\<not> below b q" if "below a q" for q using below_both [OF that] assms(1,2) by blast
  then have n: "\<not> below b (a @ t)" for t by (simp add: below_iff)
  show "map_of (map move (filter (\<lambda>(q, n). \<not> below b q) xs)) (b @ t) = map_of xs (a @ t)"
  proof (induction xs)
    case (Cons x xs)
    obtain p n where x: "x = (p, n)" by fastforce
    show ?case
    proof (cases "below a p")
      case True
      then obtain s where "p = a @ s" by (auto simp: below_iff)
      with Cons n show ?thesis by (auto simp: x move_def)
    qed (use Cons n in \<open>auto simp: x move_def\<close>)
  qed simp
  show "map_of (map move (filter (\<lambda>(q, n). \<not> below b q) xs)) q = None" if "\<not> below b q" "below a q"
    using that by (induction xs) (auto simp: move_def split: if_splits)
  show "map_of (map move (filter (\<lambda>(q, n). \<not> below b q) xs)) q = map_of xs q" if "\<not> below b q" "\<not> below a q"
    using that by (induction xs) (auto simp: move_def)
qed

definition proper :: "path \<Rightarrow> bool" where
  "proper p = (p \<noteq> [] \<and> p \<noteq> [''/''] \<and> p \<noteq> [''.''])"

lemma proper_append [simp]: "proper p \<Longrightarrow> proper (p @ t)"
  by (cases t) (auto simp: proper_def Cons_eq_append_conv append_eq_Cons_conv)

lemma fs_node_proper: "proper p \<Longrightarrow> fs_node f p = map_of (entries f) p"
  by (simp add: fs_node_def proper_def)

lemma rename_node:
  assumes "rename a b f = (Inr (), f')" and "\<not> below b a" and "proper a" and "proper b"
  shows "fs_node f' (b @ t) = fs_node f (a @ t)"
    and "\<not> below b q \<Longrightarrow> fs_node f' q = (if below a q then None else fs_node f q)"
    and "faulty f' = faulty f" and "real_path f' = real_path f"
proof -
  have f': "f' = f\<lparr>entries := map (\<lambda>(q, n). if below a q then (b @ drop (length a) q, n) else (q, n))
      (filter (\<lambda>(q, n). \<not> below b q) (entries f))\<rparr>" and a: "\<not> below a b"
    using assms(1) by (auto simp: rename_def split: if_splits)
  show "fs_node f' (b @ t) = fs_node f (a @ t)"
    using map_of_rename(1) [OF assms(2) a] assms(3,4) by (simp add: fs_node_proper f')
  show "fs_node f' q = (if below a q then None else fs_node f q)" if q: "\<not> below b q"
  proof (cases "proper q")
    case True
    then show ?thesis using map_of_rename(2,3) [OF assms(2) a q] by (simp add: fs_node_proper f')
  next
    case False
    then have "\<not> below a q" using assms(3) proper_append by (auto simp: below_iff)
    with False show ?thesis by (auto simp: fs_node_def proper_def)
  qed
  show "faulty f' = faulty f" "real_path f' = real_path f" by (simp_all add: f')
qed

lemma remove_dir_all_node:
  assumes "\<not> below p q"
  shows "fs_node (snd (remove_dir_all p f)) q = fs_node f q"
proof -
  have "map_of (filter (\<lambda>(q, n). \<not> below p q) xs) q = map_of xs q" for xs :: "(path \<times> node) list"
    using assms by (induction xs) auto
  then show ?thesis by (simp add: remove_dir_all_def fs_node_def)
qed

lemma remove_dir_all_frame [simp]:
  "faulty (snd (remove_dir_all p f)) = faulty f" "real_path (snd (remove_dir_all p f)) = real_path f"
  by (simp_all add: remove_dir_all_def)

lemma remove_file_node:
  "fs_node (snd (remove_file p f)) q = fs_node f q \<or> q = p" "faulty (snd (remove_file p f)) = faulty f"
proof -
  have "remove_file p f = (Inr (), snd (remove_file p f)) \<or> snd (remove_file p f) = f"
    by (auto simp: remove_file_def)
  then show "fs_node (snd (remove_file p f)) q = fs_node f q \<or> q = p"
    using fs_node_remove_file by metis
  show "faulty (snd (remove_file p f)) = faulty f" by (simp add: remove_file_def)
qed

end
