(* ===== verification/Exclusion.thy ===== *)
theory Exclusion
  imports Filesystem
begin

text \<open>
  The exclusion rules, \<open>SidecarConfig::is_excluded\<close> and the module \<open>glob_match\<close> of
  \<open>sidecar/src/config.rs\<close>.  The backtracking loop of \<open>single_match\<close> may run forever, so the
  matchers return an option: \<open>None\<close> is a call that does not return.
\<close>

text \<open>\<open>str::replace\<close>: non-overlapping occurrences from the left.\<close>

function replace :: "string \<Rightarrow> string \<Rightarrow> string \<Rightarrow> string" where
  "replace pat new s =
     (if s = [] \<or> pat = [] then s
      else if take (length pat) s = pat then new @ replace pat new (drop (length pat) s)
      else hd s # replace pat new (tl s))"
  by pat_completeness auto
termination by (relation "measure (\<lambda>(pat, new, s). length s)") auto

declare replace.simps [simp del]

definition double_star :: string where
  "double_star = ''___DOUBLESTAR___''"

section \<open>One segment\<close>

text \<open>The \<open>loop\<close>, with the state \<open>pi\<close>, \<open>ni\<close>, \<open>star_idx\<close>, \<open>match_idx\<close>; it returns \<open>pi\<close> and \<open>ni\<close>.\<close>

partial_function (option) match_loop ::
  "string \<Rightarrow> string \<Rightarrow> nat \<Rightarrow> nat \<Rightarrow> nat option \<Rightarrow> nat \<Rightarrow> (nat \<times> nat) option" where
  "match_loop p n pi ni star_idx match_idx =
     (if pi < length p \<and> p ! pi = CHR ''*'' then match_loop p n (pi + 1) ni (Some pi) ni
      else if ni < length n \<and> pi < length p \<and> p ! pi = n ! ni then
        match_loop p n (pi + 1) (ni + 1) star_idx match_idx
      else case star_idx of
        Some si \<Rightarrow> match_loop p n (si + 1) (match_idx + 1) star_idx (match_idx + 1)
      | None \<Rightarrow> Some (pi, ni))"

definition single_match :: "string \<Rightarrow> string \<Rightarrow> bool option" where
  "single_match pattern name =
     (if pattern = ''*'' then Some True
      else case match_loop pattern name 0 0 None 0 of
        None \<Rightarrow> None
      | Some (pi, ni) \<Rightarrow>
          let pi' = pi + length (takeWhile (\<lambda>c. c = CHR ''*'') (drop pi pattern))
          in Some (pi' = length pattern \<and> ni = length name))"

section \<open>Segments\<close>

text \<open>Trying alternatives in order: the first call that returns true wins, and one that does not
  return stops the search.\<close>

fun any_opt :: "('a \<Rightarrow> bool option) \<Rightarrow> 'a list \<Rightarrow> bool option" where
  "any_opt f [] = Some False"
| "any_opt f (x # xs) = (case f x of None \<Rightarrow> None | Some True \<Rightarrow> Some True | Some False \<Rightarrow> any_opt f xs)"

lemma any_opt_cong [fundef_cong]:
  "xs = ys \<Longrightarrow> (\<And>x. x \<in> set ys \<Longrightarrow> f x = g x) \<Longrightarrow> any_opt f xs = any_opt g ys"
  by (induction xs arbitrary: ys) (auto split: option.splits bool.splits)

text \<open>\<open>match_segments\<close> works on the rest of the pattern and the rest of the path.\<close>

fun match_segments :: "string list \<Rightarrow> string list \<Rightarrow> bool option" where
  "match_segments [] path = Some (path = [])"
| "match_segments (p # ps) path =
     (if p = double_star then
        if ps = [] then Some True
        else any_opt (\<lambda>next. match_segments ps (drop next path)) [0..<Suc (length path)]
      else case path of
        [] \<Rightarrow> Some False
      | s # ss \<Rightarrow> (case single_match p s of
                     None \<Rightarrow> None
                   | Some True \<Rightarrow> match_segments ps ss
                   | Some False \<Rightarrow> Some False))"

definition glob_match :: "string \<Rightarrow> string \<Rightarrow> bool option" where
  "glob_match pattern path =
     match_segments (split_on (CHR ''/'') (replace ''**'' double_star pattern))
       (split_on (CHR ''/'') (replace [CHR 0x5C] ''/'' path))"

definition is_excluded :: "string list \<Rightarrow> string \<Rightarrow> bool option" where
  "is_excluded hardcoded_ignores path = any_opt (\<lambda>pattern. glob_match pattern path) hardcoded_ignores"

definition default_exclusions :: "string list" where
  "default_exclusions = [''**/session.lock'', ''**/logs/**'', ''**/cache/**'', ''**/libraries/**'']"

section \<open>When a segment match returns\<close>

text \<open>Once a star has been seen the loop has no exit.\<close>

lemma match_loop_returns:
  assumes "match_loop p n pi ni st mi = Some y" shows "st = None"
proof (rule match_loop.raw_induct [where P = "\<lambda>p n pi ni st mi y. st = None", OF _ assms])
  fix loop and p n :: string and pi ni :: nat and st :: "nat option" and mi :: nat and y :: "nat \<times> nat"
  assume IH: "\<And>p n pi ni st mi y. loop p n pi ni st mi = Some y \<Longrightarrow> st = None"
    and step: "(if pi < length p \<and> p ! pi = CHR ''*'' then loop p n (pi + 1) ni (Some pi) ni
      else if ni < length n \<and> pi < length p \<and> p ! pi = n ! ni then loop p n (pi + 1) (ni + 1) st mi
      else case st of None \<Rightarrow> Some (pi, ni) | Some si \<Rightarrow> loop p n (si + 1) (mi + 1) st (mi + 1)) = Some y"
  show "st = None"
    using step IH [of p n "pi + 1" ni "Some pi" ni y] IH [of p n "pi + 1" "ni + 1" st mi y]
      IH [of p n "the st + 1" "mi + 1" st "mi + 1" y]
    by (cases st) (auto split: if_splits)
qed

lemma match_loop_star [simp]: "match_loop p n pi ni (Some si) mi = None"
proof (cases "match_loop p n pi ni (Some si) mi")
  case (Some y)
  then show ?thesis using match_loop_returns by blast
qed

text \<open>Without a star seen so far the loop compares the two strings.\<close>

lemma match_loop_compare:
  "match_loop p n pi ni None mi =
     (if pi < length p \<and> p ! pi = CHR ''*'' then None
      else if ni < length n \<and> pi < length p \<and> p ! pi = n ! ni then match_loop p n (pi + 1) (ni + 1) None mi
      else Some (pi, ni))"
  by (subst match_loop.simps) simp

definition before_star :: "string \<Rightarrow> string" where
  "before_star p = takeWhile (\<lambda>c. c \<noteq> CHR ''*'') p"

lemma match_loop_result:
  "match_loop (a @ p) (a @ n) (length a) (length a) None mi =
     (if CHR ''*'' \<in> set p \<and> take (length (before_star p)) n = before_star p then None
      else Some (length a + length (takeWhile (\<lambda>(x, y). x = y) (zip (before_star p) n)),
                 length a + length (takeWhile (\<lambda>(x, y). x = y) (zip (before_star p) n))))"
proof (induction p arbitrary: a n)
  case Nil
  show ?case by (subst match_loop_compare) (simp add: before_star_def)
next
  case (Cons c p)
  show ?case
  proof (cases "c = CHR ''*''")
    case True
    show ?thesis using True by (subst match_loop_compare) (simp add: before_star_def)
  next
    case False
    show ?thesis
    proof (cases n)
      case Nil
      with False show ?thesis by (subst match_loop_compare) (simp add: before_star_def nth_append)
    next
      case (Cons d m)
      show ?thesis
      proof (cases "c = d")
        case True
        have "match_loop (a @ c # p) (a @ n) (length a) (length a) None mi =
            match_loop ((a @ [c]) @ p) ((a @ [c]) @ m) (length (a @ [c])) (length (a @ [c])) None mi"
          using False True Cons by (subst match_loop_compare) (simp add: nth_append)
        with Cons.IH [of "a @ [c]" m] False True Cons show ?thesis by (simp add: before_star_def)
      next
        case ne: False
        with False Cons show ?thesis
          by (subst match_loop_compare) (simp add: nth_append before_star_def)
      qed
    qed
  qed
qed

lemma common_prefix_length:
  "length (takeWhile (\<lambda>(x, y). x = y) (zip p n)) = length p \<and>
   length (takeWhile (\<lambda>(x, y). x = y) (zip p n)) = length n \<longleftrightarrow> p = n"
proof (induction p arbitrary: n)
  case (Cons a p)
  then show ?case by (cases n) auto
qed auto

lemma common_prefix_all:
  "length (takeWhile (\<lambda>(x, y). x = y) (zip p n)) = length p \<longleftrightarrow> take (length p) n = p"
proof (induction p arbitrary: n)
  case (Cons a p)
  then show ?case by (cases n) auto
qed simp

lemma before_star_none: "CHR ''*'' \<notin> set p \<Longrightarrow> before_star p = p"
  by (auto simp: before_star_def takeWhile_eq_all_conv)

lemma single_match_value:
  "single_match p n = (if p = ''*'' then Some True
     else if CHR ''*'' \<notin> set p then Some (p = n)
     else if take (length (before_star p)) n = before_star p then None
     else Some False)"
proof -
  let ?k = "length (takeWhile (\<lambda>(x, y). x = y) (zip (before_star p) n))"
  have loop: "match_loop p n 0 0 None 0 =
      (if CHR ''*'' \<in> set p \<and> take (length (before_star p)) n = before_star p then None else Some (?k, ?k))"
    using match_loop_result [of "[]" p n 0] by simp
  have k: "?k \<le> length (before_star p)"
    by (metis length_takeWhile_le length_zip min.boundedE order.trans)
  show ?thesis
  proof (cases "CHR ''*'' \<in> set p")
    case False
    have "CHR ''*'' \<notin> set (drop ?k p)" using False by (meson in_set_dropD)
    then have "takeWhile (\<lambda>c. c = CHR ''*'') (drop ?k p) = []"
      by (cases "drop ?k p") auto
    then show ?thesis
      using False common_prefix_length [of p n] by (auto simp: single_match_def loop before_star_none Let_def)
  next
    case star: True
    show ?thesis
    proof (cases "take (length (before_star p)) n = before_star p")
      case True
      with star show ?thesis by (simp add: single_match_def loop)
    next
      case False
      then have lt: "?k < length (before_star p)" using k common_prefix_all [of "before_star p" n] by linarith
      then have "?k < length p" unfolding before_star_def by (metis length_takeWhile_le less_le_trans)
      moreover have "p ! ?k \<noteq> CHR ''*''"
        using nth_mem [OF lt] takeWhile_nth [OF lt [unfolded before_star_def]] set_takeWhileD
        by (metis (mono_tags, lifting) before_star_def lt nth_mem takeWhile_nth)
      ultimately have "takeWhile (\<lambda>c. c = CHR ''*'') (drop ?k p) = []"
        by (simp flip: Cons_nth_drop_Suc)
      with \<open>?k < length p\<close> star False show ?thesis
        by (auto simp: single_match_def loop Let_def)
    qed
  qed
qed

text \<open>C38: a segment pattern with a star, other than \<open>*\<close> itself, never matches.  If the name starts
  with the part of the pattern before the first star, the call does not return; otherwise it
  returns false.  A pattern without a star matches exactly the equal name.\<close>

theorem single_match_outcomes:
  "single_match p n = (if p = ''*'' then Some True
     else if CHR ''*'' \<notin> set p then Some (p = n)
     else if take (length (before_star p)) n = before_star p then None
     else Some False)"
  by (rule single_match_value)

section \<open>The default rules\<close>

lemma any_opt_total: "any_opt (\<lambda>x. Some (g x)) xs = Some (\<exists>x \<in> set xs. g x)"
  by (induction xs) (auto split: bool.splits)

lemma match_literal:
  "CHR ''*'' \<notin> set x \<Longrightarrow> x \<noteq> double_star \<Longrightarrow>
   match_segments (x # ps) path = (case path of [] \<Rightarrow> Some False
     | s # ss \<Rightarrow> if x = s then match_segments ps ss else Some False)"
  by (cases path) (auto simp: single_match_value)

lemma match_double_star:
  "match_segments [double_star] path = Some True"
  "ps \<noteq> [] \<Longrightarrow> match_segments (double_star # ps) path =
     any_opt (\<lambda>next. match_segments ps (drop next path)) [0..<Suc (length path)]"
  by simp_all

declare match_segments.simps(2) [simp del]

lemma match_any_file:
  assumes "CHR ''*'' \<notin> set x" "x \<noteq> double_star" "segs \<noteq> []"
  shows "match_segments [double_star, x] segs = Some (last segs = x)"
proof -
  have "match_segments [x] path = Some (path = [x])" for path
    using assms by (simp add: match_literal split: list.split)
  then have "match_segments [double_star, x] segs = Some (\<exists>n \<in> set [0..<Suc (length segs)]. drop n segs = [x])"
    by (simp add: match_double_star any_opt_total del: upt_Suc)
  moreover have "(\<exists>n \<in> set [0..<Suc (length segs)]. drop n segs = [x]) \<longleftrightarrow> last segs = x"
  proof
    assume "last segs = x"
    with assms(3) have "segs = butlast segs @ [x]" by (metis append_butlast_last_id)
    then have "drop (length (butlast segs)) segs = [x]" by (metis append_eq_conv_conj)
    then show "\<exists>n \<in> set [0..<Suc (length segs)]. drop n segs = [x]" by (intro bexI) auto
  next
    assume "\<exists>n \<in> set [0..<Suc (length segs)]. drop n segs = [x]"
    then obtain n where "drop n segs = [x]" by blast
    then show "last segs = x" by (metis last_drop last_ConsL drop_all leI list.distinct(1))
  qed
  ultimately show ?thesis by simp
qed

lemma match_any_directory:
  assumes "CHR ''*'' \<notin> set x" "x \<noteq> double_star"
  shows "match_segments [double_star, x, double_star] segs = Some (x \<in> set segs)"
proof -
  have "match_segments [x, double_star] path = Some (path \<noteq> [] \<and> hd path = x)" for path
    using assms by (auto simp: match_literal match_double_star split: list.split)
  then have "match_segments [double_star, x, double_star] segs =
      Some (\<exists>n \<in> set [0..<Suc (length segs)]. drop n segs \<noteq> [] \<and> hd (drop n segs) = x)"
    by (simp add: match_double_star any_opt_total del: upt_Suc)
  moreover have "(\<exists>n \<in> set [0..<Suc (length segs)]. drop n segs \<noteq> [] \<and> hd (drop n segs) = x) \<longleftrightarrow> x \<in> set segs"
  proof
    assume "x \<in> set segs"
    then obtain n where "n < length segs" "segs ! n = x" by (auto simp: in_set_conv_nth)
    then show "\<exists>n \<in> set [0..<Suc (length segs)]. drop n segs \<noteq> [] \<and> hd (drop n segs) = x"
      by (intro bexI [of _ n]) (auto simp: hd_drop_conv_nth)
  next
    assume "\<exists>n \<in> set [0..<Suc (length segs)]. drop n segs \<noteq> [] \<and> hd (drop n segs) = x"
    then show "x \<in> set segs" by (metis hd_in_set in_set_dropD)
  qed
  ultimately show ?thesis by simp
qed

lemma split_on_nonempty: "split_on c s \<noteq> []"
  by (induction s) (auto split: list.splits)

lemma default_patterns:
  "map (\<lambda>p. split_on (CHR ''/'') (replace ''**'' double_star p)) default_exclusions =
   [[double_star, ''session.lock''], [double_star, ''logs'', double_star],
    [double_star, ''cache'', double_star], [double_star, ''libraries'', double_star]]"
  by code_simp

text \<open>C40: the default exclusion rules.  With them the check always returns; it excludes exactly the
  files named \<open>session.lock\<close> and everything with a path segment \<open>logs\<close>, \<open>cache\<close> or
  \<open>libraries\<close>, a backslash counting as a separator.\<close>

theorem default_exclusions_spec:
  "is_excluded default_exclusions path =
     Some (let segs = split_on (CHR ''/'') (replace [CHR 0x5C] ''/'' path) in
       last segs = ''session.lock'' \<or> ''logs'' \<in> set segs \<or> ''cache'' \<in> set segs \<or> ''libraries'' \<in> set segs)"
proof -
  let ?segs = "split_on (CHR ''/'') (replace [CHR 0x5C] ''/'' path)"
  have ne: "''session.lock'' \<noteq> double_star" "''logs'' \<noteq> double_star" "''cache'' \<noteq> double_star" "''libraries'' \<noteq> double_star"
    by (simp_all add: double_star_def)
  have "is_excluded default_exclusions path =
      any_opt (\<lambda>pat. match_segments pat ?segs)
        (map (\<lambda>p. split_on (CHR ''/'') (replace ''**'' double_star p)) default_exclusions)"
    unfolding is_excluded_def glob_match_def default_exclusions_def list.map
    by (simp only: any_opt.simps)
  also have "\<dots> = Some (last ?segs = ''session.lock'' \<or> ''logs'' \<in> set ?segs \<or> ''cache'' \<in> set ?segs \<or> ''libraries'' \<in> set ?segs)"
    unfolding default_patterns using ne
    by (simp add: match_any_file match_any_directory split_on_nonempty split: bool.splits)
  finally show ?thesis by (simp add: Let_def)
qed

text \<open>The file's own example does not return: matching \<open>*.log\<close> against \<open>server.log\<close>.\<close>

theorem glob_match_log_diverges: "glob_match ''*.log'' ''server.log'' = None"
proof -
  have "split_on (CHR ''/'') (replace ''**'' double_star ''*.log'') = [''*.log'']"
    "split_on (CHR ''/'') (replace [CHR 0x5C] ''/'' ''server.log'') = [''server.log'']"
    by code_simp+
  then show ?thesis by (simp add: glob_match_def double_star_def single_match_value before_star_def match_segments.simps)
qed

end
