(* ===== verification/External.thy ===== *)
theory External
  imports Prelude
begin

text \<open>
  The crates behind the object store are parameters of the model, collected in the record
  \<open>libs\<close>: BLAKE3 and its hexadecimal form, CRC32C, and the Reed-Solomon crate; those behind
  the block index in \<open>index_libs\<close>: RocksDB over a database of type \<open>'db\<close>, and serde\_json.  What
  the code relies on is stated by the predicates \<open>hash_laws\<close>, \<open>rs_laws\<close>, \<open>rocks_laws\<close> and
  \<open>json_laws\<close>, which repeat the documentation of the crates; the theorems that need one name
  it as a hypothesis.
\<close>

record libs =
  blake3 :: "bytes \<Rightarrow> bytes"
  to_hex :: "bytes \<Rightarrow> string"
  crc32c_append :: "u32 \<Rightarrow> bytes \<Rightarrow> u32"
  rs_new :: "nat \<Rightarrow> nat \<Rightarrow> error + unit"
  rs_encode :: "bytes list \<Rightarrow> error + bytes list"
  rs_reconstruct :: "bytes option list \<Rightarrow> error + bytes option list"

text \<open>\<open>blake3::hash\<close> always gives 32 bytes, and its hexadecimal form has 64 characters.\<close>

definition hash_laws :: "libs \<Rightarrow> bool" where
  "hash_laws X = ((\<forall>d. length (blake3 X d) = 32) \<and> (\<forall>b. length b = 32 \<longrightarrow> length (to_hex X b) = 64))"

text \<open>Shards the codec accepts: the right number of them, all of the same positive length.\<close>

definition shards_ok :: "nat \<Rightarrow> nat \<Rightarrow> bytes list \<Rightarrow> bool" where
  "shards_ok k n shards = (length shards = k \<and> 0 < n \<and> list_all (\<lambda>s. length s = n) shards)"

definition missing :: "'a option list \<Rightarrow> nat" where
  "missing xs = length (filter (\<lambda>x. x = None) xs)"

text \<open>A list of optional shards that holds the shards of \<open>code\<close> wherever it holds one.\<close>

definition erased_from :: "'a list \<Rightarrow> 'a option list \<Rightarrow> bool" where
  "erased_from code opts = list_all2 (\<lambda>c x. x = None \<or> x = Some c) code opts"

text \<open>The documented behaviour of \<open>ReedSolomon\<close> with 8 data and 2 parity shards: the codec can be
  built, encoding keeps the data shards and fills in the parity shards, and reconstruction gives
  back a codeword of which at most two shards are missing.\<close>

definition rs_laws :: "libs \<Rightarrow> bool" where
  "rs_laws X =
     (rs_new X 8 2 = Inr () \<and>
      (\<forall>shards n. shards_ok 10 n shards \<longrightarrow>
         (\<exists>par. shards_ok 2 n par \<and> rs_encode X shards = Inr (take 8 shards @ par))) \<and>
      (\<forall>shards n code opts. shards_ok 10 n shards \<and> rs_encode X shards = Inr code \<and>
         erased_from code opts \<and> missing opts \<le> 2 \<longrightarrow> rs_reconstruct X opts = Inr (map Some code)))"

lemma rs_newD: "rs_laws X \<Longrightarrow> rs_new X 8 2 = Inr ()"
  by (simp add: rs_laws_def)

lemma rs_encodeD:
  "rs_laws X \<Longrightarrow> shards_ok 10 n shards \<Longrightarrow>
     \<exists>par. shards_ok 2 n par \<and> rs_encode X shards = Inr (take 8 shards @ par)"
  by (simp add: rs_laws_def)

lemma rs_reconstructD:
  "rs_laws X \<Longrightarrow> shards_ok 10 n shards \<Longrightarrow> rs_encode X shards = Inr code \<Longrightarrow>
     erased_from code opts \<Longrightarrow> missing opts \<le> 2 \<Longrightarrow> rs_reconstruct X opts = Inr (map Some code)"
  by (simp add: rs_laws_def)

lemma erased_from_append:
  "length a = length x \<Longrightarrow> erased_from (a @ b) (x @ y) \<longleftrightarrow> erased_from a x \<and> erased_from b y"
  by (simp add: erased_from_def list_all2_append)

lemma missing_append [simp]: "missing (x @ y) = missing x + missing y"
  by (simp add: missing_def)

lemma missing_simps [simp]:
  "missing [] = 0" "missing (None # xs) = Suc (missing xs)" "missing (Some a # xs) = missing xs"
  by (simp_all add: missing_def)

lemma missing_map_Some [simp]: "missing (map Some xs) = 0"
  by (simp add: missing_def)

lemma missing_0: "missing xs = 0 \<longleftrightarrow> (\<exists>ys. xs = map Some ys)"
proof (induction xs)
  case (Cons x xs)
  then show ?case by (cases x) (auto simp: Cons_eq_map_conv)
qed simp

lemma erased_from_full: "erased_from code (map Some ys) \<longleftrightarrow> ys = code"
proof -
  have "erased_from code (map Some ys) = list_all2 (=) code ys"
    by (simp add: erased_from_def list_all2_map2 eq_commute)
  then show ?thesis by (auto simp: list.rel_eq)
qed

lemma erased_from_length: "erased_from code opts \<Longrightarrow> length opts = length code"
  by (simp add: erased_from_def list_all2_lengthD)

section \<open>JSON values and the database\<close>

text \<open>A \<open>serde_json::Value\<close>; an object lists its members in the order of their keys, and a number
  that is not an unsigned 64-bit integer appears as its text.\<close>

datatype json = JNull | JBool bool | JNum u64 | JFloat string | JStr string | JArr "json list"
  | JObj "(string \<times> json) list"

definition jget :: "json \<Rightarrow> string \<Rightarrow> json option" where
  "jget j k = (case j of JObj kvs \<Rightarrow> map_of kvs k | _ \<Rightarrow> None)"

definition as_u64 :: "json \<Rightarrow> u64 option" where
  "as_u64 j = (case j of JNum n \<Rightarrow> Some n | _ \<Rightarrow> None)"

definition as_str :: "json \<Rightarrow> string option" where
  "as_str j = (case j of JStr s \<Rightarrow> Some s | _ \<Rightarrow> None)"

definition as_bool :: "json \<Rightarrow> bool option" where
  "as_bool j = (case j of JBool b \<Rightarrow> Some b | _ \<Rightarrow> None)"

text \<open>\<open>Vec<String>\<close> as JSON and back.\<close>

definition json_strings :: "string list \<Rightarrow> json" where
  "json_strings xs = JArr (map JStr xs)"

fun strings_of :: "json list \<Rightarrow> error + string list" where
  "strings_of [] = Inr []"
| "strings_of (JStr s # js) = bindE (strings_of js) (\<lambda>ss. Inr (s # ss))"
| "strings_of (j # js) = Inl JsonError"

lemma strings_of_JStr [simp]: "strings_of (map JStr xs) = Inr xs"
  by (induction xs) simp_all

record 'db index_libs =
  has_cf :: "'db \<Rightarrow> string \<Rightarrow> bool"
  get_cf :: "'db \<Rightarrow> string \<Rightarrow> bytes \<Rightarrow> error + bytes option"
  put_cf :: "string \<Rightarrow> bytes \<Rightarrow> bytes \<Rightarrow> ('db, unit) step"
  delete_cf :: "string \<Rightarrow> bytes \<Rightarrow> ('db, unit) step"
  iter_cf :: "'db \<Rightarrow> string \<Rightarrow> (error + bytes \<times> bytes) list"
  db_flush_wal :: "('db, unit) step"
  json_print :: "json \<Rightarrow> error + string"
  json_pretty :: "json \<Rightarrow> error + string"
  json_parse :: "bytes \<Rightarrow> error + json"

text \<open>The contents of a database: a map per column family.\<close>

definition view :: "'db index_libs \<Rightarrow> 'db \<Rightarrow> string \<Rightarrow> bytes \<rightharpoonup> bytes" where
  "view L db cf k = (case get_cf L db cf k of Inr x \<Rightarrow> x | Inl e \<Rightarrow> None)"

text \<open>A healthy RocksDB: reads do not fail, a put or delete changes the one key, flushing changes
  nothing, column families stay, and an iterator lists each key of the family once.\<close>

definition rocks_laws :: "'db index_libs \<Rightarrow> bool" where
  "rocks_laws L =
     ((\<forall>db cf k. get_cf L db cf k = Inr (view L db cf k)) \<and>
      (\<forall>db cf k v. \<exists>db'. put_cf L cf k v db = (Inr (), db') \<and> has_cf L db' = has_cf L db \<and>
         view L db' = (view L db)(cf := (view L db cf)(k \<mapsto> v))) \<and>
      (\<forall>db cf k. \<exists>db'. delete_cf L cf k db = (Inr (), db') \<and> has_cf L db' = has_cf L db \<and>
         view L db' = (view L db)(cf := (view L db cf)(k := None))) \<and>
      (\<forall>db. \<exists>db'. db_flush_wal L db = (Inr (), db') \<and> has_cf L db' = has_cf L db \<and> view L db' = view L db) \<and>
      (\<forall>db cf. \<exists>kvs. iter_cf L db cf = map Inr kvs \<and> distinct (map fst kvs) \<and> map_of kvs = view L db cf))"

lemma rocks_get: "rocks_laws L \<Longrightarrow> get_cf L db cf k = Inr (view L db cf k)"
  by (simp add: rocks_laws_def)

lemma rocks_put:
  "rocks_laws L \<Longrightarrow> \<exists>db'. put_cf L cf k v db = (Inr (), db') \<and> has_cf L db' = has_cf L db \<and>
     view L db' = (view L db)(cf := (view L db cf)(k \<mapsto> v))"
  by (simp add: rocks_laws_def)

lemma rocks_delete:
  "rocks_laws L \<Longrightarrow> \<exists>db'. delete_cf L cf k db = (Inr (), db') \<and> has_cf L db' = has_cf L db \<and>
     view L db' = (view L db)(cf := (view L db cf)(k := None))"
  by (simp add: rocks_laws_def)

lemma rocks_flush:
  "rocks_laws L \<Longrightarrow> \<exists>db'. db_flush_wal L db = (Inr (), db') \<and> has_cf L db' = has_cf L db \<and> view L db' = view L db"
  by (simp add: rocks_laws_def)

lemma rocks_iter:
  "rocks_laws L \<Longrightarrow> \<exists>kvs. iter_cf L db cf = map Inr kvs \<and> distinct (map fst kvs) \<and> map_of kvs = view L db cf"
  by (simp add: rocks_laws_def)

text \<open>Keys of an object in ascending order, as the map behind a \<open>Value\<close> keeps them.\<close>

fun str_less :: "string \<Rightarrow> string \<Rightarrow> bool" where
  "str_less s [] = False"
| "str_less [] (y # ys) = True"
| "str_less (x # xs) (y # ys) =
     (of_char x < (of_char y :: nat) \<or> (x = y \<and> str_less xs ys))"

fun json_wf :: "json \<Rightarrow> bool" where
  "json_wf (JArr js) = list_all json_wf js"
| "json_wf (JObj kvs) = (sorted_wrt str_less (map fst kvs) \<and> list_all (json_wf \<circ> snd) kvs)"
| "json_wf j = True"

text \<open>Printing a value succeeds, and parsing the text gives the value back; the text is UTF-8.\<close>

definition json_laws :: "'db index_libs \<Rightarrow> bool" where
  "json_laws L = (\<forall>j. json_wf j \<longrightarrow>
     (\<exists>s. json_print L j = Inr s \<and> json_parse L (bytes_of s) = Inr j) \<and>
     (\<exists>s. json_pretty L j = Inr s \<and> utf8_valid (bytes_of s) \<and> json_parse L (bytes_of s) = Inr j))"

lemma json_roundtrip:
  "json_laws L \<Longrightarrow> json_wf j \<Longrightarrow> \<exists>s. json_print L j = Inr s \<and> json_parse L (bytes_of s) = Inr j"
  by (simp add: json_laws_def)

lemma pretty_roundtrip:
  "json_laws L \<Longrightarrow> json_wf j \<Longrightarrow>
   \<exists>s. json_pretty L j = Inr s \<and> utf8_valid (bytes_of s) \<and> json_parse L (bytes_of s) = Inr j"
  by (simp add: json_laws_def)

lemma json_wf_strings [simp]: "json_wf (json_strings xs)"
  by (simp add: json_strings_def list_all_iff)

end
