(* ===== verification/Sample_Db.thy ===== *)
theory Sample_Db
  imports External
begin

text \<open>
  A concrete database and JSON codec that meet the laws of \<open>External\<close>, for the witnesses.  The
  codec writes a value in postfix form, the strings in it as letters for their half bytes, and
  reads it back with a stack, so that both directions compute.
\<close>

section \<open>A JSON codec\<close>

definition half :: "nat \<Rightarrow> char" where
  "half n = char_of (65 + n)"

definition halves :: "string \<Rightarrow> string" where
  "halves s = concat (map (\<lambda>c. [half (of_char c div 16), half (of_char c mod 16)]) s)"

fun unhalves :: "string \<Rightarrow> string" where
  "unhalves (a # b # s) = char_of ((of_char a - 65) * 16 + (of_char b - 65 :: nat)) # unhalves s"
| "unhalves s = []"

lemma half_value: "n < 16 \<Longrightarrow> of_char (half n) = 65 + n"
  by (simp add: half_def)

lemma char_halves: "(of_char c :: nat) div 16 < 16" "(of_char c :: nat) mod 16 < 16"
proof -
  have "(of_char c :: nat) < 256" by simp
  then show "(of_char c :: nat) div 16 < 16" by linarith
  show "(of_char c :: nat) mod 16 < 16" by simp
qed

lemma unhalves_halves: "unhalves (halves s) = s"
proof (induction s)
  case (Cons c s)
  have "unhalves (halves (c # s)) = char_of (of_char c div 16 * 16 + of_char c mod 16 :: nat) # s"
    using Cons char_halves [of c] by (simp add: halves_def half_value)
  then show ?case by simp
qed (simp add: halves_def)

fun postfix :: "json \<Rightarrow> string" where
  "postfix JNull = ''n''"
| "postfix (JBool b) = (if b then ''t'' else ''f'')"
| "postfix (JNum n) = halves (string_of (u64_to_le n)) @ ''d''"
| "postfix (JFloat s) = halves s @ ''e''"
| "postfix (JStr s) = halves s @ ''s''"
| "postfix (JArr js) = ''a'' @ concat (map postfix js) @ ''b''"
| "postfix (JObj kvs) = ''a'' @ concat (map (\<lambda>(k, v). halves k @ ''k'' @ postfix v) kvs) @ ''o''"

datatype item = Mark | Key string | Val json

fun pop_vals :: "item list \<Rightarrow> json list \<Rightarrow> json list \<times> item list" where
  "pop_vals (Val j # st) js = pop_vals st (j # js)"
| "pop_vals st js = (js, tl st)"

fun pop_pairs :: "item list \<Rightarrow> (string \<times> json) list \<Rightarrow> (string \<times> json) list \<times> item list" where
  "pop_pairs (Val j # Key k # st) kvs = pop_pairs st ((k, j) # kvs)"
| "pop_pairs st kvs = (kvs, tl st)"

text \<open>The reader: the letters of the string being read, and the stack.\<close>

fun unpost :: "string \<Rightarrow> string \<Rightarrow> item list \<Rightarrow> item list" where
  "unpost [] w st = st"
| "unpost (c # s) w st =
     (if c = CHR ''n'' then unpost s [] (Val JNull # st)
      else if c = CHR ''t'' then unpost s [] (Val (JBool True) # st)
      else if c = CHR ''f'' then unpost s [] (Val (JBool False) # st)
      else if c = CHR ''d'' then unpost s [] (Val (JNum (u64_from_le (bytes_of (unhalves w)))) # st)
      else if c = CHR ''e'' then unpost s [] (Val (JFloat (unhalves w)) # st)
      else if c = CHR ''s'' then unpost s [] (Val (JStr (unhalves w)) # st)
      else if c = CHR ''k'' then unpost s [] (Key (unhalves w) # st)
      else if c = CHR ''a'' then unpost s [] (Mark # st)
      else if c = CHR ''b'' then (let (js, st') = pop_vals st [] in unpost s [] (Val (JArr js) # st'))
      else if c = CHR ''o'' then (let (kvs, st') = pop_pairs st [] in unpost s [] (Val (JObj kvs) # st'))
      else unpost s (w @ [c]) st)"

definition sample_parse :: "bytes \<Rightarrow> error + json" where
  "sample_parse b = (case unpost (string_of b) [] [] of [Val j] \<Rightarrow> Inr j | _ \<Rightarrow> Inl JsonError)"

lemma bytes_of_string_of: "bytes_of (string_of b) = b"
proof (induction b)
  case (Cons x b)
  have "unat x < 256" using unsigned_less [of x] by simp
  then show ?case using Cons by (simp add: bytes_of_def string_of_def)
qed (simp add: bytes_of_def string_of_def)

lemma unpost_halves: "unpost (halves s @ r) w st = unpost r (w @ halves s) st"
proof (induction s arbitrary: w)
  case (Cons c s)
  have step: "unpost (half n # s') w st = unpost s' (w @ [half n]) st" if "n < 16" for n s' w
  proof -
    have "(of_char (half n) :: nat) \<le> 80" using that by (simp add: half_value)
    then have "half n \<notin> set ''ntfdeskabo''" by auto
    then show ?thesis by simp
  qed
  have "halves (c # s) @ r = half (of_char c div 16) # half (of_char c mod 16) # halves s @ r"
    by (simp add: halves_def)
  then show ?case using Cons by (simp only: step [OF char_halves(1)] step [OF char_halves(2)]) (simp add: halves_def)
qed (simp add: halves_def)

lemma pop_vals_all: "pop_vals (map Val (rev js) @ Mark # st) acc = (js @ acc, st)"
  by (induction js arbitrary: acc rule: rev_induct) simp_all

lemma pop_pairs_all: "pop_pairs (concat (map (\<lambda>(k, v). [Val v, Key k]) (rev kvs)) @ Mark # st) acc = (kvs @ acc, st)"
  by (induction kvs arbitrary: acc rule: rev_induct) auto

lemma unpost_postfix: "unpost (postfix j @ r) [] st = unpost r [] (Val j # st)"
proof (induction j arbitrary: r st)
  case (JNum n)
  show ?case by (simp add: unpost_halves unhalves_halves codec_simps bytes_of_string_of)
next
  case (JArr js)
  have "unpost (concat (map postfix js) @ r) [] st = unpost r [] (map Val (rev js) @ st)" for r st
    using JArr by (induction js arbitrary: st) simp_all
  then show ?case by (simp add: pop_vals_all)
next
  case (JObj kvs)
  have "unpost (concat (map (\<lambda>(k, v). halves k @ ''k'' @ postfix v) kvs) @ r) [] st =
      unpost r [] (concat (map (\<lambda>(k, v). [Val v, Key k]) (rev kvs)) @ st)" for r st
    using JObj
  proof (induction kvs arbitrary: st)
    case (Cons kv kvs)
    obtain k v where kv: "kv = (k, v)" by fastforce
    have "unpost (postfix v @ r) [] st = unpost r [] (Val v # st)" for r st
      using Cons.prems [of kv v r st] by (simp add: kv)
    with Cons show ?case by (fastforce simp: kv unpost_halves unhalves_halves)
  qed simp
  then show ?case by (simp add: pop_pairs_all)
qed (simp_all add: unpost_halves unhalves_halves)

lemma sample_parse_postfix: "sample_parse (bytes_of (postfix j)) = Inr j"
  using unpost_postfix [of j "[]" "[]"] by (simp add: sample_parse_def codec_simps)

definition ascii :: "string \<Rightarrow> bool" where
  "ascii s = list_all (\<lambda>c. (of_char c :: nat) < 128) s"

lemma ascii_append [simp]: "ascii (s @ t) \<longleftrightarrow> ascii s \<and> ascii t"
  by (simp add: ascii_def)

lemma ascii_Cons [simp]: "ascii [] " "ascii (c # s) \<longleftrightarrow> (of_char c :: nat) < 128 \<and> ascii s"
  by (simp_all add: ascii_def)

lemma ascii_halves: "ascii (halves s)"
proof (induction s)
  case (Cons c s)
  then show ?case using char_halves [of c] by (simp add: ascii_def halves_def half_value)
qed (simp add: ascii_def halves_def)

lemma ascii_concat: "(\<And>s. s \<in> set ss \<Longrightarrow> ascii s) \<Longrightarrow> ascii (concat ss)"
  by (induction ss) (auto simp: ascii_def)

lemma ascii_postfix: "ascii (postfix j)"
proof (induction j)
  case (JArr js)
  then show ?case by (auto intro!: ascii_concat)
next
  case (JObj kvs)
  have "ascii (concat (map (\<lambda>(k, v). halves k @ ''k'' @ postfix v) kvs))"
    by (rule ascii_concat) (use JObj in \<open>auto simp: ascii_halves split: prod.splits\<close>)
  then show ?case by simp
qed (simp_all add: ascii_halves)

lemma utf8_postfix: "utf8_valid (bytes_of (postfix j))"
proof (rule utf8_valid_ascii)
  have "(of_nat n :: u8) < 128" if "n < 128" for n
    using that by (simp add: word_less_nat_alt unat_of_nat)
  then show "list_all (\<lambda>b. b < 128) (bytes_of (postfix j))"
    using ascii_postfix [of j] by (auto simp: ascii_def bytes_of_def list_all_iff)
qed

section \<open>A concrete database for the witnesses\<close>

type_synonym sample_db = "string \<Rightarrow> (bytes \<times> bytes) list"

definition sample_index_libs :: "sample_db index_libs" where
  "sample_index_libs = \<lparr>has_cf = (\<lambda>db cf. True), get_cf = (\<lambda>db cf k. Inr (map_of (db cf) k)),
     put_cf = (\<lambda>cf k v db. (Inr (), db(cf := put k v (db cf)))),
     delete_cf = (\<lambda>cf k db. (Inr (), db(cf := del k (db cf)))),
     iter_cf = (\<lambda>db cf. map (\<lambda>(k, n). Inr (k, the (map_of (db cf) k)))
                   (map (\<lambda>k. (k, ())) (remdups (map fst (db cf))))),
     db_flush_wal = (\<lambda>db. (Inr (), db)),
     json_print = (\<lambda>j. Inr (postfix j)), json_pretty = (\<lambda>j. Inr (postfix j)), json_parse = sample_parse\<rparr>"

definition empty_db :: sample_db where
  "empty_db cf = []"

lemma view_sample [simp]: "view sample_index_libs db cf k = map_of (db cf) k"
  by (simp add: view_def sample_index_libs_def)

lemma has_cf_sample [simp]: "has_cf sample_index_libs db cf"
  by (simp add: sample_index_libs_def)

lemma sample_rocks_laws: "rocks_laws sample_index_libs"
proof -
  have "\<exists>kvs. iter_cf sample_index_libs db cf = map Inr kvs \<and> distinct (map fst kvs) \<and>
          map_of kvs = view sample_index_libs db cf" for db cf
  proof (intro exI conjI)
    let ?kvs = "map (\<lambda>k. (k, the (map_of (db cf) k))) (remdups (map fst (db cf)))"
    show "iter_cf sample_index_libs db cf = map Inr ?kvs" by (simp add: sample_index_libs_def comp_def)
    show "distinct (map fst ?kvs)" by (simp add: comp_def)
    show "map_of ?kvs = view sample_index_libs db cf"
    proof
      fix k
      show "map_of ?kvs k = view sample_index_libs db cf k"
      proof (cases "map_of (db cf) k")
        case None
        then have "k \<notin> fst ` set ?kvs" by (simp add: map_of_eq_None_iff image_image)
        then have "map_of ?kvs k = None" by (simp only: map_of_eq_None_iff not_False_eq_True)
        with None show ?thesis by simp
      next
        case (Some v)
        then have "k \<in> fst ` set (db cf)" by (metis domI dom_map_of_conv_image_fst)
        then have "(k, v) \<in> set ?kvs" using Some by (simp add: image_iff)
        then have "map_of ?kvs k = Some v" by (intro map_of_is_SomeI) (simp_all add: comp_def)
        with Some show ?thesis by simp
      qed
    qed
  qed
  then show ?thesis
    unfolding rocks_laws_def by (auto simp: fun_eq_iff) (simp_all add: sample_index_libs_def)
qed

lemma sample_json_laws: "json_laws sample_index_libs"
  by (simp add: json_laws_def sample_index_libs_def utf8_postfix sample_parse_postfix)

end
