(* ===== verification/Config.thy ===== *)
theory Config
  imports Exclusion Sample_Db
begin

text \<open>
  The configuration, \<open>sidecar/src/config.rs\<close>: its structures, their defaults, and the reading of
  the YAML file.  A field of a structure carries the structure's initials where its name occurs
  twice.  A floating-point setting is the text of its number.

  The YAML crate is a parameter: the record \<open>yaml_libs\<close> holds the parser and the primitive
  decoders that the code generated for \<open>Deserialize\<close> calls; the treatment of fields that are
  absent, unknown or repeated is that of the attributes in the source.
\<close>

type_synonym f64 = string

record RemoteSyncConfig =
  sync_enabled :: bool
  listen_addr :: "string option"
  peer_addr :: "string option"
  sync_token :: string
  dial_timeout_secs :: u64

record BackupWindow =
  window :: string
  bandwidth_limit :: string
  cpu_worker_limit :: u32
  io_iops_max :: u32

record SchedulerConfig =
  restore_prioritized :: bool
  suspend_gc_on_restore :: bool
  backup_windows :: "BackupWindow list"

record SnapshotSigningConfig =
  sign_enabled :: bool
  private_key_secure_path :: "string option"

record ImmutableLocksConfig =
  weekly_retention_locked :: bool

record SecurityConfig =
  dual_admin_confirmation :: bool
  shared_token :: "string option"
  snapshot_signing :: SnapshotSigningConfig
  immutable_locks :: ImmutableLocksConfig

record SandboxConfig =
  temp_dir :: string
  sandbox_swap :: bool                 \<comment> \<open>\<open>atomic_swap\<close>\<close>
  verify_before_swap :: bool
  resume_checkpoint :: bool

record AdaptiveThresholds =
  tps_critical :: f64
  tps_danger :: f64
  host_memory_cap_mb :: u64

record AdaptiveSchedulerConfig =
  adaptive_enabled :: bool
  metrics_polling_interval_ms :: u64
  thresholds :: AdaptiveThresholds

record ErasureCodingConfig =
  erasure_on :: bool                   \<comment> \<open>\<open>enabled\<close>\<close>

record PackfileConfig =
  adaptive_sizing :: bool
  pack_limit_mb :: u64                 \<comment> \<open>\<open>max_packfile_size_mb\<close>\<close>
  enable_crc32c_footer :: bool

record RocksDbReliability =
  checkpoint_interval_minutes :: u64
  auto_rebuild_from_pack :: bool

record StorageConfig =
  packfile :: PackfileConfig
  rocksdb_reliability :: RocksDbReliability
  erasure_coding :: ErasureCodingConfig
  concurrency :: u64

record ExclusionRules =
  hardcoded_ignores :: "string list"

record SidecarConfig =
  profile :: string
  scheduler :: SchedulerConfig
  security :: SecurityConfig
  sandbox_restore :: SandboxConfig
  adaptive_scheduler :: AdaptiveSchedulerConfig
  storage :: StorageConfig
  exclusion_rules :: ExclusionRules
  remote_sync :: RemoteSyncConfig

section \<open>Defaults\<close>

definition default_concurrency :: u64 where "default_concurrency = 4"
definition default_dial_timeout :: u64 where "default_dial_timeout = 30"
definition default_sandbox_temp_dir :: string where "default_sandbox_temp_dir = ''./.obsidian/sandbox''"
definition default_polling_interval :: u64 where "default_polling_interval = 1000"
definition default_tps_critical :: f64 where "default_tps_critical = ''15.5''"
definition default_tps_danger :: f64 where "default_tps_danger = ''16.5''"
definition default_memory_cap :: u64 where "default_memory_cap = 2048"
definition default_max_packfile_size :: u64 where "default_max_packfile_size = 512"
definition default_checkpoint_interval :: u64 where "default_checkpoint_interval = 60"

definition RemoteSyncConfig_default :: RemoteSyncConfig where
  "RemoteSyncConfig_default = \<lparr>sync_enabled = False, listen_addr = None, peer_addr = None,
     sync_token = ''change-me'', dial_timeout_secs = default_dial_timeout\<rparr>"

definition SchedulerConfig_default :: SchedulerConfig where
  "SchedulerConfig_default = \<lparr>restore_prioritized = True, suspend_gc_on_restore = True,
     backup_windows =
       [\<lparr>window = ''02:00-06:00'', bandwidth_limit = ''unlimited'', cpu_worker_limit = 8, io_iops_max = 5000\<rparr>,
        \<lparr>window = ''06:01-01:59'', bandwidth_limit = ''20MB/s'', cpu_worker_limit = 2, io_iops_max = 800\<rparr>]\<rparr>"

definition SecurityConfig_default :: SecurityConfig where
  "SecurityConfig_default = \<lparr>dual_admin_confirmation = True, shared_token = None,
     snapshot_signing = \<lparr>sign_enabled = True, private_key_secure_path = None\<rparr>,
     immutable_locks = \<lparr>weekly_retention_locked = True\<rparr>\<rparr>"

definition SandboxConfig_default :: SandboxConfig where
  "SandboxConfig_default = \<lparr>temp_dir = default_sandbox_temp_dir, sandbox_swap = True,
     verify_before_swap = True, resume_checkpoint = True\<rparr>"

definition AdaptiveThresholds_default :: AdaptiveThresholds where
  "AdaptiveThresholds_default = \<lparr>tps_critical = default_tps_critical, tps_danger = default_tps_danger,
     host_memory_cap_mb = default_memory_cap\<rparr>"

definition AdaptiveSchedulerConfig_default :: AdaptiveSchedulerConfig where
  "AdaptiveSchedulerConfig_default = \<lparr>adaptive_enabled = True,
     metrics_polling_interval_ms = default_polling_interval,
     thresholds = \<lparr>tps_critical = default_tps_critical, tps_danger = default_tps_danger,
       host_memory_cap_mb = default_memory_cap\<rparr>\<rparr>"

definition ErasureCodingConfig_default :: ErasureCodingConfig where
  "ErasureCodingConfig_default = \<lparr>erasure_on = True\<rparr>"

definition PackfileConfig_default :: PackfileConfig where
  "PackfileConfig_default = \<lparr>adaptive_sizing = True, pack_limit_mb = default_max_packfile_size,
     enable_crc32c_footer = True\<rparr>"

definition RocksDbReliability_default :: RocksDbReliability where
  "RocksDbReliability_default = \<lparr>checkpoint_interval_minutes = default_checkpoint_interval,
     auto_rebuild_from_pack = True\<rparr>"

definition StorageConfig_default :: StorageConfig where
  "StorageConfig_default = \<lparr>packfile = PackfileConfig_default, rocksdb_reliability = RocksDbReliability_default,
     erasure_coding = ErasureCodingConfig_default, concurrency = default_concurrency\<rparr>"

definition ExclusionRules_default :: ExclusionRules where
  "ExclusionRules_default = \<lparr>hardcoded_ignores = default_exclusions\<rparr>"

definition SidecarConfig_default :: SidecarConfig where
  "SidecarConfig_default = \<lparr>profile = ''production'', scheduler = SchedulerConfig_default,
     security = SecurityConfig_default, sandbox_restore = SandboxConfig_default,
     adaptive_scheduler = AdaptiveSchedulerConfig_default, storage = StorageConfig_default,
     exclusion_rules = ExclusionRules_default, remote_sync = RemoteSyncConfig_default\<rparr>"

text \<open>The derived \<open>Default\<close> of the two structures that have no implementation of their own.\<close>

definition SnapshotSigningConfig_default :: SnapshotSigningConfig where
  "SnapshotSigningConfig_default = \<lparr>sign_enabled = False, private_key_secure_path = None\<rparr>"

definition ImmutableLocksConfig_default :: ImmutableLocksConfig where
  "ImmutableLocksConfig_default = \<lparr>weekly_retention_locked = False\<rparr>"

section \<open>The settings the engine reads\<close>

definition signing_enabled :: "SidecarConfig \<Rightarrow> bool" where
  "signing_enabled cfg = sign_enabled (snapshot_signing (security cfg))"

definition cfg_key_path :: "SidecarConfig \<Rightarrow> string option" where
  "cfg_key_path cfg = private_key_secure_path (snapshot_signing (security cfg))"

definition cfg_ignores :: "SidecarConfig \<Rightarrow> string list" where
  "cfg_ignores cfg = hardcoded_ignores (exclusion_rules cfg)"

definition cfg_atomic_swap :: "SidecarConfig \<Rightarrow> bool" where
  "cfg_atomic_swap cfg = sandbox_swap (sandbox_restore cfg)"

section \<open>Decoding\<close>

record 'y yaml_libs =
  yaml_parse :: "string \<Rightarrow> error + 'y"
  yaml_mapping :: "'y \<Rightarrow> error + (string \<times> 'y) list"
  yaml_seq :: "'y \<Rightarrow> error + 'y list"
  yaml_option :: "'y \<Rightarrow> 'y option"
  yaml_bool :: "'y \<Rightarrow> error + bool"
  yaml_string :: "'y \<Rightarrow> error + string"
  yaml_u32 :: "'y \<Rightarrow> error + u32"
  yaml_u64 :: "'y \<Rightarrow> error + u64"
  yaml_f64 :: "'y \<Rightarrow> error + f64"

text \<open>A field that may be absent; one that occurs twice is an error.\<close>

definition field :: "(string \<times> 'y) list \<Rightarrow> string \<Rightarrow> ('y \<Rightarrow> error + 'a) \<Rightarrow> 'a \<Rightarrow> error + 'a" where
  "field kvs k dec dflt = (case filter (\<lambda>(k', v). k' = k) kvs of
     [] \<Rightarrow> Inr dflt | [(k', v)] \<Rightarrow> dec v | _ \<Rightarrow> Inl YamlError)"

definition required :: "(string \<times> 'y) list \<Rightarrow> string \<Rightarrow> ('y \<Rightarrow> error + 'a) \<Rightarrow> error + 'a" where
  "required kvs k dec = (case filter (\<lambda>(k', v). k' = k) kvs of [(k', v)] \<Rightarrow> dec v | _ \<Rightarrow> Inl YamlError)"

definition de_option :: "'y yaml_libs \<Rightarrow> ('y \<Rightarrow> error + 'a) \<Rightarrow> 'y \<Rightarrow> error + 'a option" where
  "de_option Y dec v = (case yaml_option Y v of None \<Rightarrow> Inr None | Some w \<Rightarrow> bindE (dec w) (\<lambda>x. Inr (Some x)))"

fun de_list :: "('y \<Rightarrow> error + 'a) \<Rightarrow> 'y list \<Rightarrow> error + 'a list" where
  "de_list dec [] = Inr []"
| "de_list dec (v # vs) = bindE (dec v) (\<lambda>x. bindE (de_list dec vs) (\<lambda>xs. Inr (x # xs)))"

definition de_seq :: "'y yaml_libs \<Rightarrow> ('y \<Rightarrow> error + 'a) \<Rightarrow> 'y \<Rightarrow> error + 'a list" where
  "de_seq Y dec v = bindE (yaml_seq Y v) (de_list dec)"

definition de_RemoteSyncConfig :: "'y yaml_libs \<Rightarrow> 'y \<Rightarrow> error + RemoteSyncConfig" where
  "de_RemoteSyncConfig Y v =
     bindE (yaml_mapping Y v) (\<lambda>m.
     bindE (field m ''enabled'' (yaml_bool Y) False) (\<lambda>en.
     bindE (field m ''listen_addr'' (de_option Y (yaml_string Y)) None) (\<lambda>la.
     bindE (field m ''peer_addr'' (de_option Y (yaml_string Y)) None) (\<lambda>pa.
     bindE (field m ''token'' (yaml_string Y) []) (\<lambda>tk.
     bindE (field m ''dial_timeout_secs'' (yaml_u64 Y) default_dial_timeout) (\<lambda>dt.
     Inr \<lparr>sync_enabled = en, listen_addr = la, peer_addr = pa, sync_token = tk, dial_timeout_secs = dt\<rparr>))))))"

definition de_BackupWindow :: "'y yaml_libs \<Rightarrow> 'y \<Rightarrow> error + BackupWindow" where
  "de_BackupWindow Y v =
     bindE (yaml_mapping Y v) (\<lambda>m.
     bindE (required m ''window'' (yaml_string Y)) (\<lambda>w.
     bindE (field m ''bandwidth_limit'' (yaml_string Y) []) (\<lambda>b.
     bindE (field m ''cpu_worker_limit'' (yaml_u32 Y) 0) (\<lambda>c.
     bindE (field m ''io_iops_max'' (yaml_u32 Y) 0) (\<lambda>i.
     Inr \<lparr>window = w, bandwidth_limit = b, cpu_worker_limit = c, io_iops_max = i\<rparr>)))))"

definition de_SchedulerConfig :: "'y yaml_libs \<Rightarrow> 'y \<Rightarrow> error + SchedulerConfig" where
  "de_SchedulerConfig Y v =
     bindE (yaml_mapping Y v) (\<lambda>m.
     bindE (field m ''restore_prioritized'' (yaml_bool Y) True) (\<lambda>r.
     bindE (field m ''suspend_gc_on_restore'' (yaml_bool Y) True) (\<lambda>s.
     bindE (field m ''backup_windows'' (de_seq Y (de_BackupWindow Y)) []) (\<lambda>ws.
     Inr \<lparr>restore_prioritized = r, suspend_gc_on_restore = s, backup_windows = ws\<rparr>))))"

definition de_SnapshotSigningConfig :: "'y yaml_libs \<Rightarrow> 'y \<Rightarrow> error + SnapshotSigningConfig" where
  "de_SnapshotSigningConfig Y v =
     bindE (yaml_mapping Y v) (\<lambda>m.
     bindE (field m ''enabled'' (yaml_bool Y) False) (\<lambda>en.
     bindE (field m ''private_key_secure_path'' (de_option Y (yaml_string Y)) None) (\<lambda>p.
     Inr \<lparr>sign_enabled = en, private_key_secure_path = p\<rparr>)))"

definition de_ImmutableLocksConfig :: "'y yaml_libs \<Rightarrow> 'y \<Rightarrow> error + ImmutableLocksConfig" where
  "de_ImmutableLocksConfig Y v =
     bindE (yaml_mapping Y v) (\<lambda>m.
     bindE (field m ''weekly_retention_locked'' (yaml_bool Y) False) (\<lambda>w.
     Inr \<lparr>weekly_retention_locked = w\<rparr>))"

definition de_SecurityConfig :: "'y yaml_libs \<Rightarrow> 'y \<Rightarrow> error + SecurityConfig" where
  "de_SecurityConfig Y v =
     bindE (yaml_mapping Y v) (\<lambda>m.
     bindE (field m ''dual_admin_confirmation'' (yaml_bool Y) False) (\<lambda>d.
     bindE (field m ''shared_token'' (de_option Y (yaml_string Y)) None) (\<lambda>t.
     bindE (field m ''snapshot_signing'' (de_SnapshotSigningConfig Y) SnapshotSigningConfig_default) (\<lambda>s.
     bindE (field m ''immutable_locks'' (de_ImmutableLocksConfig Y) ImmutableLocksConfig_default) (\<lambda>l.
     Inr \<lparr>dual_admin_confirmation = d, shared_token = t, snapshot_signing = s, immutable_locks = l\<rparr>)))))"

definition de_SandboxConfig :: "'y yaml_libs \<Rightarrow> 'y \<Rightarrow> error + SandboxConfig" where
  "de_SandboxConfig Y v =
     bindE (yaml_mapping Y v) (\<lambda>m.
     bindE (field m ''temp_dir'' (yaml_string Y) default_sandbox_temp_dir) (\<lambda>t.
     bindE (field m ''atomic_swap'' (yaml_bool Y) True) (\<lambda>a.
     bindE (field m ''verify_before_swap'' (yaml_bool Y) True) (\<lambda>b.
     bindE (field m ''resume_checkpoint'' (yaml_bool Y) True) (\<lambda>r.
     Inr \<lparr>temp_dir = t, sandbox_swap = a, verify_before_swap = b, resume_checkpoint = r\<rparr>)))))"

definition de_AdaptiveThresholds :: "'y yaml_libs \<Rightarrow> 'y \<Rightarrow> error + AdaptiveThresholds" where
  "de_AdaptiveThresholds Y v =
     bindE (yaml_mapping Y v) (\<lambda>m.
     bindE (field m ''tps_critical'' (yaml_f64 Y) default_tps_critical) (\<lambda>c.
     bindE (field m ''tps_danger'' (yaml_f64 Y) default_tps_danger) (\<lambda>d.
     bindE (field m ''host_memory_cap_mb'' (yaml_u64 Y) default_memory_cap) (\<lambda>h.
     Inr \<lparr>tps_critical = c, tps_danger = d, host_memory_cap_mb = h\<rparr>))))"

definition de_AdaptiveSchedulerConfig :: "'y yaml_libs \<Rightarrow> 'y \<Rightarrow> error + AdaptiveSchedulerConfig" where
  "de_AdaptiveSchedulerConfig Y v =
     bindE (yaml_mapping Y v) (\<lambda>m.
     bindE (field m ''enabled'' (yaml_bool Y) True) (\<lambda>en.
     bindE (field m ''metrics_polling_interval_ms'' (yaml_u64 Y) default_polling_interval) (\<lambda>p.
     bindE (field m ''thresholds'' (de_AdaptiveThresholds Y) AdaptiveThresholds_default) (\<lambda>t.
     Inr \<lparr>adaptive_enabled = en, metrics_polling_interval_ms = p, thresholds = t\<rparr>))))"

definition de_ErasureCodingConfig :: "'y yaml_libs \<Rightarrow> 'y \<Rightarrow> error + ErasureCodingConfig" where
  "de_ErasureCodingConfig Y v =
     bindE (yaml_mapping Y v) (\<lambda>m.
     bindE (field m ''enabled'' (yaml_bool Y) True) (\<lambda>en. Inr \<lparr>erasure_on = en\<rparr>))"

definition de_PackfileConfig :: "'y yaml_libs \<Rightarrow> 'y \<Rightarrow> error + PackfileConfig" where
  "de_PackfileConfig Y v =
     bindE (yaml_mapping Y v) (\<lambda>m.
     bindE (field m ''adaptive_sizing'' (yaml_bool Y) True) (\<lambda>a.
     bindE (field m ''max_packfile_size_mb'' (yaml_u64 Y) default_max_packfile_size) (\<lambda>n.
     bindE (field m ''enable_crc32c_footer'' (yaml_bool Y) True) (\<lambda>c.
     Inr \<lparr>adaptive_sizing = a, pack_limit_mb = n, enable_crc32c_footer = c\<rparr>))))"

definition de_RocksDbReliability :: "'y yaml_libs \<Rightarrow> 'y \<Rightarrow> error + RocksDbReliability" where
  "de_RocksDbReliability Y v =
     bindE (yaml_mapping Y v) (\<lambda>m.
     bindE (field m ''checkpoint_interval_minutes'' (yaml_u64 Y) default_checkpoint_interval) (\<lambda>c.
     bindE (field m ''auto_rebuild_from_pack'' (yaml_bool Y) True) (\<lambda>a.
     Inr \<lparr>checkpoint_interval_minutes = c, auto_rebuild_from_pack = a\<rparr>)))"

definition de_StorageConfig :: "'y yaml_libs \<Rightarrow> 'y \<Rightarrow> error + StorageConfig" where
  "de_StorageConfig Y v =
     bindE (yaml_mapping Y v) (\<lambda>m.
     bindE (field m ''packfile'' (de_PackfileConfig Y) PackfileConfig_default) (\<lambda>p.
     bindE (field m ''rocksdb_reliability'' (de_RocksDbReliability Y) RocksDbReliability_default) (\<lambda>r.
     bindE (field m ''erasure_coding'' (de_ErasureCodingConfig Y) ErasureCodingConfig_default) (\<lambda>x.
     bindE (field m ''concurrency'' (yaml_u64 Y) default_concurrency) (\<lambda>c.
     Inr \<lparr>packfile = p, rocksdb_reliability = r, erasure_coding = x, concurrency = c\<rparr>)))))"

definition de_ExclusionRules :: "'y yaml_libs \<Rightarrow> 'y \<Rightarrow> error + ExclusionRules" where
  "de_ExclusionRules Y v =
     bindE (yaml_mapping Y v) (\<lambda>m.
     bindE (field m ''hardcoded_ignores'' (de_seq Y (yaml_string Y)) default_exclusions) (\<lambda>i.
     Inr \<lparr>hardcoded_ignores = i\<rparr>))"

definition de_SidecarConfig :: "'y yaml_libs \<Rightarrow> 'y \<Rightarrow> error + SidecarConfig" where
  "de_SidecarConfig Y v =
     bindE (yaml_mapping Y v) (\<lambda>m.
     bindE (field m ''profile'' (yaml_string Y) []) (\<lambda>p.
     bindE (field m ''scheduler'' (de_SchedulerConfig Y) SchedulerConfig_default) (\<lambda>sc.
     bindE (field m ''security'' (de_SecurityConfig Y) SecurityConfig_default) (\<lambda>se.
     bindE (field m ''sandbox_restore'' (de_SandboxConfig Y) SandboxConfig_default) (\<lambda>sb.
     bindE (field m ''adaptive_scheduler'' (de_AdaptiveSchedulerConfig Y) AdaptiveSchedulerConfig_default) (\<lambda>ad.
     bindE (field m ''storage'' (de_StorageConfig Y) StorageConfig_default) (\<lambda>st.
     bindE (field m ''exclusion_rules'' (de_ExclusionRules Y) ExclusionRules_default) (\<lambda>ex.
     bindE (field m ''remote_sync'' (de_RemoteSyncConfig Y) RemoteSyncConfig_default) (\<lambda>rs.
     Inr \<lparr>profile = p, scheduler = sc, security = se, sandbox_restore = sb, adaptive_scheduler = ad,
          storage = st, exclusion_rules = ex, remote_sync = rs\<rparr>)))))))))"

definition SidecarConfig_load :: "'y yaml_libs \<Rightarrow> fs \<Rightarrow> path \<Rightarrow> error + SidecarConfig" where
  "SidecarConfig_load Y f p =
     (if fs_exists f p then
        bindE (fs_read_to_string f p) (\<lambda>contents. bindE (yaml_parse Y contents) (de_SidecarConfig Y))
      else Inr SidecarConfig_default)"

section \<open>Defaults of a file and of its sections\<close>

lemma field_absent [simp]: "k \<notin> fst ` set kvs \<Longrightarrow> field kvs k dec d = Inr d"
proof -
  assume "k \<notin> fst ` set kvs"
  then have "filter (\<lambda>(k', v). k' = k) kvs = []" by (force simp: filter_empty_conv)
  then show ?thesis by (simp add: field_def)
qed

lemma field_present: "filter (\<lambda>(k', v). k' = k) kvs = [(k, v)] \<Longrightarrow> field kvs k dec d = dec v"
  by (simp add: field_def)

lemma load_file:
  "fs_exists f p \<Longrightarrow> fs_read_to_string f p = Inr s \<Longrightarrow> yaml_parse Y s = Inr y \<Longrightarrow>
   SidecarConfig_load Y f p = de_SidecarConfig Y y"
  by (simp add: SidecarConfig_load_def)

lemma de_SidecarConfig_security:
  assumes "de_SidecarConfig Y y = Inr cfg" and "yaml_mapping Y y = Inr m"
  shows "field m ''security'' (de_SecurityConfig Y) SecurityConfig_default = Inr (security cfg)"
    and "field m ''remote_sync'' (de_RemoteSyncConfig Y) RemoteSyncConfig_default = Inr (remote_sync cfg)"
  using assms by (auto simp: de_SidecarConfig_def bindE_Inr_iff)

text \<open>What a configuration that says nothing means.  A missing file gives the defaults, and so
  does a file with an empty mapping, except that its profile is the empty string and not
  ``production''.\<close>

theorem load_defaults:
  "(\<not> fs_exists f p \<longrightarrow> SidecarConfig_load Y f p = Inr SidecarConfig_default) \<and>
   (fs_exists f p \<and> fs_read_to_string f p = Inr s \<and> yaml_parse Y s = Inr y \<and> yaml_mapping Y y = Inr [] \<longrightarrow>
      SidecarConfig_load Y f p = Inr (SidecarConfig_default\<lparr>profile := []\<rparr>))"
  by (simp add: SidecarConfig_load_def de_SidecarConfig_def SidecarConfig_default_def)


text \<open>A YAML crate for the witnesses, with JSON values.\<close>

definition sample_yaml :: "json yaml_libs" where
  "sample_yaml = \<lparr>yaml_parse = (\<lambda>s. sample_parse (bytes_of s)),
     yaml_mapping = (\<lambda>j. case j of JObj kvs \<Rightarrow> Inr kvs | _ \<Rightarrow> Inl YamlError),
     yaml_seq = (\<lambda>j. case j of JArr js \<Rightarrow> Inr js | _ \<Rightarrow> Inl YamlError),
     yaml_option = (\<lambda>j. if j = JNull then None else Some j),
     yaml_bool = (\<lambda>j. case j of JBool b \<Rightarrow> Inr b | _ \<Rightarrow> Inl YamlError),
     yaml_string = (\<lambda>j. case j of JStr s \<Rightarrow> Inr s | _ \<Rightarrow> Inl YamlError),
     yaml_u32 = (\<lambda>j. case j of JNum n \<Rightarrow> Inr (ucast n) | _ \<Rightarrow> Inl YamlError),
     yaml_u64 = (\<lambda>j. case j of JNum n \<Rightarrow> Inr n | _ \<Rightarrow> Inl YamlError),
     yaml_f64 = (\<lambda>j. case j of JFloat s \<Rightarrow> Inr s | _ \<Rightarrow> Inl YamlError)\<rparr>"

definition config_file :: "json \<Rightarrow> fs" where
  "config_file j = \<lparr>entries = [([''c''], File (bytes_of (postfix j)))], faulty = [], real_path = id\<rparr>"

lemma config_file_read:
  "fs_exists (config_file j) [''c'']" "fs_read_to_string (config_file j) [''c''] = Inr (postfix j)"
  "yaml_parse sample_yaml (postfix j) = Inr j"
  by (simp_all add: config_file_def fs_exists_def fs_node_def fs_read_to_string_def fs_read_def utf8_postfix
      codec_simps sample_yaml_def sample_parse_postfix)

theorem load_defaults_witness:
  "SidecarConfig_load sample_yaml (config_file (JObj [])) [''none''] = Inr SidecarConfig_default \<and>
   SidecarConfig_load sample_yaml (config_file (JObj [])) [''c''] = Inr (SidecarConfig_default\<lparr>profile := []\<rparr>)"
proof -
  have "\<not> fs_exists (config_file (JObj [])) [''none'']" by (simp add: config_file_def fs_exists_def fs_node_def)
  moreover have "yaml_mapping sample_yaml (JObj []) = Inr []" by (simp add: sample_yaml_def)
  ultimately show ?thesis
    using load_defaults [of "config_file (JObj [])" "[''none'']" sample_yaml]
      load_defaults [of "config_file (JObj [])" "[''c'']" sample_yaml "postfix (JObj [])" "JObj []"]
      config_file_read [of "JObj []"] by blast
qed


end
