(* ===== verification/Scanner.thy ===== *)
theory Scanner
  imports Exclusion External "HOL-Library.Multiset"
begin

text \<open>
  The file scanner, \<open>sidecar/src/backup/scanner.rs\<close>: which files of the server directory a
  backup covers.  The modification times of the file system and chrono's parser are parameters;
  \<open>walkdir\<close> visits the files below a directory, leaving out what lies in a directory that cannot
  be read.  File names are taken to be valid UTF-8.  A result \<open>None\<close> is a scan that does not
  return, because an exclusion rule does not.
\<close>

record file_entry =
  fe_path :: path
  fe_size :: u64
  fe_modified :: u64

text \<open>A path as a string, \<open>to_string_lossy\<close>.\<close>

fun intercalate :: "string \<Rightarrow> string list \<Rightarrow> string" where
  "intercalate sep [] = []"
| "intercalate sep [s] = s"
| "intercalate sep (s # t # ss) = s @ sep @ intercalate sep (t # ss)"

definition show_path :: "path \<Rightarrow> string" where
  "show_path p = (if is_absolute p then ''/'' @ intercalate ''/'' (tl p) else intercalate ''/'' p)"

text \<open>\<open>path.strip_prefix(base).unwrap_or(path)\<close>.\<close>

definition strip_prefix_or :: "path \<Rightarrow> path \<Rightarrow> path" where
  "strip_prefix_or base p = (if path_starts_with p base then drop (length base) p else p)"

definition substring :: "string \<Rightarrow> string \<Rightarrow> bool" where
  "substring pat s = list_ex (\<lambda>i. take (length pat) (drop i s) = pat) [0..<Suc (length s)]"

definition candidates :: "string list" where
  "candidates = [''world'', ''world_nether'', ''world_the_end'']"

definition is_world :: "fs \<Rightarrow> path \<Rightarrow> bool" where
  "is_world f p = (is_dir f p \<and> fs_exists f (p @ [''level.dat'']))"

definition find_world_directories :: "path \<Rightarrow> fs \<Rightarrow> path list" where
  "find_world_directories root f =
     filter (is_world f) (map (\<lambda>n. join root [n]) candidates) @
     (case read_dir f root of
        Inl e \<Rightarrow> []
      | Inr names \<Rightarrow> filter (is_world f) (map (\<lambda>n. root @ [n])
          (filter (\<lambda>n. substring ''world'' n \<and> n \<notin> set candidates) names)))"

definition walk :: "fs \<Rightarrow> path \<Rightarrow> (path \<times> bytes) list" where
  "walk f dir = List.map_filter (\<lambda>(q, n). case n of
       File b \<Rightarrow> if below dir q \<and> list_all (\<lambda>k. take k q \<notin> set (faulty f)) [length dir..<length q]
                  then Some (q, b) else None
     | Dir \<Rightarrow> None) (entries f)"

text \<open>\<open>modified <= since\<close> in seconds; a time stamp that does not parse skips nothing.\<close>

definition unchanged :: "(string \<Rightarrow> int option) \<Rightarrow> string option \<Rightarrow> u64 \<Rightarrow> bool" where
  "unchanged rfc3339 since modified =
     (case since of None \<Rightarrow> False | Some t \<Rightarrow>
       (case rfc3339 t of None \<Rightarrow> False | Some ts \<Rightarrow> modified \<le> of_int ts))"

fun scan_files ::
  "(string \<Rightarrow> int option) \<Rightarrow> (path \<Rightarrow> u64) \<Rightarrow> string list \<Rightarrow> path \<Rightarrow> string option \<Rightarrow> fs \<Rightarrow> (path \<times> bytes) list
     \<Rightarrow> file_entry list option" where
  "scan_files rfc3339 mtime ignores root since f [] = Some []"
| "scan_files rfc3339 mtime ignores root since f ((p, b) # ps) =
     (case is_excluded ignores (replace [CHR 0x5C] ''/'' (show_path (strip_prefix_or root p))) of
        None \<Rightarrow> None
      | Some skip \<Rightarrow>
          (case scan_files rfc3339 mtime ignores root since f ps of
             None \<Rightarrow> None
           | Some rest \<Rightarrow>
               Some (if skip \<or> p \<in> set (faulty f) \<or> unchanged rfc3339 since (mtime p) then rest
                     else \<lparr>fe_path = p, fe_size = of_nat (length b), fe_modified = mtime p\<rparr> # rest)))"

definition scan_directory ::
  "(string \<Rightarrow> int option) \<Rightarrow> (path \<Rightarrow> u64) \<Rightarrow> string list \<Rightarrow> path \<Rightarrow> string option \<Rightarrow> fs \<Rightarrow> path
     \<Rightarrow> file_entry list option" where
  "scan_directory rfc3339 mtime ignores root since f dir =
     (if is_dir f dir then scan_files rfc3339 mtime ignores root since f (walk f dir) else Some [])"

text \<open>\<open>sort_by(|a, b| a.path.cmp(&b.path))\<close>: paths compare component by component.\<close>

fun path_le :: "path \<Rightarrow> path \<Rightarrow> bool" where
  "path_le [] q = True"
| "path_le (p # ps) [] = False"
| "path_le (p # ps) (q # qs) = (str_less p q \<or> (p = q \<and> path_le ps qs))"

fun insert_by_path :: "file_entry \<Rightarrow> file_entry list \<Rightarrow> file_entry list" where
  "insert_by_path x [] = [x]"
| "insert_by_path x (y # ys) = (if path_le (fe_path x) (fe_path y) then x # y # ys else y # insert_by_path x ys)"

definition sort_by_path :: "file_entry list \<Rightarrow> file_entry list" where
  "sort_by_path xs = foldr insert_by_path xs []"

fun scan_dirs ::
  "(string \<Rightarrow> int option) \<Rightarrow> (path \<Rightarrow> u64) \<Rightarrow> string list \<Rightarrow> path \<Rightarrow> string option \<Rightarrow> fs \<Rightarrow> path list
     \<Rightarrow> file_entry list option" where
  "scan_dirs rfc3339 mtime ignores root since f [] = Some []"
| "scan_dirs rfc3339 mtime ignores root since f (d # ds) =
     (case scan_directory rfc3339 mtime ignores root since f d of
        None \<Rightarrow> None
      | Some fs \<Rightarrow> map_option (\<lambda>rest. fs @ rest) (scan_dirs rfc3339 mtime ignores root since f ds))"

definition scan_world_directory ::
  "(string \<Rightarrow> int option) \<Rightarrow> (path \<Rightarrow> u64) \<Rightarrow> string list \<Rightarrow> path \<Rightarrow> string option \<Rightarrow> fs \<Rightarrow> file_entry list option" where
  "scan_world_directory rfc3339 mtime ignores root since f =
     map_option sort_by_path (scan_dirs rfc3339 mtime ignores root since f (find_world_directories root f))"

section \<open>What a scan finds\<close>

lemma path_le_linear: "path_le p q \<or> path_le q p"
proof (induction p q rule: path_le.induct)
  case (3 p ps q qs)
  have "str_less p q \<or> p = q \<or> str_less q p"
  proof (induction p q rule: str_less.induct)
    case (3 x xs y ys)
    have "of_char x = (of_char y :: nat) \<longleftrightarrow> x = y" by simp
    with 3 show ?case by (auto simp: less_le) 
  next
    case (1 s)
    then show ?case by (cases s) auto
  qed auto
  with 3 show ?case by auto
qed auto

lemma str_less_trans: "str_less a b \<Longrightarrow> str_less b c \<Longrightarrow> str_less a c"
proof (induction a b arbitrary: c rule: str_less.induct)
  case (3 x xs y ys)
  then show ?case by (cases c) auto
next
  case (2 y ys)
  then show ?case by (cases c) auto
qed auto

lemma path_le_trans: "path_le p q \<Longrightarrow> path_le q r \<Longrightarrow> path_le p r"
proof (induction p q arbitrary: r rule: path_le.induct)
  case (3 p ps q qs)
  then show ?case by (cases r) (auto intro: str_less_trans)
qed auto

definition by_path :: "file_entry list \<Rightarrow> bool" where
  "by_path xs = sorted_wrt (\<lambda>x y. path_le (fe_path x) (fe_path y)) xs"

lemma insert_by_path_mset: "mset (insert_by_path x xs) = add_mset x (mset xs)"
  by (induction xs) auto

lemma insert_by_path_sorted: "by_path xs \<Longrightarrow> by_path (insert_by_path x xs)"
proof (induction xs)
  case (Cons y ys)
  have "set (insert_by_path x ys) = insert x (set ys)"
    using arg_cong [OF insert_by_path_mset [of x ys], of set_mset] by simp
  with Cons path_le_linear [of "fe_path x" "fe_path y"] show ?case
    by (auto simp: by_path_def intro: path_le_trans)
qed (simp add: by_path_def)

lemma sort_by_path_props: "mset (sort_by_path xs) = mset xs" "by_path (sort_by_path xs)"
  by (induction xs) (simp_all add: sort_by_path_def insert_by_path_mset insert_by_path_sorted, simp add: by_path_def)

text \<open>The files a scan reports: not excluded, readable metadata, modified after the time stamp.\<close>

definition reported ::
  "(string \<Rightarrow> int option) \<Rightarrow> (path \<Rightarrow> u64) \<Rightarrow> string list \<Rightarrow> path \<Rightarrow> string option \<Rightarrow> fs \<Rightarrow> path \<Rightarrow> bool" where
  "reported rfc3339 mtime ignores root since f p =
     (is_excluded ignores (replace [CHR 0x5C] ''/'' (show_path (strip_prefix_or root p))) = Some False \<and>
      p \<notin> set (faulty f) \<and> \<not> unchanged rfc3339 since (mtime p))"

lemma scan_files_set:
  "scan_files rfc3339 mtime ignores root since f ps = Some out \<Longrightarrow>
   e \<in> set out \<longleftrightarrow> (\<exists>p b. (p, b) \<in> set ps \<and> reported rfc3339 mtime ignores root since f p \<and>
     e = \<lparr>fe_path = p, fe_size = of_nat (length b), fe_modified = mtime p\<rparr>)"
proof (induction rfc3339 mtime ignores root since f ps arbitrary: out rule: scan_files.induct)
  case (2 rfc3339 mtime ignores root since f p b ps)
  then obtain skip rest where
    s: "is_excluded ignores (replace [CHR 0x5C] ''/'' (show_path (strip_prefix_or root p))) = Some skip"
    and r: "scan_files rfc3339 mtime ignores root since f ps = Some rest"
    by (auto split: option.splits)
  from "2.IH" [OF s r] "2.prems" s r show ?case
    by (auto simp: reported_def split: if_splits)
qed simp

lemma set_map_filter: "y \<in> set (List.map_filter g xs) \<longleftrightarrow> (\<exists>x \<in> set xs. g x = Some y)"
  by (induction xs) (auto simp: List.map_filter_simps split: option.splits)

lemma walk_set:
  "(q, b) \<in> set (walk f dir) \<longleftrightarrow> (q, File b) \<in> set (entries f) \<and> below dir q \<and>
     list_all (\<lambda>k. take k q \<notin> set (faulty f)) [length dir..<length q]"
  by (auto simp: walk_def set_map_filter split: node.splits if_splits) force

lemma scan_dirs_set:
  "scan_dirs rfc3339 mtime ignores root since f ds = Some out \<Longrightarrow>
   e \<in> set out \<longleftrightarrow> (\<exists>d \<in> set ds. is_dir f d \<and> (\<exists>p b. (p, b) \<in> set (walk f d) \<and>
     reported rfc3339 mtime ignores root since f p \<and>
     e = \<lparr>fe_path = p, fe_size = of_nat (length b), fe_modified = mtime p\<rparr>))"
proof (induction rfc3339 mtime ignores root since f ds arbitrary: out rule: scan_dirs.induct)
  case (2 rfc3339 mtime ignores root since f d ds)
  then obtain a rest where a: "scan_directory rfc3339 mtime ignores root since f d = Some a"
    and r: "scan_dirs rfc3339 mtime ignores root since f ds = Some rest" and out: "out = a @ rest"
    by (auto split: option.splits)
  show ?case
  proof (cases "is_dir f d")
    case True
    then have "scan_files rfc3339 mtime ignores root since f (walk f d) = Some a"
      using a by (simp add: scan_directory_def)
    from scan_files_set [OF this, of e] "2.IH" [OF a r] True show ?thesis by (simp add: out)
  next
    case False
    with a "2.IH" [OF a r] show ?thesis by (simp add: out scan_directory_def)
  qed
qed simp


definition server_fs :: fs where
  "server_fs = \<lparr>entries = [([''r''], Dir), ([''r'', ''world''], Dir), ([''r'', ''world'', ''level.dat''], File [1, 2, 3]), ([''r'', ''world'', ''a.mca''], File [4])],
     faulty = [], real_path = id\<rparr>"

lemma server_scan:
  "scan_world_directory (\<lambda>t. None) (\<lambda>p. 7) [] [''r''] None server_fs =
     Some [\<lparr>fe_path = [''r'', ''world'', ''a.mca''], fe_size = 1, fe_modified = 7\<rparr>,
           \<lparr>fe_path = [''r'', ''world'', ''level.dat''], fe_size = 3, fe_modified = 7\<rparr>]"
  by code_simp


end
