(* ===== verification/Sample_Codec.thy ===== *)
theory Sample_Codec
  imports Sample_Db
begin

text \<open>
  A concrete codec that satisfies \<open>rs_laws\<close>, for the witnesses of the theorems that assume
  them: over GF(2^8) with the polynomial 0x11d, parity shards \<open>P = d0 + .. + d7\<close> and
  \<open>Q = d0 + 2 d1 + .. + 2^7 d7\<close> (the RAID-6 code), and a decoder that searches the missing bytes
  of each column.  It is not the code of the reed-solomon-erasure crate, which uses another
  generator matrix; the development relies on neither.
\<close>

unbundle bit_operations_syntax

section \<open>Arithmetic of the field\<close>

definition xtime :: "u8 \<Rightarrow> u8" where
  "xtime x = push_bit 1 x XOR (if bit x 7 then 29 else 0)"

definition sum_p :: "bytes \<Rightarrow> u8" where
  "sum_p ds = foldr (\<lambda>d a. d XOR a) ds 0"

definition sum_q :: "bytes \<Rightarrow> u8" where
  "sum_q ds = foldr (\<lambda>d a. d XOR xtime a) ds 0"

lemma sums_simps [simp]:
  "sum_p [] = 0" "sum_p (d # ds) = d XOR sum_p ds" "sum_q [] = 0" "sum_q (d # ds) = d XOR xtime (sum_q ds)"
  by (simp_all add: sum_p_def sum_q_def)

lemma xtime_xor: "xtime (x XOR y) = xtime x XOR xtime y"
  unfolding xtime_def by (rule bit_word_eqI) (auto simp: bit_simps)

lemma xtime_zero [simp]: "xtime 0 = 0"
  by (simp add: xtime_def)

lemma bit_xtime:
  "bit (xtime x) 0 = bit x 7" "bit (xtime x) 1 = bit x 0" "bit (xtime x) 2 = (bit x 1 \<noteq> bit x 7)"
  "bit (xtime x) 3 = (bit x 2 \<noteq> bit x 7)" "bit (xtime x) 4 = (bit x 3 \<noteq> bit x 7)"
  "bit (xtime x) 5 = bit x 4" "bit (xtime x) 6 = bit x 5" "bit (xtime x) 7 = bit x 6"
  by (cases "bit x 7"; simp add: xtime_def bit_xor_iff bit_push_bit_iff del: push_bit_of_1 push_bit_Suc)+

lemma u8_eq_bits:
  "(x :: u8) = y \<longleftrightarrow> (bit x 0 = bit y 0 \<and> bit x 1 = bit y 1 \<and> bit x 2 = bit y 2 \<and> bit x 3 = bit y 3 \<and>
     bit x 4 = bit y 4 \<and> bit x 5 = bit y 5 \<and> bit x 6 = bit y 6 \<and> bit x 7 = bit y 7)" (is "_ \<longleftrightarrow> ?bits")
proof
  assume ?bits
  show "x = y"
  proof (rule bit_word_eqI)
    fix n assume "n < LENGTH(8)"
    then have "n = 0 \<or> n = 1 \<or> n = 2 \<or> n = 3 \<or> n = 4 \<or> n = 5 \<or> n = 6 \<or> n = 7" by simp presburger
    with \<open>?bits\<close> show "bit x n = bit y n" by (elim disjE) simp_all
  qed
qed simp

lemma xtime_0D: "xtime x = 0 \<Longrightarrow> x = 0"
  unfolding u8_eq_bits bit_xtime by simp

lemma xtime_cycles:
  "xtime x = x \<Longrightarrow> x = 0"
  "xtime (xtime x) = x \<Longrightarrow> x = 0"
  "xtime (xtime (xtime x)) = x \<Longrightarrow> x = 0"
  "xtime (xtime (xtime (xtime x))) = x \<Longrightarrow> x = 0"
  "xtime (xtime (xtime (xtime (xtime x)))) = x \<Longrightarrow> x = 0"
  "xtime (xtime (xtime (xtime (xtime (xtime x))))) = x \<Longrightarrow> x = 0"
  "xtime (xtime (xtime (xtime (xtime (xtime (xtime x)))))) = x \<Longrightarrow> x = 0"
  unfolding u8_eq_bits bit_xtime by (simp, argo)+

lemma xtime_power_fixed:
  assumes fixed: "(xtime ^^ k) x = x" and "0 < k" and "k < 8"
  shows "x = 0"
proof -
  have "k \<in> {Suc 0, Suc (Suc 0), Suc (Suc (Suc 0)), Suc (Suc (Suc (Suc 0))), Suc (Suc (Suc (Suc (Suc 0)))),
      Suc (Suc (Suc (Suc (Suc (Suc 0))))), Suc (Suc (Suc (Suc (Suc (Suc (Suc 0))))))}"
    using assms(2,3) by auto
  then show ?thesis using fixed by (auto dest: xtime_cycles)
qed

section \<open>Two parity bytes correct two erasures\<close>

definition nonzero :: "bytes \<Rightarrow> nat" where
  "nonzero ds = length (filter (\<lambda>d. d \<noteq> 0) ds)"

lemma nonzero_simps [simp]:
  "nonzero [] = 0" "nonzero (d # ds) = (if d = 0 then nonzero ds else Suc (nonzero ds))"
  by (simp_all add: nonzero_def)

lemma nonzero_0D: "nonzero ds = 0 \<Longrightarrow> sum_p ds = 0 \<and> sum_q ds = 0 \<and> list_all (\<lambda>d. d = 0) ds"
  by (induction ds) (auto split: if_splits)

lemma nonzero_1D:
  "nonzero ds \<le> 1 \<Longrightarrow> \<exists>k. (k = 0 \<or> k < length ds) \<and> sum_q ds = (xtime ^^ k) (sum_p ds)"
proof (induction ds)
  case (Cons d ds)
  show ?case
  proof (cases "d = 0")
    case True
    with Cons obtain k where k: "k = 0 \<or> k < length ds" "sum_q ds = (xtime ^^ k) (sum_p ds)" by auto
    show ?thesis
    proof (cases "ds = []")
      case False
      then show ?thesis using True k by (intro exI [of _ "Suc k"]) auto
    qed (use True in simp)
  next
    case False
    then show ?thesis using Cons nonzero_0D [of ds] by (intro exI [of _ 0]) auto
  qed
qed simp

lemma sum_p_eq_0: "nonzero ds \<le> 1 \<Longrightarrow> sum_p ds = 0 \<Longrightarrow> list_all (\<lambda>d. d = 0) ds"
  by (induction ds) (use nonzero_0D in \<open>auto split: if_splits\<close>)

lemma xtime_power_0D: "(xtime ^^ k) x = 0 \<Longrightarrow> x = 0"
  by (induction k) (auto dest: xtime_0D)

lemma sum_q_eq_0: "nonzero ds \<le> 1 \<Longrightarrow> sum_q ds = 0 \<Longrightarrow> list_all (\<lambda>d. d = 0) ds"
  using nonzero_1D [of ds] sum_p_eq_0 xtime_power_0D by metis

lemma xor_eq_0_iff: "a XOR b = 0 \<longleftrightarrow> a = (b :: u8)"
  by (metis xor.left_neutral xor.assoc xor_self_eq)

lemma sums_eq_0:
  "nonzero ds \<le> 2 \<Longrightarrow> length ds \<le> 8 \<Longrightarrow> sum_p ds = 0 \<Longrightarrow> sum_q ds = 0 \<Longrightarrow> list_all (\<lambda>d. d = 0) ds"
proof (induction ds)
  case (Cons d ds)
  show ?case
  proof (cases "d = 0")
    case True
    then show ?thesis using Cons by (auto dest: xtime_0D)
  next
    case False
    then have one: "nonzero ds \<le> 1" using Cons.prems by simp
    from Cons.prems have p: "sum_p ds = d" and q: "xtime (sum_q ds) = d" by (simp_all add: xor_eq_0_iff)
    from nonzero_1D [OF one] obtain k where
      k: "k = 0 \<or> k < length ds" "sum_q ds = (xtime ^^ k) (sum_p ds)" by blast
    have "ds \<noteq> []" using p False by auto
    with k have "Suc k < 8" using Cons.prems(2) by (cases ds) auto
    moreover have "(xtime ^^ Suc k) d = d" using k(2) p q by simp
    ultimately have "d = 0" using xtime_power_fixed by blast
    with False show ?thesis by simp
  qed
qed simp

section \<open>Codewords\<close>

definition is_cw :: "bytes \<Rightarrow> bool" where
  "is_cw w = (length w = 10 \<and> drop 8 w = [sum_p (take 8 w), sum_q (take 8 w)])"

lemma sums_xor:
  "length a = length b \<Longrightarrow> sum_p (map2 (XOR) a b) = sum_p a XOR sum_p b \<and>
     sum_q (map2 (XOR) a b) = sum_q a XOR sum_q b"
  by (induction a b rule: list_induct2) (simp_all add: xtime_xor xor.assoc xor.left_commute)

lemma map2_xor_0: "length a = length b \<Longrightarrow> list_all (\<lambda>d. d = 0) (map2 (XOR) a b) \<longleftrightarrow> a = (b :: bytes)"
  by (induction a b rule: list_induct2) (simp_all add: xor_eq_0_iff)

lemma nonzero_missing:
  "length a = length b \<Longrightarrow> erased_from a opts \<Longrightarrow> erased_from b opts \<Longrightarrow> nonzero (map2 (XOR) a b) \<le> missing opts"
proof (induction a b arbitrary: opts rule: list_induct2)
  case (Cons x xs y ys)
  from Cons.prems obtain z zs where opts: "opts = z # zs" by (cases opts) (auto simp: erased_from_def)
  with Cons have "nonzero (map2 (XOR) xs ys) \<le> missing zs" by (auto simp: erased_from_def)
  then show ?case using Cons.prems opts by (cases z) (auto simp: erased_from_def xor_eq_0_iff)
qed simp

lemma split_10: "length xs = 10 \<Longrightarrow> xs = take 8 xs @ [xs ! 8, xs ! 9]"
proof -
  assume len: "length xs = 10"
  have "drop 8 xs = xs ! 8 # drop (Suc 8) xs" by (rule Cons_nth_drop_Suc [symmetric]) (simp add: len)
  moreover have "drop (Suc 8) xs = xs ! 9 # drop (Suc 9) xs"
    using Cons_nth_drop_Suc [of 9 xs] len by simp
  ultimately have "drop 8 xs = [xs ! 8, xs ! 9]" using len by simp
  then show ?thesis by (metis append_take_drop_id)
qed

lemma cw_unique:
  assumes cw: "is_cw w" "is_cw v" and er: "erased_from w opts" "erased_from v opts"
    and few: "missing opts \<le> 2"
  shows "w = v"
proof -
  define d e o8 p q where "d = take 8 w" "e = take 8 v" "o8 = take 8 opts" "p = opts ! 8" "q = opts ! 9"
  note defs = this
  have len: "length w = 10" "length v = 10" "length opts = 10" "length d = 8" "length e = 8" "length o8 = 8"
    using cw er erased_from_length [OF er(1)] by (simp_all add: is_cw_def defs)
  have w: "w = d @ [sum_p d, sum_q d]" and v: "v = e @ [sum_p e, sum_q e]"
    using cw append_take_drop_id [of 8 w] append_take_drop_id [of 8 v] by (simp_all add: is_cw_def defs)
  have o: "opts = o8 @ [p, q]" using split_10 [OF len(3)] by (simp add: defs)
  have er8: "erased_from d o8" "erased_from e o8"
    and pq: "p = None \<or> (p = Some (sum_p d) \<and> sum_p e = sum_p d)"
      "q = None \<or> (q = Some (sum_q d) \<and> sum_q e = sum_q d)"
    using er len by (auto simp: w v o erased_from_append) (auto simp: erased_from_def)
  let ?x = "map2 (XOR) d e"
  have le: "nonzero ?x \<le> missing o8" using nonzero_missing [OF _ er8] len by simp
  have sums: "sum_p ?x = sum_p d XOR sum_p e" "sum_q ?x = sum_q d XOR sum_q e"
    using sums_xor [of d e] len by simp_all
  have total: "missing o8 + missing [p, q] \<le> 2" using few by (simp add: o)
  have "list_all (\<lambda>d. d = 0) ?x"
  proof (cases p)
    case None
    show ?thesis
    proof (cases q)
      case None
      then have "nonzero ?x = 0" using \<open>p = None\<close> total le by simp
      then show ?thesis using nonzero_0D by blast
    next
      case (Some b)
      then show ?thesis using \<open>p = None\<close> total le pq(2) sums(2) by (intro sum_q_eq_0) simp_all
    qed
  next
    case (Some a)
    then have p0: "sum_p ?x = 0" using pq(1) sums(1) by simp
    show ?thesis
    proof (cases q)
      case None
      then show ?thesis using Some total le p0 by (intro sum_p_eq_0) simp_all
    next
      case (Some b)
      then show ?thesis using total le pq(2) sums(2) p0 len by (intro sums_eq_0) simp_all
    qed
  qed
  then have "d = e" using map2_xor_0 [of d e] len by simp
  then show ?thesis by (simp add: w v)
qed

section \<open>The decoder\<close>

definition all_bytes :: bytes where
  "all_bytes = map of_nat [0..<256]"

lemma in_all_bytes: "b \<in> set all_bytes"
proof -
  have "b = of_nat (unat b)" "unat b < 256" using unsigned_less [of b] by simp_all
  then show ?thesis unfolding all_bytes_def set_map set_upt by (intro image_eqI) simp_all
qed

fun fills :: "u8 option list \<Rightarrow> bytes list" where
  "fills [] = [[]]"
| "fills (Some x # xs) = map (Cons x) (fills xs)"
| "fills (None # xs) = concat (map (\<lambda>b. map (Cons b) (fills xs)) all_bytes)"

lemma in_fills: "w \<in> set (fills opts) \<longleftrightarrow> erased_from w opts"
proof (induction opts arbitrary: w rule: fills.induct)
  case (3 xs)
  then show ?case using in_all_bytes by (cases w) (auto simp: erased_from_def image_iff)
qed (auto simp: erased_from_def list_all2_Cons2)

definition decode_col :: "u8 option list \<Rightarrow> bytes option" where
  "decode_col opts = find is_cw (fills opts)"

lemma decode_col_correct:
  assumes "is_cw w" and "erased_from w opts" and "missing opts \<le> 2"
  shows "decode_col opts = Some w"
proof (cases "decode_col opts")
  case None
  then show ?thesis using assms by (auto simp: decode_col_def find_None_iff in_fills)
next
  case (Some v)
  then have "is_cw v" "erased_from v opts"
    by (auto simp: decode_col_def find_Some_iff in_fills [symmetric])
  then show ?thesis using cw_unique assms Some by blast
qed

section \<open>Shards as columns\<close>

definition column :: "bytes list \<Rightarrow> nat \<Rightarrow> bytes" where
  "column shards j = map (\<lambda>s. s ! j) shards"

fun shard_len :: "bytes option list \<Rightarrow> nat" where
  "shard_len [] = 0"
| "shard_len (None # xs) = shard_len xs"
| "shard_len (Some s # xs) = length s"

definition sample_encode :: "bytes list \<Rightarrow> error + bytes list" where
  "sample_encode shards =
     (let ds = take 8 shards; n = length (hd shards) in
      Inr (ds @ [map (\<lambda>j. sum_p (column ds j)) [0..<n], map (\<lambda>j. sum_q (column ds j)) [0..<n]]))"

definition sample_reconstruct :: "bytes option list \<Rightarrow> error + bytes option list" where
  "sample_reconstruct opts =
     (let n = shard_len opts;
          cols = map (\<lambda>j. decode_col (map (map_option (\<lambda>s. s ! j)) opts)) [0..<n]
      in if None \<in> set cols then Inl CodecError
         else Inr (map (\<lambda>i. Some (map (\<lambda>c. the c ! i) cols)) [0..<length opts]))"

definition sample_libs :: libs where
  "sample_libs = \<lparr>blake3 = (\<lambda>d. take 32 (d @ replicate 32 0)), to_hex = (\<lambda>b. halves (string_of b)),
     crc32c_append = (\<lambda>c d. fold (\<lambda>b a. a * 31 + ucast b) d c), rs_new = (\<lambda>k m. Inr ()),
     rs_encode = sample_encode, rs_reconstruct = sample_reconstruct\<rparr>"

lemma halves_length [simp]: "length (halves s) = 2 * length s"
  by (induction s) (simp_all add: halves_def)

text \<open>The hexadecimal form: letters only, and different for different bytes.\<close>

lemma halves_inj [simp]: "halves s = halves t \<longleftrightarrow> s = t"
  by (metis unhalves_halves)

lemma halves_letters: "c \<in> set (halves s) \<Longrightarrow> 65 \<le> (of_char c :: nat) \<and> of_char c < (81 :: nat)"
  using char_halves by (auto simp: halves_def half_value)

lemma halves_safe: "list_all (\<lambda>c. of_char c < (128 :: nat)) (halves s)" "c \<in> {CHR ''/'', CHR '' '', CHR 0x0A} \<Longrightarrow> c \<notin> set (halves s)"
  "halves s \<noteq> ''.''"
proof -
  have c: "c \<in> set (halves s) \<Longrightarrow> 65 \<le> (of_char c :: nat) \<and> of_char c < (81 :: nat)" for c by (rule halves_letters)
  show "list_all (\<lambda>c. of_char c < (128 :: nat)) (halves s)" using c by (force simp: list_all_iff)
  show "c \<in> {CHR ''/'', CHR '' '', CHR 0x0A} \<Longrightarrow> c \<notin> set (halves s)" using c [of c] by auto
  show "halves s \<noteq> ''.''" using halves_letters [of "CHR ''.''" s] by auto
qed

lemma sample_hash_laws: "hash_laws sample_libs"
  by (auto simp: hash_laws_def sample_libs_def string_of_def)

lemma sample_encode_cw:
  assumes "shards_ok 10 n shards" and "sample_encode shards = Inr code"
  shows "length code = 10" "\<forall>s \<in> set code. length s = n" "j < n \<Longrightarrow> is_cw (column code j)"
proof -
  have len: "length shards = 10" and ls: "\<forall>s \<in> set shards. length s = n"
    using assms(1) by (auto simp: shards_ok_def list_all_iff)
  then have hd: "length (hd shards) = n" by (cases shards) auto
  have code: "code = take 8 shards @ [map (\<lambda>j. sum_p (column (take 8 shards) j)) [0..<n],
      map (\<lambda>j. sum_q (column (take 8 shards) j)) [0..<n]]"
    using assms(2) hd by (simp add: sample_encode_def Let_def)
  show "length code = 10" using len by (simp add: code)
  show "\<forall>s \<in> set code. length s = n" using ls by (auto simp: code dest: in_set_takeD)
  show "j < n \<Longrightarrow> is_cw (column code j)" using len by (simp add: is_cw_def column_def code)
qed

lemma erased_from_column:
  "erased_from code opts \<Longrightarrow> erased_from (column code j) (map (map_option (\<lambda>s. s ! j)) opts)"
  unfolding erased_from_def column_def by (induction rule: list_all2_induct) auto

lemma missing_column [simp]: "missing (map (map_option f) opts) = missing opts"
proof (induction opts)
  case (Cons x xs)
  then show ?case by (cases x) simp_all
qed simp

lemma shard_len_erased:
  assumes "erased_from code opts" and "\<forall>s \<in> set code. length s = n" and "missing opts < length opts"
  shows "shard_len opts = n"
  using assms unfolding erased_from_def
  by (induction rule: list_all2_induct) auto

lemma sample_reconstruct_correct:
  assumes ok: "shards_ok 10 n shards" and enc: "sample_encode shards = Inr code"
    and er: "erased_from code opts" and few: "missing opts \<le> 2"
  shows "sample_reconstruct opts = Inr (map Some code)"
proof -
  note cw = sample_encode_cw [OF ok enc]
  have len: "length opts = 10" using er cw(1) by (simp add: erased_from_length)
  have n: "shard_len opts = n" using shard_len_erased [OF er cw(2)] few len by simp
  have col: "decode_col (map (map_option (\<lambda>s. s ! j)) opts) = Some (column code j)" if "j < n" for j
    by (rule decode_col_correct [OF cw(3) [OF that] erased_from_column [OF er]]) (use few in simp)
  then have cols: "map (\<lambda>j. decode_col (map (map_option (\<lambda>s. s ! j)) opts)) [0..<n]
      = map (\<lambda>j. Some (column code j)) [0..<n]" by simp
  have "map (\<lambda>j. column code j ! i) [0..<n] = code ! i" if "i < 10" for i
    using that cw(1,2) by (intro nth_equalityI) (auto simp: column_def)
  then have "map (\<lambda>i. Some (map (\<lambda>j. column code j ! i) [0..<n])) [0..<10] = map Some code"
    using cw(1) by (intro nth_equalityI) auto
  then show ?thesis using col by (auto simp: sample_reconstruct_def n cols len Let_def comp_def)
qed

lemma sample_rs_laws: "rs_laws sample_libs"
proof -
  have "\<exists>par. shards_ok 2 n par \<and> sample_encode shards = Inr (take 8 shards @ par)"
    if ok: "shards_ok 10 n shards" for shards n
  proof -
    have "length (hd shards) = n" using ok by (cases shards) (auto simp: shards_ok_def)
    with ok show ?thesis by (auto simp: sample_encode_def Let_def shards_ok_def)
  qed
  then show ?thesis
    unfolding rs_laws_def using sample_reconstruct_correct by (auto simp: sample_libs_def)
qed

end
