(* ===== verification/Erasure.thy ===== *)
theory Erasure
  imports External Sample_Codec
begin

text \<open>
  The Reed-Solomon (8+2) layer, \<open>sidecar/src/erasure.rs\<close>: splitting an object into eight padded
  data shards and two parity shards, and rebuilding missing shards with the crate's codec.
\<close>

definition DATA_SHARDS :: nat where [simp]: "DATA_SHARDS = 8"
definition PARITY_SHARDS :: nat where [simp]: "PARITY_SHARDS = 2"
definition TOTAL_SHARDS :: nat where [simp]: "TOTAL_SHARDS = DATA_SHARDS + PARITY_SHARDS"

record encoded_object =
  data_shards :: "bytes list"
  parity_shards :: "bytes list"
  shard_size :: nat
  original_size :: nat

text \<open>\<open>Vec::resize\<close> and \<open>usize::div_ceil\<close>.\<close>

definition resize :: "nat \<Rightarrow> 'a \<Rightarrow> 'a list \<Rightarrow> 'a list" where
  "resize n v xs = take n xs @ replicate (n - length xs) v"

definition div_ceil :: "nat \<Rightarrow> nat \<Rightarrow> nat" where
  "div_ceil a b = (a + b - 1) div b"

definition ErasureCodec_new :: "libs \<Rightarrow> error + unit" where
  "ErasureCodec_new X = rs_new X DATA_SHARDS PARITY_SHARDS"

definition encode :: "libs \<Rightarrow> bytes \<Rightarrow> error + encoded_object" where
  "encode X data =
     (let original = length data; sz = div_ceil original DATA_SHARDS in
      if sz = 0 then Inl (Failure ''cannot erasure-code an empty object'')
      else
        let padded_len = sz * DATA_SHARDS;
            padded = resize padded_len 0 data;
            shards = resize TOTAL_SHARDS (replicate sz 0) (chunks sz padded)
        in bindE (rs_encode X shards) (\<lambda>out.
             Inr \<lparr>data_shards = take DATA_SHARDS out, parity_shards = drop DATA_SHARDS out,
                  shard_size = sz, original_size = original\<rparr>))"

text \<open>\<open>s.unwrap()\<close> on each shard: a missing one panics.\<close>

fun unwrap_all :: "'a option list \<Rightarrow> error + 'a list" where
  "unwrap_all [] = Inr []"
| "unwrap_all (None # xs) = Inl Panic"
| "unwrap_all (Some x # xs) = bindE (unwrap_all xs) (\<lambda>ys. Inr (x # ys))"

definition reconstruct ::
  "libs \<Rightarrow> bytes option list \<Rightarrow> bytes option list \<Rightarrow> nat \<Rightarrow> error + (bytes list \<times> bytes list)" where
  "reconstruct X ds ps sz =
     (let m = missing (ds @ ps) in
      if m > PARITY_SHARDS then Inl (Failure ''too many corrupted shards to reconstruct'')
      else if m = 0 then
        bindE (unwrap_all ds) (\<lambda>d. bindE (unwrap_all ps) (\<lambda>p. Inr (d, p)))
      else
        let all = ds @ ps in
        if \<not> list_all (\<lambda>s. case s of None \<Rightarrow> True | Some b \<Rightarrow> length b = sz) all
        then Inl (Failure ''shard length does not match expected shard_size'')
        else bindE (rs_reconstruct X all) (\<lambda>out.
               bindE (unwrap_all (take DATA_SHARDS out)) (\<lambda>d.
               bindE (unwrap_all (drop DATA_SHARDS out)) (\<lambda>p. Inr (d, p)))))"

section \<open>Encoding\<close>

lemma unwrap_all_Some [simp]: "unwrap_all (map Some xs) = Inr xs"
  by (induction xs) simp_all

lemma div_ceil_8: "0 < n \<Longrightarrow> 0 < div_ceil n 8 \<and> n \<le> div_ceil n 8 * 8 \<and> div_ceil n 8 * 8 < n + 8"
  by (simp add: div_ceil_def) presburger

lemma chunks_8:
  assumes "0 < n" and "length xs = n * 8"
  shows "shards_ok 8 n (chunks n xs)" and "concat (chunks n xs) = xs"
  using assms chunks_each_mult [of n xs 8] length_chunks_mult [of n xs 8]
  by (auto simp: shards_ok_def list_all_iff concat_chunks)

lemma shards_ok_append:
  "shards_ok k n a \<Longrightarrow> shards_ok l n b \<Longrightarrow> shards_ok (k + l) n (a @ b)"
  by (simp add: shards_ok_def)

lemma shards_ok_zeros: "0 < n \<Longrightarrow> shards_ok k n (replicate k (replicate n 0))"
  by (simp add: shards_ok_def list_all_iff)

text \<open>The shards that \<open>encode\<close> hands to the codec, and what comes back.\<close>

lemma encode_shards:
  assumes laws: "rs_laws X" and ne: "data \<noteq> []"
  defines "n \<equiv> div_ceil (length data) 8"
  defines "ds \<equiv> chunks n (resize (n * 8) 0 data)"
  shows "\<exists>par. encode X data = Inr \<lparr>data_shards = ds, parity_shards = par, shard_size = n,
                                     original_size = length data\<rparr> \<and>
               shards_ok 8 n ds \<and> shards_ok 2 n par \<and>
               shards_ok 10 n (ds @ replicate 2 (replicate n 0)) \<and>
               rs_encode X (ds @ replicate 2 (replicate n 0)) = Inr (ds @ par) \<and>
               concat ds = data @ replicate (n * 8 - length data) 0"
proof -
  have n: "0 < n" "length data \<le> n * 8" using div_ceil_8 [of "length data"] ne by (auto simp: n_def)
  have pad: "resize (n * 8) 0 data = data @ replicate (n * 8 - length data) 0"
    using n by (simp add: resize_def)
  have ds: "shards_ok 8 n ds" "concat ds = data @ replicate (n * 8 - length data) 0"
    using chunks_8 [of n "resize (n * 8) 0 data"] n by (simp_all add: ds_def pad)
  let ?sh = "ds @ replicate 2 (replicate n 0)"
  have sh: "shards_ok 10 n ?sh"
    using shards_ok_append [OF ds(1) shards_ok_zeros [OF n(1), of 2]] by simp
  from rs_encodeD [OF laws sh] obtain par where
    par: "shards_ok 2 n par" "rs_encode X ?sh = Inr (take 8 ?sh @ par)" by blast
  have len: "length ds = 8" using ds(1) by (simp add: shards_ok_def)
  then have enc: "rs_encode X ?sh = Inr (ds @ par)" using par(2) by simp
  have "resize 10 (replicate n 0) ds = ?sh" by (simp add: resize_def len numeral_2_eq_2)
  with enc n have "encode X data = Inr \<lparr>data_shards = ds, parity_shards = par, shard_size = n,
      original_size = length data\<rparr>"
    by (simp add: encode_def Let_def len flip: n_def ds_def)
  with ds sh par(1) enc show ?thesis by blast
qed

text \<open>Every non-empty object is encoded into eight data and two parity shards of one size,
  the ceiling of an eighth of the object; the data shards concatenate to the object followed by
  fewer than eight zero bytes, so truncating to the original size gives the object back.\<close>

theorem encode_roundtrip:
  assumes "rs_laws X" and "data \<noteq> []"
  shows "\<exists>enc. encode X data = Inr enc \<and>
     shards_ok 8 (shard_size enc) (data_shards enc) \<and> shards_ok 2 (shard_size enc) (parity_shards enc) \<and>
     original_size enc = length data \<and> 8 * shard_size enc < length data + 8 \<and>
     concat (data_shards enc) = data @ replicate (8 * shard_size enc - length data) 0 \<and>
     take (original_size enc) (concat (data_shards enc)) = data"
proof -
  have "div_ceil (length data) 8 * 8 < length data + 8"
    using assms(2) div_ceil_8 [of "length data"] by simp
  with encode_shards [OF assms] show ?thesis
    by (elim exE conjE) (rule exI, rule conjI, assumption, simp add: mult.commute)
qed

theorem encode_roundtrip_witness:
  "rs_laws sample_libs \<and> (\<exists>enc. encode sample_libs [1, 2, 3, 4, 5, 6, 7, 8, 9] = Inr enc \<and>
     shards_ok 8 2 (data_shards enc) \<and>
     concat (data_shards enc) = [1, 2, 3, 4, 5, 6, 7, 8, 9, 0, 0, 0, 0, 0, 0, 0])"
proof -
  let ?d = "[1, 2, 3, 4, 5, 6, 7, 8, 9] :: bytes"
  have ne: "?d \<noteq> []" by simp
  from encode_roundtrip [OF sample_rs_laws ne] obtain enc where
    enc: "encode sample_libs ?d = Inr enc" "shards_ok 8 (shard_size enc) (data_shards enc)"
      "concat (data_shards enc) = ?d @ replicate (8 * shard_size enc - 9) 0" by auto
  moreover have "shard_size enc = 2"
    using enc(1) by (auto simp: encode_def div_ceil_def Let_def bindE_Inr_iff)
  ultimately show ?thesis using sample_rs_laws by (auto simp: eval_nat_numeral)
qed

lemma erased_lengths:
  assumes "erased_from code opts" and "list_all (\<lambda>b. length b = n) code"
  shows "list_all (\<lambda>s. case s of None \<Rightarrow> True | Some b \<Rightarrow> length b = n) opts"
  using assms unfolding erased_from_def by (induction rule: list_all2_induct) auto

lemma reconstruct_complete:
  assumes laws: "rs_laws X" and enc: "encode X data = Inr enc"
    and ds: "erased_from (data_shards enc) ds" and ps: "erased_from (parity_shards enc) ps"
    and few: "missing ds + missing ps \<le> 2"
  shows "reconstruct X ds ps (shard_size enc) = Inr (data_shards enc, parity_shards enc)"
proof -
  have "data \<noteq> []" using enc by (auto simp: encode_def div_ceil_def)
  from encode_shards [OF laws this] enc obtain sh where
    ok: "shards_ok 8 (shard_size enc) (data_shards enc)" "shards_ok 2 (shard_size enc) (parity_shards enc)"
    and sh: "shards_ok 10 (shard_size enc) sh" "rs_encode X sh = Inr (data_shards enc @ parity_shards enc)"
    by fastforce
  have all: "erased_from (data_shards enc @ parity_shards enc) (ds @ ps)"
    using ds ps erased_from_length [OF ds] by (simp add: erased_from_append)
  show ?thesis
  proof (cases "missing (ds @ ps) = 0")
    case True
    then obtain ys zs where "ds = map Some ys" "ps = map Some zs"
      by (auto simp: missing_0)
    with ds ps show ?thesis by (simp add: reconstruct_def erased_from_full)
  next
    case False
    have "rs_reconstruct X (ds @ ps) = Inr (map Some (data_shards enc @ parity_shards enc))"
      by (rule rs_reconstructD [OF laws sh all]) (use few in simp)
    moreover have "list_all (\<lambda>s. case s of None \<Rightarrow> True | Some b \<Rightarrow> length b = shard_size enc) (ds @ ps)"
      using erased_lengths [OF ds] erased_lengths [OF ps] ok by (simp add: shards_ok_def)
    moreover have "length (data_shards enc) = 8" using ok by (simp add: shards_ok_def)
    ultimately show ?thesis using False few by (auto simp: reconstruct_def Let_def)
  qed
qed

text \<open>C28: self-healing.  Of the ten shards of an encoded object, any two may be lost: the code
  rebuilds all of them, whichever are missing.\<close>

theorem reconstruct_heals:
  assumes laws: "rs_laws X" and enc: "encode X data = Inr enc"
    and ds: "erased_from (data_shards enc) ds" and ps: "erased_from (parity_shards enc) ps"
    and few: "missing ds + missing ps \<le> 2"
  shows "reconstruct X ds ps (shard_size enc) = Inr (data_shards enc, parity_shards enc)"
  using assms by (rule reconstruct_complete)

theorem reconstruct_heals_witness:
  "\<exists>enc. encode sample_libs [1, 2, 3] = Inr enc \<and>
     reconstruct sample_libs (None # map Some (tl (data_shards enc)))
       [Some (hd (parity_shards enc)), None] (shard_size enc)
     = Inr (data_shards enc, parity_shards enc)"
proof -
  have "[1, 2, 3 :: u8] \<noteq> []" by simp
  from encode_shards [OF sample_rs_laws this] obtain enc where
    enc: "encode sample_libs [1, 2, 3] = Inr enc" and ok: "shards_ok 8 (shard_size enc) (data_shards enc)"
      "shards_ok 2 (shard_size enc) (parity_shards enc)" by fastforce
  obtain d ds where d: "data_shards enc = d # ds" using ok by (cases "data_shards enc") (auto simp: shards_ok_def)
  obtain p q where p: "parity_shards enc = [p, q]"
    using ok by (auto simp: shards_ok_def numeral_2_eq_2 length_Suc_conv)
  have "erased_from (data_shards enc) (None # map Some ds)" "erased_from (parity_shards enc) [Some p, None]"
    using erased_from_full [of ds ds] by (simp_all add: d p erased_from_def)
  from reconstruct_heals [OF sample_rs_laws enc this] enc show ?thesis by (auto simp: d p)
qed

text \<open>Reconstruction refuses, without touching a shard, when more than two shards are
  missing, and when a present shard has another length than the header says.\<close>

theorem reconstruct_refuses:
  assumes "2 < missing ds + missing ps \<or>
     (0 < missing ds + missing ps \<and> (\<exists>b. Some b \<in> set (ds @ ps) \<and> length b \<noteq> sz))"
  shows "\<exists>msg. reconstruct X ds ps sz = Inl (Failure msg)"
proof (cases "2 < missing ds + missing ps")
  case False
  with assms obtain b where "Some b \<in> set (ds @ ps)" "length b \<noteq> sz" by blast
  then have "\<not> list_all (\<lambda>s. case s of None \<Rightarrow> True | Some b \<Rightarrow> length b = sz) (ds @ ps)"
    by (force simp: list_all_iff)
  then show ?thesis using assms False by (auto simp: reconstruct_def Let_def simp del: list_all_append)
qed (simp add: reconstruct_def Let_def)

theorem reconstruct_refuses_witness:
  "\<exists>msg. reconstruct sample_libs [None, None, None, Some [1], Some [1], Some [1], Some [1], Some [1]]
            [Some [1], Some [1]] 1 = Inl (Failure msg)"
  by (rule reconstruct_refuses) simp

end
