(* ===== verification/Object_Store.thy ===== *)
theory Object_Store
  imports Filesystem Erasure
begin

text \<open>
  The content-addressed object store, \<open>sidecar/src/storage/object_store.rs\<close>.  An object is a
  loose file, eight data shards with a parity file, or a byte range of a sealed packfile; the
  store keeps the location of each in \<open>object_index\<close>.  An operation is a step on the store
  and the file system together.

  A \<open>HashMap\<close> is an association list; the logging macros are left out, and the writes that
  the code makes through a \<open>BufWriter\<close> appear in the file at once (an early return drops the
  writer, which flushes it).
\<close>

datatype object_location =
    Individual path
  | Packfile string u64 u64    \<comment> \<open>pack id, offset, size\<close>
  | Sharded path u64           \<comment> \<open>directory of the data shards, original size\<close>

datatype object_kind = KIndividual | KPackfile | KSharded

datatype repair_outcome = Healthy | Repaired | Corrupted | Unrecoverable

record object_store =
  objects_dir :: path
  packfile_dir :: path
  parity_dir :: path
  erasure_enabled :: bool
  max_packfile_size_mb :: u64
  object_index :: "(string \<times> object_location) list"
  next_pack_id :: u32
  total_bytes :: u64
  total_raw_bytes :: u64

record packfile_entry =
  entry_hash :: string
  entry_offset :: u64
  entry_size :: u64

record packfile_writer =
  writer_pack_id :: string
  writer_path :: path
  bytes_written :: u64
  writer_max_size :: u64
  writer_index :: "packfile_entry list"
  crc :: u32

type_synonym 'a store_step = "(object_store \<times> fs, 'a) step"

definition PARITY_HEADER_LEN :: nat where
  "PARITY_HEADER_LEN = 16 + TOTAL_SHARDS * 32"

text \<open>A step on the file system alone, and a change of the store alone.\<close>

definition on_fs :: "(fs, 'a) step \<Rightarrow> 'a store_step" where
  "on_fs m = (\<lambda>(s, f). let (r, f') = m f in (r, (s, f')))"

definition modify :: "(object_store \<Rightarrow> object_store) \<Rightarrow> unit store_step" where
  "modify g = (\<lambda>(s, f). (Inr (), (g s, f)))"

text \<open>\<open>dir.join(name)\<close>, and the names of shards and packfiles.\<close>

definition child :: "path \<Rightarrow> string \<Rightarrow> path" where
  "child dir name = join dir (path_of name)"

definition shard_name :: "nat \<Rightarrow> string" where
  "shard_name i = ''d'' @ show_nat i"

definition pack_name :: "u32 \<Rightarrow> string" where
  "pack_name n = ''h_'' @ show_padded 5 (unat n)"

section \<open>Packfile writer\<close>

definition PackfileWriter_new :: "path \<Rightarrow> string \<Rightarrow> u64 \<Rightarrow> (fs, packfile_writer) step" where
  "PackfileWriter_new dir pack_id max_size_mb =
     (let pack_path = child dir (pack_id @ ''.pack'') in
      bindS (fs_write pack_path []) (\<lambda>_.
      returnS \<lparr>writer_pack_id = pack_id, writer_path = pack_path, bytes_written = 0,
               writer_max_size = max_size_mb * 1024 * 1024, writer_index = [], crc = 0\<rparr>))"

definition writer_write_object ::
  "libs \<Rightarrow> packfile_writer \<Rightarrow> string \<Rightarrow> bytes \<Rightarrow> (fs, packfile_writer) step" where
  "writer_write_object X w hash data =
     bindS (fs_append (writer_path w) data) (\<lambda>_.
     returnS (w\<lparr>crc := crc32c_append X (crc w) data,
                bytes_written := bytes_written w + of_nat (length data),
                writer_index := writer_index w @
                  [\<lparr>entry_hash = hash, entry_offset = bytes_written w, entry_size = of_nat (length data)\<rparr>]\<rparr>))"

definition is_full :: "packfile_writer \<Rightarrow> bool" where
  "is_full w = (writer_max_size w \<le> bytes_written w)"

definition idx_line :: "packfile_entry \<Rightarrow> string" where
  "idx_line e = entry_hash e @ '' '' @ show_nat (unat (entry_offset e)) @ '' '' @
     show_nat (unat (entry_size e)) @ [CHR 0x0A]"

definition seal :: "packfile_writer \<Rightarrow> path \<Rightarrow> (fs, packfile_entry list) step" where
  "seal w dir =
     bindS (fs_append (writer_path w) (u32_to_le (crc w))) (\<lambda>_.
     bindS (fs_write (child dir (writer_pack_id w @ ''.idx''))
              (bytes_of (concat (map idx_line (writer_index w))))) (\<lambda>_.
     returnS (writer_index w)))"

section \<open>Sealing loose objects\<close>

fun pack_objects ::
  "libs \<Rightarrow> (string \<times> path \<times> u64) list \<Rightarrow> packfile_writer \<Rightarrow> (fs, packfile_writer) step" where
  "pack_objects X [] w = returnS w"
| "pack_objects X ((hash, p, sz) # objs) w =
     bindS (readS (\<lambda>f. fs_read f p)) (\<lambda>data.
     bindS (writer_write_object X w hash data) (\<lambda>w'.
     pack_objects X objs w'))"

text \<open>\<open>let _ = fs::remove_file(path)\<close> for each packed object.\<close>

fun remove_loose :: "(string \<times> path \<times> u64) list \<Rightarrow> fs \<Rightarrow> fs" where
  "remove_loose [] f = f"
| "remove_loose ((hash, p, sz) # objs) f = remove_loose objs (snd (remove_file p f))"

definition add_entries :: "string \<Rightarrow> packfile_entry list \<Rightarrow> object_store \<Rightarrow> object_store" where
  "add_entries pack_id es s = s\<lparr>object_index :=
     fold (\<lambda>e idx. put (entry_hash e) (Packfile pack_id (entry_offset e) (entry_size e)) idx) es (object_index s)\<rparr>"

definition seal_packfile :: "libs \<Rightarrow> (string \<times> path \<times> u64) list \<Rightarrow> unit store_step" where
  "seal_packfile X objs = (\<lambda>(s, f).
     let pack_id = pack_name (next_pack_id s) in
     bindS (modify (\<lambda>s. s\<lparr>next_pack_id := next_pack_id s + 1\<rparr>)) (\<lambda>_.
     bindS (on_fs (PackfileWriter_new (packfile_dir s) pack_id (max_packfile_size_mb s))) (\<lambda>w.
     bindS (on_fs (pack_objects X objs w)) (\<lambda>w'.
     bindS (on_fs (seal w' (packfile_dir s))) (\<lambda>es.
     bindS (modify (add_entries pack_id es)) (\<lambda>_.
     on_fs (\<lambda>f. (Inr (), remove_loose objs f))))))) (s, f))"

fun individuals :: "fs \<Rightarrow> (string \<times> object_location) list \<Rightarrow> (string \<times> path \<times> u64) list" where
  "individuals f [] = []"
| "individuals f ((hash, Individual p) # idx) = (hash, p, of_nat (file_len f p)) # individuals f idx"
| "individuals f ((hash, loc) # idx) = individuals f idx"

definition maybe_seal_packfiles :: "libs \<Rightarrow> unit store_step" where
  "maybe_seal_packfiles X = (\<lambda>(s, f).
     let threshold = max_packfile_size_mb s * 1024 * 1024;
         objs = individuals f (object_index s);
         total = sum_list (map (\<lambda>(h, p, n). n) objs)
     in if objs = [] then (Inr (), (s, f))
        else if total < threshold then (Inr (), (s, f))
        else seal_packfile X objs (s, f))"

section \<open>Writing objects\<close>

definition write_individual_object :: "string \<Rightarrow> bytes \<Rightarrow> unit store_step" where
  "write_individual_object hash data = (\<lambda>(s, f).
     let obj_path = child (objects_dir s) hash in
     bindS (on_fs (fs_write obj_path data)) (\<lambda>_.
     modify (\<lambda>s. s\<lparr>total_bytes := total_bytes s + of_nat (length data),
                    object_index := put hash (Individual obj_path) (object_index s)\<rparr>)) (s, f))"

text \<open>\<open>for (i, shard) in shards.iter().enumerate() { fs::write(dir.join(format!("d{}", i)), shard)?; }\<close>.\<close>

fun write_shards :: "path \<Rightarrow> nat \<Rightarrow> bytes list \<Rightarrow> (fs, unit) step" where
  "write_shards dir i [] = returnS ()"
| "write_shards dir i (b # bs) =
     bindS (fs_write (child dir (shard_name i)) b) (\<lambda>_. write_shards dir (Suc i) bs)"

definition parity_body :: "libs \<Rightarrow> encoded_object \<Rightarrow> bytes" where
  "parity_body X enc =
     u64_to_le (of_nat (original_size enc)) @ u64_to_le (of_nat (shard_size enc)) @
     concat (map (blake3 X) (data_shards enc @ parity_shards enc)) @ concat (parity_shards enc)"

definition write_sharded_object :: "libs \<Rightarrow> string \<Rightarrow> bytes \<Rightarrow> unit store_step" where
  "write_sharded_object X hash data = (\<lambda>(s, f).
     bindS (liftS (ErasureCodec_new X)) (\<lambda>_.
     bindS (liftS (encode X data)) (\<lambda>enc.
     let dir = child (objects_dir s) hash;
         stored = length (concat (data_shards enc)) + length (concat (parity_shards enc)) + PARITY_HEADER_LEN
     in bindS (on_fs (create_dir_all dir)) (\<lambda>_.
        bindS (on_fs (write_shards dir 0 (data_shards enc))) (\<lambda>_.
        bindS (on_fs (fs_write (child (parity_dir s) hash) (parity_body X enc))) (\<lambda>_.
        modify (\<lambda>s. s\<lparr>total_bytes := total_bytes s + of_nat stored,
                       object_index := put hash (Sharded dir (of_nat (original_size enc)))
                                           (object_index s)\<rparr>)))))) (s, f))"

definition contains :: "object_store \<Rightarrow> string \<Rightarrow> bool" where
  "contains s hash = (map_of (object_index s) hash \<noteq> None)"

definition write_object :: "libs \<Rightarrow> string \<Rightarrow> bytes \<Rightarrow> u64 \<Rightarrow> unit store_step" where
  "write_object X hash data raw_size = (\<lambda>(s, f).
     if contains s hash then (Inr (), (s\<lparr>total_raw_bytes := total_raw_bytes s + raw_size\<rparr>, f))
     else
       bindS (if erasure_enabled s then write_sharded_object X hash data
              else write_individual_object hash data) (\<lambda>_.
       bindS (modify (\<lambda>s. s\<lparr>total_raw_bytes := total_raw_bytes s + raw_size\<rparr>)) (\<lambda>_.
       maybe_seal_packfiles X)) (s, f))"

section \<open>Reading objects\<close>

fun read_shards :: "string \<Rightarrow> fs \<Rightarrow> path \<Rightarrow> nat list \<Rightarrow> error + bytes" where
  "read_shards hash f dir [] = Inr []"
| "read_shards hash f dir (i # is) =
     (case fs_read f (child dir (shard_name i)) of
        Inl e \<Rightarrow> Inl (Failure (''missing shard '' @ show_nat i @ '' of '' @ hash))
      | Inr b \<Rightarrow> bindE (read_shards hash f dir is) (\<lambda>rest. Inr (b @ rest)))"

text \<open>\<open>seek\<close> to an offset and \<open>read_exact\<close>.\<close>

definition read_range :: "fs \<Rightarrow> path \<Rightarrow> nat \<Rightarrow> nat \<Rightarrow> error + bytes" where
  "read_range f p off n =
     bindE (fs_read f p) (\<lambda>b. if n \<le> length (drop off b) then Inr (take n (drop off b)) else Inl IoError)"

definition read_object :: "object_store \<Rightarrow> fs \<Rightarrow> string \<Rightarrow> error + bytes" where
  "read_object s f hash =
     (case map_of (object_index s) hash of
        Some (Individual p) \<Rightarrow> fs_read f p
      | Some (Sharded dir sz) \<Rightarrow>
          bindE (read_shards hash f dir [0..<DATA_SHARDS]) (\<lambda>data. Inr (take (unat sz) data))
      | Some (Packfile pack_id off sz) \<Rightarrow>
          read_range f (child (packfile_dir s) (pack_id @ ''.pack'')) (unat off) (unat sz)
      | None \<Rightarrow> Inl (Failure (''Object '' @ hash @ '' not found in store'')))"

definition kind_of :: "object_location \<Rightarrow> object_kind" where
  "kind_of loc = (case loc of Individual p \<Rightarrow> KIndividual | Packfile i off sz \<Rightarrow> KPackfile
     | Sharded dir sz \<Rightarrow> KSharded)"

definition get_object_kind :: "object_store \<Rightarrow> string \<Rightarrow> object_kind option" where
  "get_object_kind s hash = map_option kind_of (map_of (object_index s) hash)"

definition total_size :: "object_store \<Rightarrow> u64" where
  "total_size s = total_bytes s"

definition packfile_count :: "object_store \<Rightarrow> u64" where
  "packfile_count s = of_nat (length (filter (\<lambda>(h, loc). kind_of loc = KPackfile) (object_index s)))"

section \<open>Verification and repair\<close>

definition expected_hashes :: "bytes \<Rightarrow> bytes list" where
  "expected_hashes par = map (\<lambda>i. take 32 (drop (16 + i * 32) par)) [0..<TOTAL_SHARDS]"

text \<open>A shard counts as present only when its hash is the expected one.\<close>

definition check_shard :: "libs \<Rightarrow> error + bytes \<Rightarrow> bytes \<Rightarrow> bytes option" where
  "check_shard X r e = (case r of Inr b \<Rightarrow> if blake3 X b = e then Some b else None | Inl x \<Rightarrow> None)"

definition read_data_shards :: "libs \<Rightarrow> fs \<Rightarrow> path \<Rightarrow> bytes list \<Rightarrow> bytes option list" where
  "read_data_shards X f dir expected =
     map (\<lambda>i. check_shard X (fs_read f (child dir (shard_name i))) (expected ! i)) [0..<DATA_SHARDS]"

text \<open>The \<open>i\<close>-th parity shard of the parity file; the offsets are computed in 64 bits, and a
  slice whose start exceeds its end panics.\<close>

definition parity_slice :: "bytes \<Rightarrow> u64 \<Rightarrow> nat \<Rightarrow> error + bytes option" where
  "parity_slice par sz i =
     (let start = of_nat PARITY_HEADER_LEN + of_nat i * sz; stop = start + sz in
      if unat stop \<le> length par
      then if stop < start then Inl Panic
           else Inr (Some (take (unat stop - unat start) (drop (unat start) par)))
      else Inr None)"

fun read_parity_shards :: "libs \<Rightarrow> bytes \<Rightarrow> u64 \<Rightarrow> bytes list \<Rightarrow> nat list \<Rightarrow> error + bytes option list" where
  "read_parity_shards X par sz expected [] = Inr []"
| "read_parity_shards X par sz expected (i # is) =
     bindE (parity_slice par sz i) (\<lambda>s.
     bindE (read_parity_shards X par sz expected is) (\<lambda>rest.
       Inr ((case s of Some b \<Rightarrow> check_shard X (Inr b) (expected ! (DATA_SHARDS + i)) | None \<Rightarrow> None) # rest)))"

definition verify_object :: "libs \<Rightarrow> object_store \<Rightarrow> string \<Rightarrow> bool \<Rightarrow> (fs, repair_outcome) step" where
  "verify_object X s hash repair f =
     (case map_of (object_index s) hash of
        None \<Rightarrow> (Inl (Failure (''Object '' @ hash @ '' not found in store'')), f)
      | Some (Sharded dir osz) \<Rightarrow>
         (case fs_read f (child (parity_dir s) hash) of
            Inl e \<Rightarrow> (Inl (Failure (''cannot read parity file for '' @ hash @ '' (missing header)'')), f)
          | Inr par \<Rightarrow>
             if length par < PARITY_HEADER_LEN then (Inl (Failure (''truncated parity header for '' @ hash)), f)
             else
               let sz = u64_from_le (take 8 (drop 8 par));
                   expected = expected_hashes par;
                   ds = read_data_shards X f dir expected
               in case read_parity_shards X par sz expected [0..<PARITY_SHARDS] of
                    Inl e \<Rightarrow> (Inl e, f)
                  | Inr ps \<Rightarrow>
                     let corrupted = missing (ds @ ps) in
                     if corrupted = 0 then (Inr Healthy, f)
                     else if \<not> repair then (Inr Corrupted, f)
                     else if corrupted > PARITY_SHARDS then (Inr Unrecoverable, f)
                     else
                       bindS (liftS (ErasureCodec_new X)) (\<lambda>_.
                       bindS (liftS (reconstruct X ds ps (unat sz))) (\<lambda>(data, parity).
                       bindS (write_shards dir 0 data) (\<lambda>_.
                       bindS (fs_write (child (parity_dir s) hash)
                                (take PARITY_HEADER_LEN par @ concat parity)) (\<lambda>_.
                       returnS Repaired)))) f)
      | Some loc \<Rightarrow> (Inr Unrecoverable, f))"

section \<open>Opening a store\<close>

definition read_parity_header :: "fs \<Rightarrow> path \<Rightarrow> error + (u64 \<times> u64)" where
  "read_parity_header f p =
     bindE (fs_read f p) (\<lambda>par.
       if length par < PARITY_HEADER_LEN then Inl (Failure ''parity file too short'')
       else Inr (u64_from_le (take 8 par), u64_from_le (take 8 (drop 8 par))))"

text \<open>\<open>trim_start_matches("h_")\<close> and \<open>trim_end_matches(".idx")\<close> remove every occurrence at
  that end.\<close>

function trim_start :: "string \<Rightarrow> string \<Rightarrow> string" where
  "trim_start pat s =
     (if pat \<noteq> [] \<and> take (length pat) s = pat \<and> s \<noteq> [] then trim_start pat (drop (length pat) s) else s)"
  by pat_completeness auto
termination by (relation "measure (length \<circ> snd)") auto

declare trim_start.simps [simp del]

definition trim_end :: "string \<Rightarrow> string \<Rightarrow> string" where
  "trim_end pat s = rev (trim_start (rev pat) (rev s))"

definition ends_with :: "string \<Rightarrow> string \<Rightarrow> bool" where
  "ends_with suf s = (length suf \<le> length s \<and> drop (length s - length suf) s = suf)"

definition parse_pack_seq :: "string \<Rightarrow> u32 option" where
  "parse_pack_seq pack_id = map_option of_nat (parse_nat (2 ^ 32) (trim_start ''h_'' pack_id))"

text \<open>\<open>str::lines\<close>: pieces that end in a line feed, without it and a carriage return before it,
  and a last piece that does not, if it is not empty.\<close>

definition strip_cr :: "string \<Rightarrow> string" where
  "strip_cr s = (if s \<noteq> [] \<and> last s = CHR 0x0D then butlast s else s)"

definition str_lines :: "string \<Rightarrow> string list" where
  "str_lines s =
     (let ps = split_on (CHR 0x0A) s in
      map strip_cr (butlast ps) @ (if last ps = [] then [] else [last ps]))"

text \<open>\<open>splitn(3, ' ')\<close> of a line that gives three parts; the last part keeps its spaces.\<close>

definition split3 :: "string \<Rightarrow> (string \<times> string \<times> string) option" where
  "split3 line =
     (case split_on (CHR '' '') line of
        a # b # c # rest \<Rightarrow> Some (a, b, drop (length a + length b + 2) line)
      | _ \<Rightarrow> None)"

definition parse_u64_or_0 :: "string \<Rightarrow> u64" where
  "parse_u64_or_0 s = (case parse_nat (2 ^ 64) s of Some n \<Rightarrow> of_nat n | None \<Rightarrow> 0)"

definition load_line :: "string \<Rightarrow> string \<Rightarrow> object_store \<Rightarrow> object_store" where
  "load_line pack_id line s =
     (case split3 line of
        None \<Rightarrow> s
      | Some (hash, o_str, n_str) \<Rightarrow>
          let off = parse_u64_or_0 o_str; sz = parse_u64_or_0 n_str in
          s\<lparr>total_bytes := total_bytes s + sz, total_raw_bytes := total_raw_bytes s + sz,
            object_index := put hash (Packfile pack_id off sz) (object_index s)\<rparr>)"

text \<open>The name of a directory entry; one that is not UTF-8 counts as empty.\<close>

definition entry_name :: "string \<Rightarrow> string" where
  "entry_name n = (if utf8_valid (bytes_of n) then n else [])"

definition load_object :: "fs \<Rightarrow> string \<Rightarrow> object_store \<Rightarrow> object_store" where
  "load_object f name s =
     (let p = objects_dir s @ [name]; hash = entry_name name in
      if hash = [] then s
      else if is_dir f p then
        (case read_parity_header f (child (parity_dir s) hash) of
           Inr (original, shard) \<Rightarrow>
             s\<lparr>total_bytes := total_bytes s + (of_nat (DATA_SHARDS + PARITY_SHARDS) * shard + of_nat PARITY_HEADER_LEN),
               total_raw_bytes := total_raw_bytes s + original,
               object_index := put hash (Sharded p original) (object_index s)\<rparr>
         | Inl e \<Rightarrow> s)
      else if is_file f p then
        s\<lparr>total_bytes := total_bytes s + of_nat (file_len f p),
          total_raw_bytes := total_raw_bytes s + of_nat (file_len f p),
          object_index := put hash (Individual p) (object_index s)\<rparr>
      else s)"

definition load_pack :: "fs \<Rightarrow> string \<Rightarrow> object_store \<Rightarrow> error + object_store" where
  "load_pack f file_name s =
     (let name = entry_name file_name in
      if ends_with ''.idx'' name then
        let pack_id = trim_end ''.idx'' name in
        bindE (if fs_exists f (child (packfile_dir s) (pack_id @ ''.pack'')) then
                 bindE (fs_read_to_string f (packfile_dir s @ [file_name])) (\<lambda>idx_data.
                 Inr (fold (load_line pack_id) (str_lines idx_data) s))
               else Inr s) (\<lambda>s'.
        Inr (case parse_pack_seq pack_id of
               Some seq \<Rightarrow> s'\<lparr>next_pack_id := max (next_pack_id s') (seq + 1)\<rparr>
             | None \<Rightarrow> s'))
      else Inr s)"

fun load_packs :: "fs \<Rightarrow> string list \<Rightarrow> object_store \<Rightarrow> error + object_store" where
  "load_packs f [] s = Inr s"
| "load_packs f (n # ns) s = bindE (load_pack f n s) (load_packs f ns)"

definition load_index :: "fs \<Rightarrow> object_store \<Rightarrow> error + object_store" where
  "load_index f s =
     bindE (if fs_exists f (objects_dir s)
            then bindE (read_dir f (objects_dir s)) (\<lambda>names. Inr (fold (load_object f) names s))
            else Inr s) (\<lambda>s1.
     if fs_exists f (packfile_dir s1)
     then bindE (read_dir f (packfile_dir s1)) (\<lambda>names. load_packs f names s1)
     else Inr s1)"

definition ObjectStore_new :: "path \<Rightarrow> bool \<Rightarrow> u64 \<Rightarrow> (fs, object_store) step" where
  "ObjectStore_new root ec mb =
     (let objs = child root ''objects''; packs = child root ''packfiles''; par = child packs ''parity'' in
      bindS (create_dir_all objs) (\<lambda>_.
      bindS (create_dir_all packs) (\<lambda>_.
      bindS (create_dir_all par) (\<lambda>_.
      readS (\<lambda>f. load_index f \<lparr>objects_dir = objs, packfile_dir = packs, parity_dir = par,
        erasure_enabled = ec, max_packfile_size_mb = mb, object_index = [], next_pack_id = 1,
        total_bytes = 0, total_raw_bytes = 0\<rparr>)))))"

section \<open>Paths of the store\<close>

text \<open>A name that is one path component.\<close>

definition plain :: "string \<Rightarrow> bool" where
  "plain n = (n \<noteq> [] \<and> CHR ''/'' \<notin> set n \<and> n \<noteq> ''.'')"

lemma split_on_none: "c \<notin> set s \<Longrightarrow> split_on c s = [s]"
  by (induction s) auto

lemma child_plain: "plain n \<Longrightarrow> child dir n = dir @ [n]"
  by (cases n) (auto simp: child_def path_of_def plain_def split_on_none join_def is_absolute_def)

lemma digit_not_slash: "CHR ''/'' \<notin> set (show_nat n)" "CHR ''/'' \<notin> set (show_padded w n)"
  using show_nat_digits [of "CHR ''/''" n] show_padded_digits [of "CHR ''/''" w n] by auto

lemma child_shard [simp]: "child dir (shard_name i) = dir @ [shard_name i]"
  by (rule child_plain) (simp add: plain_def shard_name_def digit_not_slash)

lemma child_pack [simp]: "child dir (pack_name n @ ''.pack'') = dir @ [pack_name n @ ''.pack'']"
  by (rule child_plain) (simp add: plain_def pack_name_def digit_not_slash)

lemma child_idx [simp]: "child dir (pack_name n @ ''.idx'') = dir @ [pack_name n @ ''.idx'']"
  by (rule child_plain) (simp add: plain_def pack_name_def digit_not_slash)

lemma show_nat_inj: "show_nat m = show_nat n \<longleftrightarrow> m = n"
  by (metis parse_digits_show option.inject)

lemma shard_name_inj: "shard_name i = shard_name j \<longleftrightarrow> i = j"
  by (simp add: shard_name_def show_nat_inj)

lemma trim_start_none: "take (length pat) s \<noteq> pat \<Longrightarrow> trim_start pat s = s"
  by (simp add: trim_start.simps [of pat s])

lemma parse_pack_seq_name: "parse_pack_seq (pack_name n) = Some n"
proof -
  have "CHR ''h'' \<notin> set (show_padded 5 (unat n))"
    using show_padded_digits [of "CHR ''h''" 5 "unat n"] by auto
  then have "take 2 (show_padded 5 (unat n)) \<noteq> ''h_''"
    by (metis in_set_takeD list.set_intros(1))
  then have "trim_start ''h_'' (show_padded 5 (unat n)) = show_padded 5 (unat n)"
    by (intro trim_start_none) (simp add: numeral_2_eq_2)
  then have "trim_start ''h_'' (pack_name n) = show_padded 5 (unat n)"
    by (simp add: pack_name_def trim_start.simps [of "''h_''" "CHR ''h'' # _"])
  moreover have "unat n < 2 ^ 32" using unsigned_less [of n] by simp
  ultimately show ?thesis by (simp add: parse_pack_seq_def codec_simps)
qed

lemma pack_name_inj: "pack_name m = pack_name n \<longleftrightarrow> m = n"
  by (metis parse_pack_seq_name option.inject)

definition layout :: "object_store \<Rightarrow> bool" where
  "layout s = (\<exists>root. objects_dir s = root @ [''objects''] \<and> packfile_dir s = root @ [''packfiles''] \<and>
                 parity_dir s = root @ [''packfiles'', ''parity''])"

definition loc_ok :: "object_store \<Rightarrow> string \<Rightarrow> object_location \<Rightarrow> bool" where
  "loc_ok s h loc = (plain h \<and> (case loc of
       Individual p \<Rightarrow> p = objects_dir s @ [h]
     | Sharded dir n \<Rightarrow> dir = objects_dir s @ [h]
     | Packfile i off n \<Rightarrow> \<exists>k < next_pack_id s. i = pack_name k))"

text \<open>The invariant of the store: where an object is kept is determined by its hash, and packed
  objects are in packs with a number below the next one.\<close>

definition store_inv :: "object_store \<Rightarrow> bool" where
  "store_inv s = (layout s \<and> distinct (map fst (object_index s)) \<and>
     (\<forall>h loc. map_of (object_index s) h = Some loc \<longrightarrow> loc_ok s h loc))"

text \<open>The files an object is read from.\<close>

definition files_of :: "object_store \<Rightarrow> object_location \<Rightarrow> path set" where
  "files_of s loc = (case loc of
       Individual p \<Rightarrow> {p}
     | Sharded dir n \<Rightarrow> {dir @ [shard_name i] | i. i < 8}
     | Packfile i off n \<Rightarrow> {child (packfile_dir s) (i @ ''.pack'')})"

lemma read_shards_cong:
  "(\<And>i. i \<in> set is \<Longrightarrow> fs_read f (dir @ [shard_name i]) = fs_read g (dir @ [shard_name i])) \<Longrightarrow>
   read_shards h f dir is = read_shards h g dir is"
  by (induction "is") (auto split: sum.splits)

lemma read_object_cong:
  assumes "map_of (object_index s) h = map_of (object_index t) h" and "packfile_dir s = packfile_dir t"
    and "\<And>loc p. map_of (object_index s) h = Some loc \<Longrightarrow> p \<in> files_of s loc \<Longrightarrow> fs_read f p = fs_read g p"
  shows "read_object s f h = read_object t g h"
proof (cases "map_of (object_index s) h")
  case (Some loc)
  then have st: "map_of (object_index t) h = Some loc" using assms(1) by simp
  have eq: "fs_read f p = fs_read g p" if "p \<in> files_of s loc" for p
    by (rule assms(3) [OF Some that])
  show ?thesis
  proof (cases loc)
    case (Sharded dir n)
    have "read_shards h f dir [0..<8] = read_shards h g dir [0..<8]"
      by (rule read_shards_cong) (use eq Sharded in \<open>auto simp: files_of_def\<close>)
    with Sharded show ?thesis by (simp add: read_object_def Some st)
  qed (use eq in \<open>simp_all add: read_object_def Some st files_of_def read_range_def assms(2)\<close>)
qed (use assms(1) in \<open>simp add: read_object_def\<close>)

section \<open>File system steps\<close>

lemma fs_read_remove_loose:
  "q \<notin> (\<lambda>(h, p, n). p) ` set objs \<Longrightarrow> fs_read (remove_loose objs f) q = fs_read f q"
  by (induction objs f rule: remove_loose.induct) (auto simp: fs_read_remove_file)

lemma write_shards_frame:
  "write_shards dir i bs f = (r, f') \<Longrightarrow> (\<And>j. q \<noteq> dir @ [shard_name j]) \<Longrightarrow> fs_read f' q = fs_read f q"
proof (induction bs arbitrary: i f)
  case (Cons b bs)
  obtain r1 f1 where 1: "fs_write (dir @ [shard_name i]) b f = (r1, f1)" by fastforce
  show ?case
  proof (cases r1)
    case (Inl e)
    with 1 Cons.prems show ?thesis by (auto simp: fs_write_def split: if_splits)
  next
    case (Inr u)
    with 1 have "fs_read f1 q = fs_read f q" using Cons.prems(2) by (simp add: fs_read_write)
    with Cons.IH [of "Suc i" f1] Cons.prems 1 Inr show ?thesis by simp
  qed
qed simp

lemma write_shards_get:
  "write_shards dir i bs f = (Inr (), f') \<Longrightarrow> j < length bs \<Longrightarrow>
   fs_read f' (dir @ [shard_name (i + j)]) = Inr (bs ! j)"
proof (induction bs arbitrary: i j f)
  case (Cons b bs)
  obtain f1 where 1: "fs_write (dir @ [shard_name i]) b f = (Inr (), f1)"
    and 2: "write_shards dir (Suc i) bs f1 = (Inr (), f')"
    using Cons.prems(1) by (auto simp: bindS_Inr_iff)
  have 3: "fs_read f1 (dir @ [shard_name i]) = Inr b" using 1 by (simp add: fs_read_write)
  show ?case
  proof (cases j)
    case 0
    have "fs_read f2 (dir @ [shard_name i]) = fs_read f1 (dir @ [shard_name i])"
      if "write_shards dir k bs f1 = (Inr (), f2)" "i < k" for k f1 f2
      using that
    proof (induction bs arbitrary: k f1)
      case (Cons c cs)
      then obtain g where g: "fs_write (dir @ [shard_name k]) c f1 = (Inr (), g)"
        "write_shards dir (Suc k) cs g = (Inr (), f2)" by (auto simp: bindS_Inr_iff)
      with Cons show ?case by (simp add: fs_read_write shard_name_inj)
    qed simp
    from this [OF 2] 3 0 show ?thesis by simp
  next
    case (Suc k)
    with Cons.IH [OF 2, of k] Cons.prems(2) show ?thesis by simp
  qed
qed simp

section \<open>Sealing keeps every object\<close>

fun entries_of :: "nat \<Rightarrow> string list \<Rightarrow> bytes list \<Rightarrow> packfile_entry list" where
  "entries_of off (h # hs) (d # ds) =
     \<lparr>entry_hash = h, entry_offset = of_nat off, entry_size = of_nat (length d)\<rparr> #
     entries_of (off + length d) hs ds"
| "entries_of off _ _ = []"

lemma pack_objects_result:
  assumes "pack_objects X objs w f = (Inr w', f')"
    and "fs_read f (writer_path w) = Inr c" and "bytes_written w = of_nat (length c)"
    and "\<And>h p n. (h, p, n) \<in> set objs \<Longrightarrow> p \<noteq> writer_path w"
  shows "\<exists>ds. list_all2 (\<lambda>(h, p, n) d. fs_read f p = Inr d) objs ds \<and>
     fs_read f' (writer_path w) = Inr (c @ concat ds) \<and>
     (\<forall>q. q \<noteq> writer_path w \<longrightarrow> fs_read f' q = fs_read f q) \<and>
     writer_index w' = writer_index w @ entries_of (length c) (map fst objs) ds \<and>
     writer_path w' = writer_path w \<and> writer_pack_id w' = writer_pack_id w"
  using assms
proof (induction X objs w arbitrary: f c rule: pack_objects.induct)
  case (1 X w)
  then show ?case by auto
next
  case (2 X h p n objs w)
  from "2.prems"(1) obtain d w1 f1 where
    d: "fs_read f p = Inr d" and w1: "writer_write_object X w h d f = (Inr w1, f1)"
    and rest: "pack_objects X objs w1 f1 = (Inr w', f')"
    by (auto simp: bindS_Inr_iff)
  from w1 have app: "fs_append (writer_path w) d f = (Inr (), f1)"
    and w1_eq: "w1 = w\<lparr>crc := crc32c_append X (crc w) d, bytes_written := bytes_written w + of_nat (length d),
       writer_index := writer_index w @
         [\<lparr>entry_hash = h, entry_offset = bytes_written w, entry_size = of_nat (length d)\<rparr>]\<rparr>"
    by (auto simp: writer_write_object_def bindS_Inr_iff)
  from app "2.prems"(2) have f1: "\<And>q. fs_read f1 q = (if q = writer_path w then Inr (c @ d) else fs_read f q)"
    by (auto elim: fs_read_append)
  have "\<exists>ds. list_all2 (\<lambda>(h, p, n) d. fs_read f1 p = Inr d) objs ds \<and>
     fs_read f' (writer_path w1) = Inr ((c @ d) @ concat ds) \<and>
     (\<forall>q. q \<noteq> writer_path w1 \<longrightarrow> fs_read f' q = fs_read f1 q) \<and>
     writer_index w' = writer_index w1 @ entries_of (length (c @ d)) (map fst objs) ds \<and>
     writer_path w' = writer_path w1 \<and> writer_pack_id w' = writer_pack_id w1"
    by (rule "2.IH" [OF rest]) (use "2.prems" f1 w1_eq in \<open>auto\<close>)
  then obtain ds where ds: "list_all2 (\<lambda>(h, p, n) d. fs_read f1 p = Inr d) objs ds"
    "fs_read f' (writer_path w) = Inr (c @ d @ concat ds)"
    "\<forall>q. q \<noteq> writer_path w \<longrightarrow> fs_read f' q = fs_read f1 q"
    "writer_index w' = writer_index w1 @ entries_of (length c + length d) (map fst objs) ds"
    "writer_path w' = writer_path w" "writer_pack_id w' = writer_pack_id w"
    by (auto simp: w1_eq)
  have "list_all2 (\<lambda>(h, p, n) d. fs_read f p = Inr d) objs ds"
    by (rule list.rel_mono_strong [OF ds(1)]) (use "2.prems"(4) f1 in \<open>fastforce split: if_splits\<close>)
  then show ?case using d ds f1 "2.prems"(3) by (intro exI [of _ "d # ds"]) (simp add: w1_eq)
qed

definition add_entry :: "string \<Rightarrow> packfile_entry \<Rightarrow> (string \<times> object_location) list \<Rightarrow> (string \<times> object_location) list" where
  "add_entry pid e idx = put (entry_hash e) (Packfile pid (entry_offset e) (entry_size e)) idx"

lemma fold_entries_other:
  "h \<notin> set hs \<Longrightarrow> map_of (fold (add_entry pid) (entries_of off hs ds) idx) h = map_of idx h"
  by (induction off hs ds arbitrary: idx rule: entries_of.induct) (auto simp: add_entry_def)

lemma fold_entries_distinct:
  "distinct (map fst idx) \<Longrightarrow> distinct (map fst (fold (add_entry pid) es idx))"
  by (induction es arbitrary: idx) (simp_all add: add_entry_def)

lemma fold_entries_get:
  "distinct hs \<Longrightarrow> length hs = length ds \<Longrightarrow> i < length hs \<Longrightarrow>
   map_of (fold (add_entry pid) (entries_of off hs ds) idx) (hs ! i) =
     Some (Packfile pid (of_nat (off + length (concat (take i ds)))) (of_nat (length (ds ! i))))"
proof (induction off hs ds arbitrary: idx i rule: entries_of.induct)
  case (1 off h hs d ds)
  show ?case
  proof (cases i)
    case 0
    with 1 show ?thesis by (simp add: fold_entries_other) (simp add: add_entry_def)
  next
    case (Suc j)
    with 1 show ?thesis by (simp add: add.assoc)
  qed
qed simp_all

lemma read_range_concat:
  assumes "fs_read f p = Inr (concat ds @ rest)" and "i < length ds" and "length (concat ds) < 2 ^ 64"
  shows "read_range f p (unat (of_nat (length (concat (take i ds))) :: u64)) (unat (of_nat (length (ds ! i)) :: u64))
    = Inr (ds ! i)"
proof -
  have split: "concat ds = concat (take i ds) @ ds ! i @ concat (drop (Suc i) ds)"
    using id_take_nth_drop [OF assms(2)] by (metis concat.simps(2) concat_append)
  then have "length (concat (take i ds)) < 2 ^ 64" "length (ds ! i) < 2 ^ 64"
    using assms(3) by simp_all
  then have "unat (of_nat (length (concat (take i ds))) :: u64) = length (concat (take i ds))"
    "unat (of_nat (length (ds ! i)) :: u64) = length (ds ! i)"
    by (simp_all add: unat_of_nat)
  then show ?thesis using assms(1) by (simp add: read_range_def split)
qed

definition loose_bytes :: "object_store \<Rightarrow> fs \<Rightarrow> nat" where
  "loose_bytes s f = sum_list (map (\<lambda>(h, p, n). file_len f p) (individuals f (object_index s)))"

lemma set_individuals:
  "set (individuals f idx) = {(h, p, of_nat (file_len f p)) | h p. (h, Individual p) \<in> set idx}"
  by (induction f idx rule: individuals.induct) auto

lemma individuals_names: "distinct (map fst idx) \<Longrightarrow> distinct (map fst (individuals f idx))"
  by (induction f idx rule: individuals.induct) (auto simp: set_individuals image_iff)

lemma length_concat_read:
  "list_all2 (\<lambda>(h, p, n) d. fs_read f p = Inr d) objs ds \<Longrightarrow>
   length (concat ds) = sum_list (map (\<lambda>(h, p, n). file_len f p) objs)"
  by (induction rule: list_all2_induct) (auto simp: file_len_def dest!: fs_read_InrD)

lemma on_fs_Inr:
  "bindS (on_fs m) k (s, f) = (Inr y, z) \<longleftrightarrow> (\<exists>x f'. m f = (Inr x, f') \<and> k x (s, f') = (Inr y, z))"
  by (auto simp: bindS_Inr_iff on_fs_def split: prod.splits)

lemma modify_bind [simp]: "bindS (modify g) k (s, f) = k () (g s, f)"
  by (simp add: bindS_def modify_def)

lemma on_fs_last: "on_fs m (s, f) = (Inr y, z) \<longleftrightarrow> (\<exists>f'. m f = (Inr y, f') \<and> z = (s, f'))"
  by (auto simp: on_fs_def split: prod.splits)

lemma seal_packfile_steps:
  assumes "seal_packfile X objs (s, f) = (Inr (), (s', f'))"
  defines "P \<equiv> packfile_dir s @ [pack_name (next_pack_id s) @ ''.pack'']"
    and "I \<equiv> packfile_dir s @ [pack_name (next_pack_id s) @ ''.idx'']"
  obtains f1 w w' f2 f2' f3 where "fs_write P [] f = (Inr (), f1)"
    "w = \<lparr>writer_pack_id = pack_name (next_pack_id s), writer_path = P, bytes_written = 0,
          writer_max_size = max_packfile_size_mb s * 1024 * 1024, writer_index = [], crc = 0\<rparr>"
    "pack_objects X objs w f1 = (Inr w', f2)"
    "fs_append (writer_path w') (u32_to_le (crc w')) f2 = (Inr (), f2')"
    "fs_write (child (packfile_dir s) (writer_pack_id w' @ ''.idx''))
       (bytes_of (concat (map idx_line (writer_index w')))) f2' = (Inr (), f3)"
    "s' = add_entries (pack_name (next_pack_id s)) (writer_index w') (s\<lparr>next_pack_id := next_pack_id s + 1\<rparr>)"
    "f' = remove_loose objs f3"
proof -
  have "\<exists>f1 w' f2 f2' f3. fs_write P [] f = (Inr (), f1) \<and>
    pack_objects X objs \<lparr>writer_pack_id = pack_name (next_pack_id s), writer_path = P, bytes_written = 0,
          writer_max_size = max_packfile_size_mb s * 1024 * 1024, writer_index = [], crc = 0\<rparr> f1 = (Inr w', f2) \<and>
    fs_append (writer_path w') (u32_to_le (crc w')) f2 = (Inr (), f2') \<and>
    fs_write (child (packfile_dir s) (writer_pack_id w' @ ''.idx''))
       (bytes_of (concat (map idx_line (writer_index w')))) f2' = (Inr (), f3) \<and>
    s' = add_entries (pack_name (next_pack_id s)) (writer_index w') (s\<lparr>next_pack_id := next_pack_id s + 1\<rparr>) \<and>
    f' = remove_loose objs f3"
    using assms(1)
    by (simp add: seal_packfile_def Let_def on_fs_Inr on_fs_last PackfileWriter_new_def seal_def P_def I_def
        bindS_Inr_iff [of "fs_write _ _"] bindS_Inr_iff [of "fs_append _ _"] del: split_paired_Ex) blast
  then show ?thesis using that by blast
qed

lemma seal_packfile_result:
  assumes "seal_packfile X objs (s, f) = (Inr (), (s', f'))"
    and objs: "list_all (\<lambda>(h, p, n). p = objects_dir s @ [h]) objs"
    and "layout s"
  defines "P \<equiv> packfile_dir s @ [pack_name (next_pack_id s) @ ''.pack'']"
    and "I \<equiv> packfile_dir s @ [pack_name (next_pack_id s) @ ''.idx'']"
  shows "\<exists>ds c. list_all2 (\<lambda>(h, p, n) d. fs_read f p = Inr d) objs ds \<and>
     fs_read f' P = Inr (concat ds @ c) \<and>
     (\<forall>q. q \<noteq> P \<and> q \<noteq> I \<and> q \<notin> (\<lambda>(h, p, n). p) ` set objs \<longrightarrow> fs_read f' q = fs_read f q) \<and>
     s' = s\<lparr>next_pack_id := next_pack_id s + 1, object_index :=
        fold (add_entry (pack_name (next_pack_id s))) (entries_of 0 (map fst objs) ds) (object_index s)\<rparr>"
proof -
  from assms(1) obtain f1 w w' f2 f2' f3 where
    1: "fs_write P [] f = (Inr (), f1)" and
    w: "w = \<lparr>writer_pack_id = pack_name (next_pack_id s), writer_path = P, bytes_written = 0,
          writer_max_size = max_packfile_size_mb s * 1024 * 1024, writer_index = [], crc = 0\<rparr>" and
    2: "pack_objects X objs w f1 = (Inr w', f2)" and
    3: "fs_append (writer_path w') (u32_to_le (crc w')) f2 = (Inr (), f2')" and
    4: "fs_write (child (packfile_dir s) (writer_pack_id w' @ ''.idx''))
       (bytes_of (concat (map idx_line (writer_index w')))) f2' = (Inr (), f3)" and
    s': "s' = add_entries (pack_name (next_pack_id s)) (writer_index w') (s\<lparr>next_pack_id := next_pack_id s + 1\<rparr>)" and
    f': "f' = remove_loose objs f3"
    unfolding P_def by (rule seal_packfile_steps)
  obtain root where root: "objects_dir s = root @ [''objects'']" "packfile_dir s = root @ [''packfiles'']"
    using assms(3) by (auto simp: layout_def)
  have ne: "p \<noteq> P \<and> p \<noteq> I" if "(h, p, n) \<in> set objs" for h p n
    using objs that by (auto simp: P_def I_def root list_all_iff)
  have PI: "P \<noteq> I" by (simp add: P_def I_def)
  have r1: "fs_read f1 q = (if q = P then Inr [] else fs_read f q)" for q
    using fs_read_write [OF 1] by simp
  have "fs_read f1 (writer_path w) = Inr []" "bytes_written w = of_nat (length ([] :: bytes))"
    by (simp_all add: w r1)
  from pack_objects_result [OF 2 this] ne obtain ds where
    ds: "list_all2 (\<lambda>(h, p, n) d. fs_read f1 p = Inr d) objs ds" "fs_read f2 P = Inr (concat ds)"
    "\<forall>q. q \<noteq> P \<longrightarrow> fs_read f2 q = fs_read f1 q"
    "writer_index w' = entries_of 0 (map fst objs) ds" "writer_path w' = P"
    "writer_pack_id w' = pack_name (next_pack_id s)"
    by (fastforce simp: w)
  from 3 ds(2,5) have r2: "fs_read f2' q = (if q = P then Inr (concat ds @ u32_to_le (crc w')) else fs_read f2 q)" for q
    by (auto elim: fs_read_append)
  have "fs_read f3 q = (if q = I then Inr (bytes_of (concat (map idx_line (writer_index w')))) else fs_read f2' q)" for q
    using fs_read_write [OF 4, of q] by (simp add: ds(6) I_def)
  then have r3: "fs_read f' q = (if q = P then Inr (concat ds @ u32_to_le (crc w')) else fs_read f q)"
    if "q \<noteq> I" "q \<notin> (\<lambda>(h, p, n). p) ` set objs" for q
    using that r2 [of q] ds(3) r1 [of q] by (simp add: f' fs_read_remove_loose)
  have "P \<notin> (\<lambda>(h, p, n). p) ` set objs" using ne by fastforce
  then have "fs_read f' P = Inr (concat ds @ u32_to_le (crc w'))" using r3 [OF PI] by simp
  moreover have "list_all2 (\<lambda>(h, p, n) d. fs_read f p = Inr d) objs ds"
    by (rule list.rel_mono_strong [OF ds(1)]) (use ne r1 in \<open>auto split: if_splits\<close>)
  moreover have "s' = s\<lparr>next_pack_id := next_pack_id s + 1, object_index :=
        fold (add_entry (pack_name (next_pack_id s))) (entries_of 0 (map fst objs) ds) (object_index s)\<rparr>"
    by (simp add: s' add_entries_def ds(4) add_entry_def [abs_def])
  ultimately show ?thesis using r3 by (intro exI [of _ ds] exI [of _ "u32_to_le (crc w')"]) auto
qed


lemma store_invD:
  assumes "store_inv s"
  shows "layout s" "distinct (map fst (object_index s))"
    "map_of (object_index s) h = Some loc \<Longrightarrow> loc_ok s h loc"
  using assms by (simp_all add: store_inv_def)

lemma files_of_cases:
  assumes "loc_ok s h loc" and "p \<in> files_of s loc"
  obtains "p = objects_dir s @ [h]" "\<And>d n. loc \<noteq> Sharded d n"
  | i where "p = objects_dir s @ [h, shard_name i]" "\<exists>d n. loc = Sharded d n"
  | k where "p = packfile_dir s @ [pack_name k @ ''.pack'']" "k < next_pack_id s" "\<And>q. loc \<noteq> Individual q"
  using assms by (cases loc) (auto simp: loc_ok_def files_of_def)

lemma individuals_of:
  assumes "store_inv s" and "(h, p, n) \<in> set (individuals f (object_index s))"
  shows "p = objects_dir s @ [h]" "map_of (object_index s) h = Some (Individual p)"
proof -
  show m: "map_of (object_index s) h = Some (Individual p)"
    using assms store_invD(2) [OF assms(1)] by (auto simp: set_individuals)
  show "p = objects_dir s @ [h]" using store_invD(3) [OF assms(1) m] by (simp add: loc_ok_def)
qed

lemma next_pack_less: "n \<noteq> - 1 \<Longrightarrow> k \<le> n \<Longrightarrow> k < n + 1" for k n :: u32
proof -
  assume "n \<noteq> - 1" "k \<le> n"
  then have "1 + n \<noteq> 0" by (metis add.commute eq_neg_iff_add_eq_0)
  then have "unat (1 + n) = Suc (unat n)" by (rule unatSuc)
  with \<open>k \<le> n\<close> show ?thesis by (simp add: word_less_nat_alt word_le_nat_alt add.commute)
qed

text \<open>The pack of a seal, and what a seal has done when it succeeds: the loose objects
  \<open>ds\<close> are in the pack one after the other, only the loose files, the pack and its index
  have changed, and the objects are indexed at their place in the pack.\<close>

definition pack_path :: "object_store \<Rightarrow> path" where
  "pack_path s = packfile_dir s @ [pack_name (next_pack_id s) @ ''.pack'']"

definition idx_path :: "object_store \<Rightarrow> path" where
  "idx_path s = packfile_dir s @ [pack_name (next_pack_id s) @ ''.idx'']"

definition loose_names :: "object_store \<Rightarrow> fs \<Rightarrow> string list" where
  "loose_names s f = map fst (individuals f (object_index s))"

definition sealed :: "object_store \<Rightarrow> fs \<Rightarrow> object_store \<Rightarrow> fs \<Rightarrow> bytes list \<Rightarrow> bool" where
  "sealed s f s' f' ds =
     (list_all2 (\<lambda>h d. read_object s f h = Inr d) (loose_names s f) ds \<and>
      length (concat ds) = loose_bytes s f \<and>
      (\<exists>c. fs_read f' (pack_path s) = Inr (concat ds @ c)) \<and>
      (\<forall>q. q \<noteq> pack_path s \<and> q \<noteq> idx_path s \<and> q \<notin> (\<lambda>h. objects_dir s @ [h]) ` set (loose_names s f) \<longrightarrow>
         fs_read f' q = fs_read f q) \<and>
      s' = s\<lparr>next_pack_id := next_pack_id s + 1, object_index :=
        fold (add_entry (pack_name (next_pack_id s))) (entries_of 0 (loose_names s f) ds) (object_index s)\<rparr>)"

lemma loose_names_iff:
  "store_inv s \<Longrightarrow> h \<in> set (loose_names s f) \<longleftrightarrow> map_of (object_index s) h = Some (Individual (objects_dir s @ [h]))"
proof
  assume inv: "store_inv s" and "h \<in> set (loose_names s f)"
  then obtain p n where "(h, p, n) \<in> set (individuals f (object_index s))" by (auto simp: loose_names_def)
  with individuals_of [OF inv this] show "map_of (object_index s) h = Some (Individual (objects_dir s @ [h]))" by simp
next
  assume "map_of (object_index s) h = Some (Individual (objects_dir s @ [h]))"
  then show "h \<in> set (loose_names s f)"
    by (force simp: loose_names_def set_individuals image_iff dest: map_of_SomeD)
qed

lemma sealed_intro:
  assumes inv: "store_inv s"
    and run: "seal_packfile X (individuals f (object_index s)) (s, f) = (Inr (), (s', f'))"
  shows "\<exists>ds. sealed s f s' f' ds"
proof -
  let ?objs = "individuals f (object_index s)"
  have paths: "(h, p, n) \<in> set ?objs \<Longrightarrow> p = objects_dir s @ [h]" for h p n
    by (rule individuals_of(1) [OF inv])
  then have "list_all (\<lambda>(h, p, n). p = objects_dir s @ [h]) ?objs" by (auto simp: list_all_iff)
  from seal_packfile_result [OF run this store_invD(1) [OF inv]] obtain ds c where
    ds: "list_all2 (\<lambda>(h, p, n) d. fs_read f p = Inr d) ?objs ds" and P: "fs_read f' (pack_path s) = Inr (concat ds @ c)"
    and frame: "\<forall>q. q \<noteq> pack_path s \<and> q \<noteq> idx_path s \<and> q \<notin> (\<lambda>(h, p, n). p) ` set ?objs \<longrightarrow> fs_read f' q = fs_read f q"
    and s': "s' = s\<lparr>next_pack_id := next_pack_id s + 1, object_index :=
        fold (add_entry (pack_name (next_pack_id s))) (entries_of 0 (loose_names s f) ds) (object_index s)\<rparr>"
    unfolding pack_path_def idx_path_def loose_names_def by blast
  have "list_all2 (\<lambda>x d. read_object s f (fst x) = Inr d) ?objs ds"
    by (rule list.rel_mono_strong [OF ds]) (auto simp: read_object_def dest: individuals_of(2) [OF inv])
  then have r: "list_all2 (\<lambda>h d. read_object s f h = Inr d) (loose_names s f) ds"
    by (simp add: loose_names_def list_all2_map1)
  have "(\<lambda>(h, p, n). p) ` set ?objs = (\<lambda>h. objects_dir s @ [h]) ` set (loose_names s f)"
    using paths by (force simp: loose_names_def image_image)
  with frame have fr: "\<forall>q. q \<noteq> pack_path s \<and> q \<noteq> idx_path s \<and>
      q \<notin> (\<lambda>h. objects_dir s @ [h]) ` set (loose_names s f) \<longrightarrow> fs_read f' q = fs_read f q" by simp
  have n: "length (concat ds) = loose_bytes s f"
    unfolding loose_bytes_def by (rule length_concat_read [OF ds])
  show ?thesis
    unfolding sealed_def by (intro exI [of _ ds] conjI exI [of _ c]; fact)
qed

lemma sealed_packed:
  assumes inv: "store_inv s" and room: "loose_bytes s f < 2 ^ 64"
    and sealed: "sealed s f s' f' ds" and h: "h \<in> set (loose_names s f)"
  shows "\<exists>off n. map_of (object_index s') h = Some (Packfile (pack_name (next_pack_id s)) off n)"
    and "read_object s' f' h = read_object s f h"
proof -
  let ?hs = "loose_names s f" and ?pid = "pack_name (next_pack_id s)"
  obtain c where ds: "list_all2 (\<lambda>h d. read_object s f h = Inr d) ?hs ds"
    and bound: "length (concat ds) < 2 ^ 64" and P: "fs_read f' (pack_path s) = Inr (concat ds @ c)"
    and s': "s' = s\<lparr>next_pack_id := next_pack_id s + 1, object_index :=
        fold (add_entry ?pid) (entries_of 0 ?hs ds) (object_index s)\<rparr>"
    using sealed room by (auto simp: sealed_def)
  have dist: "distinct ?hs"
    unfolding loose_names_def by (rule individuals_names) (rule store_invD [OF inv])
  have len: "length ?hs = length ds" using list_all2_lengthD [OF ds] .
  obtain i where i: "i < length ?hs" "h = ?hs ! i" using h by (metis in_set_conv_nth)
  have r: "read_object s f h = Inr (ds ! i)" using list_all2_nthD [OF ds i(1)] i(2) by simp
  have m: "map_of (object_index s') h =
      Some (Packfile ?pid (of_nat (length (concat (take i ds)))) (of_nat (length (ds ! i))))"
    using fold_entries_get [OF dist len i(1), of ?pid 0] i(2) by (simp add: s')
  then show "\<exists>off n. map_of (object_index s') h = Some (Packfile ?pid off n)" by blast
  have "i < length ds" using i len by simp
  from read_range_concat [OF P this bound] show "read_object s' f' h = read_object s f h"
    by (simp add: read_object_def [of s'] m r) (simp add: s' pack_path_def)
qed

lemma sealed_unpacked:
  assumes inv: "store_inv s" and sealed: "sealed s f s' f' ds" and h: "h \<notin> set (loose_names s f)"
  shows "map_of (object_index s') h = map_of (object_index s) h"
    and "read_object s' f' h = read_object s f h"
proof -
  obtain root where root: "objects_dir s = root @ [''objects'']" "packfile_dir s = root @ [''packfiles'']"
    using store_invD(1) [OF inv] by (auto simp: layout_def)
  show m: "map_of (object_index s') h = map_of (object_index s) h"
    using sealed h by (simp add: sealed_def fold_entries_other)
  have dirs: "packfile_dir s' = packfile_dir s" using sealed by (simp add: sealed_def)
  show "read_object s' f' h = read_object s f h"
  proof (rule read_object_cong [OF m dirs])
    fix loc p assume a: "map_of (object_index s') h = Some loc" "p \<in> files_of s' loc"
    have ms: "map_of (object_index s) h = Some loc" using a m by simp
    have "p \<in> files_of s loc" using a dirs by (simp add: files_of_def split: object_location.splits)
    with store_invD(3) [OF inv ms]
    have "p \<notin> (\<lambda>h. objects_dir s @ [h]) ` set (loose_names s f) \<and> p \<noteq> pack_path s \<and> p \<noteq> idx_path s"
      by (cases rule: files_of_cases) (use h in \<open>auto simp: root pack_path_def idx_path_def pack_name_inj\<close>)
    then show "fs_read f' p = fs_read f p" using sealed by (simp add: sealed_def)
  qed
qed

lemma sealed_inv:
  assumes inv: "store_inv s" and room: "loose_bytes s f < 2 ^ 64" "next_pack_id s \<noteq> - 1"
    and sealed: "sealed s f s' f' ds"
  shows "store_inv s'"
  unfolding store_inv_def
proof (intro conjI allI impI)
  have s': "s' = s\<lparr>next_pack_id := next_pack_id s + 1, object_index :=
        fold (add_entry (pack_name (next_pack_id s))) (entries_of 0 (loose_names s f) ds) (object_index s)\<rparr>"
    using sealed by (simp add: sealed_def)
  show "layout s'" using store_invD(1) [OF inv] by (simp add: layout_def s')
  show "distinct (map fst (object_index s'))"
    using store_invD(2) [OF inv] by (simp add: s' fold_entries_distinct)
  fix h loc assume a: "map_of (object_index s') h = Some loc"
  show "loc_ok s' h loc"
  proof (cases "h \<in> set (loose_names s f)")
    case True
    have "plain h" using True store_invD(3) [OF inv] by (simp add: loose_names_iff [OF inv] loc_ok_def)
    with sealed_packed(1) [OF inv room(1) sealed True] a show ?thesis
      using next_pack_less [OF room(2), of "next_pack_id s"] by (auto simp: loc_ok_def s')
  next
    case False
    with a sealed_unpacked(1) [OF inv sealed False] have "loc_ok s h loc" using store_invD(3) [OF inv] by simp
    then show ?thesis using next_pack_less [OF room(2)]
      by (cases loc) (auto simp: loc_ok_def s' pack_name_inj intro: less_imp_le)
  qed
qed

lemma seal_keeps_objects:
  assumes inv: "store_inv s" and room: "loose_bytes s f < 2 ^ 64" "next_pack_id s \<noteq> - 1"
    and run: "seal_packfile X (individuals f (object_index s)) (s, f) = (Inr (), (s', f'))"
  shows "store_inv s'" "read_object s' f' = read_object s f" "contains s' = contains s"
proof -
  obtain ds where sealed: "sealed s f s' f' ds" using sealed_intro [OF inv run] by blast
  show "store_inv s'" by (rule sealed_inv [OF inv room sealed])
  show "read_object s' f' = read_object s f"
    using sealed_packed(2) [OF inv room(1) sealed] sealed_unpacked(2) [OF inv sealed] by blast
  show "contains s' = contains s"
  proof
    fix h show "contains s' h = contains s h"
      using sealed_packed(1) [OF inv room(1) sealed, of h] sealed_unpacked(1) [OF inv sealed, of h]
        loose_names_iff [OF inv, of h f]
      by (cases "h \<in> set (loose_names s f)") (auto simp: contains_def simp del: not_None_eq)
  qed
qed

section \<open>Writing an object\<close>

lemma raw_bytes_irrelevant [simp]:
  "contains (s\<lparr>total_raw_bytes := n\<rparr>) = contains s"
  "store_inv (s\<lparr>total_raw_bytes := n\<rparr>) = store_inv s"
  "loose_bytes (s\<lparr>total_raw_bytes := n\<rparr>) f = loose_bytes s f"
  by (auto simp: contains_def store_inv_def layout_def loc_ok_def loose_bytes_def fun_eq_iff
      split: object_location.splits)

lemma raw_bytes_read [simp]: "read_object (s\<lparr>total_raw_bytes := n\<rparr>) f = read_object s f"
  by (rule ext, rule read_object_cong) simp_all

lemma individuals_fs:
  "individuals g idx = map (\<lambda>(h, p, n). (h, p, of_nat (file_len g p))) (individuals f idx)"
  by (induction f idx rule: individuals.induct) auto

text \<open>What a write of a new object leaves behind before the seal: one more index entry at the
  place for the hash, and no change in the files of other objects.\<close>

definition stored :: "object_store \<Rightarrow> fs \<Rightarrow> object_store \<Rightarrow> fs \<Rightarrow> string \<Rightarrow> object_location \<Rightarrow> bytes \<Rightarrow> bool" where
  "stored s f s1 f1 h loc d =
     ((\<exists>n. s1 = s\<lparr>total_bytes := n, object_index := put h loc (object_index s)\<rparr>) \<and>
      loc_ok s h loc \<and> read_object s1 f1 h = Inr d \<and>
      (\<forall>q. (\<forall>t. q \<noteq> objects_dir s @ h # t) \<and> q \<noteq> parity_dir s @ [h] \<longrightarrow>
         fs_read f1 q = fs_read f q \<and> file_len f1 q = file_len f q))"

lemma put_new: "h \<notin> fst ` set xs \<Longrightarrow> put h v xs = xs @ [(h, v)]"
  by (induction xs) auto

lemma individuals_append: "individuals f (xs @ ys) = individuals f xs @ individuals f ys"
  by (induction f xs rule: individuals.induct) auto

lemma stored_result:
  assumes inv: "store_inv s" and new: "\<not> contains s h" and st: "stored s f s1 f1 h loc d"
  shows "store_inv s1" "read_object s1 f1 = (read_object s f)(h := Inr d)"
    "contains s1 = (contains s)(h := True)"
    "loose_bytes s1 f1 = loose_bytes s f + (case loc of Individual p \<Rightarrow> file_len f1 p | _ \<Rightarrow> 0)"
proof -
  obtain n where s1: "s1 = s\<lparr>total_bytes := n, object_index := put h loc (object_index s)\<rparr>"
    using st by (auto simp: stored_def)
  obtain root where root: "objects_dir s = root @ [''objects'']" "packfile_dir s = root @ [''packfiles'']"
      "parity_dir s = root @ [''packfiles'', ''parity'']"
    using store_invD(1) [OF inv] by (auto simp: layout_def)
  have frame: "fs_read f1 q = fs_read f q" "file_len f1 q = file_len f q"
    if "\<And>t. q \<noteq> objects_dir s @ h # t" "q \<noteq> parity_dir s @ [h]" for q
    using st that by (simp_all add: stored_def)
  have lk: "loc_ok s1 h' loc' = loc_ok s h' loc'" for h' loc'
    by (simp add: s1 loc_ok_def split: object_location.splits)
  show "store_inv s1"
    using inv st unfolding store_inv_def lk by (auto simp: s1 stored_def layout_def)
  show "contains s1 = (contains s)(h := True)" by (auto simp: s1 contains_def fun_eq_iff)
  have "read_object s1 f1 h' = read_object s f h'" if ne: "h' \<noteq> h" for h'
  proof (rule read_object_cong)
    show m: "map_of (object_index s1) h' = map_of (object_index s) h'" using ne by (simp add: s1)
    show "packfile_dir s1 = packfile_dir s" by (simp add: s1)
    fix loc' p assume a: "map_of (object_index s1) h' = Some loc'" "p \<in> files_of s1 loc'"
    have "loc_ok s h' loc'" using a m store_invD(3) [OF inv] by simp
    moreover have "p \<in> files_of s loc'"
      using a(2) by (simp add: s1 files_of_def split: object_location.splits)
    ultimately have "(\<forall>t. p \<noteq> objects_dir s @ h # t) \<and> p \<noteq> parity_dir s @ [h]"
      by (cases rule: files_of_cases) (use ne in \<open>auto simp: root\<close>)
    then show "fs_read f1 p = fs_read f p" using frame by blast
  qed
  then show "read_object s1 f1 = (read_object s f)(h := Inr d)"
    using st by (auto simp: stored_def)
  have len: "file_len f1 p = file_len f p" if "(h', p, k) \<in> set (individuals f (object_index s))" for h' p k
  proof -
    have "p = objects_dir s @ [h']" "h' \<noteq> h"
      using individuals_of [OF inv that] new by (auto simp: contains_def)
    then show ?thesis by (intro frame) (auto simp: root)
  qed
  have "map (\<lambda>(h, p, k). file_len f1 p) (individuals f1 (object_index s)) =
      map (\<lambda>(h, p, k). file_len f p) (individuals f (object_index s))"
    using len by (auto simp: individuals_fs [of f1 _ f])
  moreover have "put h loc (object_index s) = object_index s @ [(h, loc)]"
    by (rule put_new) (use new in \<open>simp add: contains_def map_of_eq_None_iff\<close>)
  ultimately show "loose_bytes s1 f1 = loose_bytes s f + (case loc of Individual p \<Rightarrow> file_len f1 p | _ \<Rightarrow> 0)"
    by (simp add: loose_bytes_def s1 individuals_append split: object_location.splits)
qed

lemma stored_individual:
  assumes run: "write_individual_object h d (s, f) = (Inr (), (s1, f1))" and "plain h"
  shows "stored s f s1 f1 h (Individual (objects_dir s @ [h])) d" "file_len f1 (objects_dir s @ [h]) = length d"
proof -
  have w: "fs_write (objects_dir s @ [h]) d f = (Inr (), f1)"
    and s1: "s1 = s\<lparr>total_bytes := total_bytes s + of_nat (length d),
         object_index := put h (Individual (objects_dir s @ [h])) (object_index s)\<rparr>"
    using run by (auto simp: write_individual_object_def Let_def on_fs_Inr child_plain [OF assms(2)] modify_def)
  show "file_len f1 (objects_dir s @ [h]) = length d" by (simp add: file_len_write [OF w])
  show "stored s f s1 f1 h (Individual (objects_dir s @ [h])) d"
    using assms(2)
    by (auto simp: stored_def s1 loc_ok_def read_object_def fs_read_write [OF w] file_len_write [OF w])
qed

lemma write_shards_len:
  "write_shards dir i bs f = (Inr (), f') \<Longrightarrow> (\<And>j. q \<noteq> dir @ [shard_name j]) \<Longrightarrow> file_len f' q = file_len f q"
proof (induction bs arbitrary: i f)
  case (Cons b bs)
  then obtain f1 where 1: "fs_write (dir @ [shard_name i]) b f = (Inr (), f1)"
    "write_shards dir (Suc i) bs f1 = (Inr (), f')" by (auto simp: bindS_Inr_iff)
  then show ?case using Cons.IH [OF 1(2)] Cons.prems(2) by (simp add: file_len_write)
qed simp

lemma read_shards_all:
  "(\<And>j. j < length bs \<Longrightarrow> fs_read f (dir @ [shard_name (i + j)]) = Inr (bs ! j)) \<Longrightarrow>
   read_shards h f dir [i..<i + length bs] = Inr (concat bs)"
proof (induction bs arbitrary: i)
  case (Cons b bs)
  have "fs_read f (dir @ [shard_name i]) = Inr b" using Cons.prems [of 0] by simp
  moreover have "read_shards h f dir [Suc i..<Suc i + length bs] = Inr (concat bs)"
    using Cons.prems [of "Suc _"] by (intro Cons.IH) simp
  ultimately show ?case by (simp add: upt_conv_Cons del: upt_Suc)
qed simp

text \<open>A sharded write runs its steps in this order.\<close>

lemma write_sharded_steps:
  assumes "write_sharded_object X h d (s, f) = (Inr (), (s1, f1))" and "plain h"
  obtains enc g1 g2 n where "encode X d = Inr enc" "create_dir_all (objects_dir s @ [h]) f = (Inr (), g1)"
    "write_shards (objects_dir s @ [h]) 0 (data_shards enc) g1 = (Inr (), g2)"
    "fs_write (parity_dir s @ [h]) (parity_body X enc) g2 = (Inr (), f1)"
    "s1 = s\<lparr>total_bytes := n, object_index :=
        put h (Sharded (objects_dir s @ [h]) (of_nat (original_size enc))) (object_index s)\<rparr>"
  using assms(1)
  by (auto simp: write_sharded_object_def Let_def on_fs_Inr child_plain [OF assms(2)] modify_def
      bindS_Inr_iff [of "liftS _"] intro: that)

lemma stored_sharded:
  assumes laws: "rs_laws X" and run: "write_sharded_object X h d (s, f) = (Inr (), (s1, f1))"
    and "plain h" "layout s" "length d < 2 ^ 64"
  shows "\<exists>n. stored s f s1 f1 h (Sharded (objects_dir s @ [h]) n) d"
proof -
  let ?dir = "objects_dir s @ [h]"
  from write_sharded_steps [OF run assms(3)] obtain enc g1 g2 n where
    enc: "encode X d = Inr enc" and 1: "create_dir_all ?dir f = (Inr (), g1)" and
    2: "write_shards ?dir 0 (data_shards enc) g1 = (Inr (), g2)" and
    3: "fs_write (parity_dir s @ [h]) (parity_body X enc) g2 = (Inr (), f1)" and
    s1: "s1 = s\<lparr>total_bytes := n, object_index := put h (Sharded ?dir (of_nat (original_size enc))) (object_index s)\<rparr>"
    by metis
  have "d \<noteq> []" using enc by (auto simp: encode_def div_ceil_def)
  from encode_shards [OF laws this] enc have ds: "length (data_shards enc) = 8"
    "concat (data_shards enc) = d @ replicate (shard_size enc * 8 - length d) 0" "original_size enc = length d"
    by (auto simp: shards_ok_def)
  have ne: "objects_dir s @ [h] \<noteq> parity_dir s"
    using assms(4) by (auto simp: layout_def)
  have "fs_read f1 (?dir @ [shard_name (0 + j)]) = Inr (data_shards enc ! j)" if "j < 8" for j
    using write_shards_get [OF 2, of j] that ds(1) ne by (simp add: fs_read_write [OF 3])
  then have "read_shards h f1 ?dir [0..<0 + length (data_shards enc)] = Inr (concat (data_shards enc))"
    by (intro read_shards_all) (simp add: ds)
  then have "read_object s1 f1 h = Inr d"
    using assms(5) by (simp add: read_object_def s1 ds unat_of_nat)
  moreover have "fs_read f1 q = fs_read f q \<and> file_len f1 q = file_len f q"
    if "\<forall>t. q \<noteq> objects_dir s @ h # t" "q \<noteq> parity_dir s @ [h]" for q
  proof -
    have "q \<noteq> ?dir @ [shard_name j]" for j using that(1) by simp
    then show ?thesis
      using write_shards_frame [OF 2, of q] write_shards_len [OF 2, of q] that(2) 1
      by (simp add: fs_read_write [OF 3] file_len_write [OF 3] create_dir_all_def fs_read_mkdirs file_len_mkdirs)
  qed
  ultimately show ?thesis using assms(3) unfolding stored_def by (auto simp: s1 loc_ok_def)
qed

section \<open>The store as an interface\<close>

text \<open>Room for an object: the loose objects and the new one fit a 64-bit offset, and the pack
  number has not reached its largest value.\<close>

definition room :: "object_store \<times> fs \<Rightarrow> string \<Rightarrow> bytes \<Rightarrow> bool" where
  "room = (\<lambda>(s, f) h d. plain h \<and> loose_bytes s f + length d < 2 ^ 64 \<and> next_pack_id s \<noteq> - 1)"

lemma maybe_seal_result:
  assumes "store_inv s" and "loose_bytes s f < 2 ^ 64" "next_pack_id s \<noteq> - 1"
    and "maybe_seal_packfiles X (s, f) = (Inr (), (s', f'))"
  shows "store_inv s'" "read_object s' f' = read_object s f" "contains s' = contains s"
  using assms seal_keeps_objects [of s f X s' f']
  by (auto simp: maybe_seal_packfiles_def Let_def split: if_splits)

lemma write_object_dup:
  assumes "contains s h"
  shows "write_object X h d raw (s, f) = (Inr (), (s\<lparr>total_raw_bytes := total_raw_bytes s + raw\<rparr>, f))"
  using assms by (simp add: write_object_def)

lemma write_object_new:
  assumes laws: "rs_laws X" and inv: "store_inv s" and room: "room (s, f) h d" and new: "\<not> contains s h"
    and run: "write_object X h d raw (s, f) = (Inr (), (s', f'))"
  shows "store_inv s' \<and> read_object s' f' = (read_object s f)(h := Inr d) \<and>
     contains s' = (contains s)(h := True)"
proof -
  have plain: "plain h" and r: "loose_bytes s f + length d < 2 ^ 64" "next_pack_id s \<noteq> - 1"
    using room by (simp_all add: room_def)
  obtain s1 f1 where w: "(if erasure_enabled s then write_sharded_object X h d
       else write_individual_object h d) (s, f) = (Inr (), (s1, f1))"
    and seal: "maybe_seal_packfiles X (s1\<lparr>total_raw_bytes := total_raw_bytes s1 + raw\<rparr>, f1) = (Inr (), (s', f'))"
    using run new by (auto simp: write_object_def bindS_Inr_iff [of "if _ then _ else _"])
  have "\<exists>loc. stored s f s1 f1 h loc d \<and> (case loc of Individual p \<Rightarrow> file_len f1 p | _ \<Rightarrow> 0) \<le> length d"
  proof (cases "erasure_enabled s")
    case True
    then show ?thesis using stored_sharded [OF laws _ plain store_invD(1) [OF inv]] w r(1) by fastforce
  next
    case False
    then show ?thesis using stored_individual [OF _ plain] w by fastforce
  qed
  then obtain loc where st: "stored s f s1 f1 h loc d"
    and len: "(case loc of Individual p \<Rightarrow> file_len f1 p | _ \<Rightarrow> 0) \<le> length d" by blast
  note res = stored_result [OF inv new st]
  have "next_pack_id s1 \<noteq> - 1" using st r(2) by (auto simp: stored_def)
  moreover have "loose_bytes s1 f1 < 2 ^ 64" using res(4) len r(1) by simp
  ultimately show ?thesis
    using maybe_seal_result [OF _ _ _ seal] res by simp
qed

locale content_store =
  fixes store :: "string \<Rightarrow> bytes \<Rightarrow> u64 \<Rightarrow> ('s, unit) step" and fetch :: "'s \<Rightarrow> string \<Rightarrow> error + bytes"
    and has :: "'s \<Rightarrow> string \<Rightarrow> bool" and ok :: "'s \<Rightarrow> bool" and fits :: "'s \<Rightarrow> string \<Rightarrow> bytes \<Rightarrow> bool"
  assumes write_new: "ok s \<Longrightarrow> fits s h d \<Longrightarrow> \<not> has s h \<Longrightarrow> store h d raw s = (Inr (), s') \<Longrightarrow>
      ok s' \<and> fetch s' = (fetch s)(h := Inr d) \<and> has s' = (has s)(h := True)"
    and write_old: "ok s \<Longrightarrow> has s h \<Longrightarrow> store h d raw s = (Inr (), s') \<Longrightarrow>
      ok s' \<and> fetch s' = fetch s \<and> has s' = has s"
begin

text \<open>A store whose objects all have the content their name stands for.\<close>

definition sound :: "(string \<Rightarrow> bytes) \<Rightarrow> 's \<Rightarrow> bool" where
  "sound content s = (ok s \<and> (\<forall>h. has s h \<longrightarrow> fetch s h = Inr (content h)))"

lemma store_sound:
  assumes f: "sound content s" and r: "fits s h (content h)"
    and run: "store h (content h) raw s = (Inr (), s')"
  shows "sound content s'" and "has s' = (has s)(h := True)"
proof -
  have "sound content s' \<and> has s' = (has s)(h := True)"
  proof (cases "has s h")
    case True
    then have "ok s' \<and> fetch s' = fetch s \<and> has s' = has s"
      using write_old [OF _ True run] f by (simp add: sound_def)
    with f True show ?thesis by (simp add: sound_def fun_upd_idem)
  next
    case False
    have "ok s' \<and> fetch s' = (fetch s)(h := Inr (content h)) \<and> has s' = (has s)(h := True)"
      using write_new [OF _ r False run] f by (simp add: sound_def)
    with f show ?thesis by (simp add: sound_def)
  qed
  then show "sound content s'" and "has s' = (has s)(h := True)" by simp_all
qed

lemma stores_sound:
  assumes "sound content s"
    and "all_along (\<lambda>s h. fits s h (content h)) (\<lambda>h. store h (content h) (raw h)) hs s"
    and "for_each (\<lambda>h. store h (content h) (raw h)) hs s = (Inr (), s')"
  shows "sound content s' \<and> (\<forall>h. has s' h \<longleftrightarrow> has s h \<or> h \<in> set hs)"
  using assms
proof (induction hs arbitrary: s)
  case (Cons h hs)
  then obtain s1 where s1: "store h (content h) (raw h) s = (Inr (), s1)"
    "for_each (\<lambda>h. store h (content h) (raw h)) hs s1 = (Inr (), s')" by (auto simp: bindS_Inr_iff)
  have r: "fits s h (content h)"
    and rs: "all_along (\<lambda>s h. fits s h (content h)) (\<lambda>h. store h (content h) (raw h)) hs s1"
    using Cons.prems(2) s1(1) by simp_all
  note f = store_sound [OF Cons.prems(1) r s1(1)]
  from Cons.IH [OF f(1) rs s1(2)] f(2) show ?case by auto
qed simp

end

interpretation object_store: content_store "write_object X" "\<lambda>(s, f). read_object s f" "\<lambda>(s, f). contains s"
  "\<lambda>(s, f). rs_laws X \<and> store_inv s" room for X
proof
  fix st st' :: "object_store \<times> fs" and h d raw
  obtain s f s' f' where e: "st = (s, f)" "st' = (s', f')" by fastforce
  show "(case st' of (s, f) \<Rightarrow> rs_laws X \<and> store_inv s) \<and>
      (case st' of (s, f) \<Rightarrow> read_object s f) = (case st of (s, f) \<Rightarrow> read_object s f)(h := Inr d) \<and>
      (case st' of (s, f) \<Rightarrow> contains s) = (case st of (s, f) \<Rightarrow> contains s)(h := True)"
    if "case st of (s, f) \<Rightarrow> rs_laws X \<and> store_inv s" "room st h d"
      "\<not> (case st of (s, f) \<Rightarrow> contains s) h" "write_object X h d raw st = (Inr (), st')"
    using that write_object_new [of X s f h d raw s' f'] by (simp add: e)
  show "(case st' of (s, f) \<Rightarrow> rs_laws X \<and> store_inv s) \<and>
      (case st' of (s, f) \<Rightarrow> read_object s f) = (case st of (s, f) \<Rightarrow> read_object s f) \<and>
      (case st' of (s, f) \<Rightarrow> contains s) = (case st of (s, f) \<Rightarrow> contains s)"
    if "case st of (s, f) \<Rightarrow> rs_laws X \<and> store_inv s" "(case st of (s, f) \<Rightarrow> contains s) h"
      "write_object X h d raw st = (Inr (), st')"
    using that write_object_dup [of s h X d raw f] by (auto simp: e)
qed

section \<open>Repair\<close>

lemma take_drop_concat:
  "list_all (\<lambda>b. length b = n) bs \<Longrightarrow> i < length bs \<Longrightarrow> take n (drop (i * n) (concat bs @ rest)) = bs ! i"
proof (induction bs arbitrary: i)
  case (Cons b bs)
  then show ?case by (cases i) (simp_all add: drop_append)
qed simp

definition parity_header :: "libs \<Rightarrow> encoded_object \<Rightarrow> bytes" where
  "parity_header X enc = u64_to_le (of_nat (original_size enc)) @ u64_to_le (of_nat (shard_size enc)) @
     concat (map (blake3 X) (data_shards enc @ parity_shards enc))"

text \<open>An encoded object as \<open>encode\<close> makes it.\<close>

definition enc_ok :: "libs \<Rightarrow> encoded_object \<Rightarrow> bool" where
  "enc_ok X enc = (hash_laws X \<and> shards_ok 8 (shard_size enc) (data_shards enc) \<and>
     shards_ok 2 (shard_size enc) (parity_shards enc) \<and> shard_size enc < 2 ^ 60)"

lemma encode_enc_ok:
  assumes "rs_laws X" "hash_laws X" "encode X d = Inr enc" "length d < 2 ^ 60"
  shows "enc_ok X enc"
proof -
  have "d \<noteq> []" using assms(3) by (auto simp: encode_def div_ceil_def)
  from encode_shards [OF assms(1) this] assms(3)
  have "shards_ok 8 (shard_size enc) (data_shards enc)" "shards_ok 2 (shard_size enc) (parity_shards enc)"
    "shard_size enc = div_ceil (length d) 8" by auto
  moreover have "div_ceil (length d) 8 < 2 ^ 60"
    using div_ceil_8 [of "length d"] \<open>d \<noteq> []\<close> assms(4) by (cases "length d") auto
  ultimately show ?thesis using assms(2) by (simp add: enc_ok_def)
qed

lemma enc_ok_lengths:
  assumes "enc_ok X enc"
  shows "length (data_shards enc) = 8" "length (parity_shards enc) = 2" "0 < shard_size enc"
    "list_all (\<lambda>b. length b = shard_size enc) (parity_shards enc)"
    "list_all (\<lambda>b. length b = 32) (map (blake3 X) (data_shards enc @ parity_shards enc))"
  using assms by (auto simp: enc_ok_def shards_ok_def hash_laws_def list_all_iff)

lemma length_parity_header: "enc_ok X enc \<Longrightarrow> length (parity_header X enc) = PARITY_HEADER_LEN"
proof -
  assume ok: "enc_ok X enc"
  have "length (concat bs) = length bs * 32" if "list_all (\<lambda>b. length b = 32) bs" for bs :: "bytes list"
    using that by (induction bs) auto
  from this [OF enc_ok_lengths(5) [OF ok]] show ?thesis
    by (simp add: parity_header_def PARITY_HEADER_LEN_def enc_ok_lengths [OF ok])
qed

lemma parity_body_header: "parity_body X enc = parity_header X enc @ concat (parity_shards enc)"
  by (simp add: parity_body_def parity_header_def)

lemma header_fields:
  assumes ok: "enc_ok X enc"
  shows "u64_from_le (take 8 (drop 8 (parity_header X enc @ rest))) = of_nat (shard_size enc)"
    and "expected_hashes (parity_header X enc @ rest) = map (blake3 X) (data_shards enc @ parity_shards enc)"
proof -
  show "u64_from_le (take 8 (drop 8 (parity_header X enc @ rest))) = of_nat (shard_size enc)"
    by (simp add: parity_header_def codec_simps)
  let ?hs = "map (blake3 X) (data_shards enc @ parity_shards enc)"
  have "take 32 (drop (16 + i * 32) (parity_header X enc @ rest)) = ?hs ! i" if "i < 10" for i
  proof -
    have "drop (16 + i * 32) (parity_header X enc @ rest) = drop (i * 32) (concat ?hs @ rest)"
      by (simp add: parity_header_def)
    then show ?thesis
      using take_drop_concat [OF enc_ok_lengths(5) [OF ok], of i rest] that by (simp add: enc_ok_lengths [OF ok])
  qed
  then have "map (\<lambda>i. take 32 (drop (16 + i * 32) (parity_header X enc @ rest))) [0..<10] = map ((!) ?hs) [0..<10]"
    by simp
  also have "\<dots> = ?hs" using map_nth [of ?hs] by (simp add: enc_ok_lengths [OF ok])
  finally show "expected_hashes (parity_header X enc @ rest) = ?hs" by (simp add: expected_hashes_def)
qed

text \<open>The ten shards as they are on disk.\<close>

definition parity_read :: "nat \<Rightarrow> bytes \<Rightarrow> nat \<Rightarrow> error + bytes" where
  "parity_read sz rest i =
     (if (i + 1) * sz \<le> length rest then Inr (take sz (drop (i * sz) rest)) else Inl IoError)"

lemma parity_slice_ok:
  assumes ok: "enc_ok X enc" and i: "i < 2"
  shows "parity_slice (parity_header X enc @ rest) (of_nat (shard_size enc)) i =
     Inr (case parity_read (shard_size enc) rest i of Inr b \<Rightarrow> Some b | Inl e \<Rightarrow> None)"
proof -
  let ?n = "shard_size enc"
  have n: "?n < 2 ^ 60" using ok by (simp add: enc_ok_def)
  have i': "i * ?n \<le> ?n" using i by (cases i) auto
  have b: "i * ?n < 2 ^ 60" using i' n by (rule le_less_trans)
  have small: "unat (of_nat k :: u64) = k" if "k < 2 ^ 62" for k
    using that by (simp add: unat_of_nat)
  have 1: "unat (of_nat (336 + i * ?n) :: u64) = 336 + i * ?n"
    by (rule small) (use n b in simp)
  have 2: "unat (of_nat (336 + i * ?n + ?n) :: u64) = 336 + i * ?n + ?n"
    by (rule small) (use n b in simp)
  have s: "of_nat PARITY_HEADER_LEN + of_nat i * of_nat ?n = (of_nat (336 + i * ?n) :: u64)"
    by (simp add: PARITY_HEADER_LEN_def)
  have t: "(of_nat (336 + i * ?n) :: u64) + of_nat ?n = of_nat (336 + i * ?n + ?n)" by simp
  have l: "length (parity_header X enc) = 336"
    using length_parity_header [OF ok] by (simp add: PARITY_HEADER_LEN_def)
  have nl: "\<not> (of_nat (336 + i * ?n + ?n) :: u64) < of_nat (336 + i * ?n)"
    unfolding word_less_nat_alt 1 2 by simp
  show ?thesis
    unfolding parity_slice_def Let_def s t using nl
    by (simp only: 1 2 length_append l) (simp add: parity_read_def l add.commute)
qed

definition shard_reads :: "object_store \<Rightarrow> fs \<Rightarrow> string \<Rightarrow> encoded_object \<Rightarrow> bytes \<Rightarrow> (error + bytes) list" where
  "shard_reads s f h enc rest =
     map (\<lambda>i. fs_read f (objects_dir s @ [h, shard_name i])) [0..<8] @
     map (parity_read (shard_size enc) rest) [0..<2]"

definition all_shards :: "encoded_object \<Rightarrow> bytes list" where
  "all_shards enc = data_shards enc @ parity_shards enc"

text \<open>A damaged shard is one that cannot be read or reads as other bytes; the hash detects it
  unless the bytes collide with the shard.\<close>

fun damaged :: "(error + bytes) list \<Rightarrow> bytes list \<Rightarrow> nat" where
  "damaged (r # rs) (b # bs) = (if r = Inr b then 0 else 1) + damaged rs bs"
| "damaged _ _ = 0"

definition no_collision :: "libs \<Rightarrow> (error + bytes) list \<Rightarrow> bytes list \<Rightarrow> bool" where
  "no_collision X rs bs = list_all2 (\<lambda>r b. \<forall>c. r = Inr c \<and> blake3 X c = blake3 X b \<longrightarrow> c = b) rs bs"

definition checked :: "libs \<Rightarrow> (error + bytes) list \<Rightarrow> bytes list \<Rightarrow> bytes option list" where
  "checked X rs bs = map (\<lambda>(r, b). check_shard X r (blake3 X b)) (zip rs bs)"

lemma checked_erased: "no_collision X rs bs \<Longrightarrow> erased_from bs (checked X rs bs)"
  unfolding no_collision_def
  by (induction rule: list_all2_induct)
    (auto simp: erased_from_def checked_def check_shard_def split: sum.splits)

lemma checked_missing: "no_collision X rs bs \<Longrightarrow> missing (checked X rs bs) = damaged rs bs"
  unfolding no_collision_def
  by (induction rule: list_all2_induct)
    (auto simp: missing_def checked_def check_shard_def split: sum.splits)

lemma checked_append:
  "length a = length x \<Longrightarrow> checked X (a @ b) (x @ y) = checked X a x @ checked X b y"
  by (simp add: checked_def)

lemma damaged_append:
  "length a = length x \<Longrightarrow> damaged (a @ b) (x @ y) = damaged a x + damaged b y"
  by (induction a x rule: damaged.induct) auto

lemma damaged_0: "length rs = length bs \<Longrightarrow> damaged rs bs = 0 \<longleftrightarrow> rs = map Inr bs"
  by (induction rs bs rule: damaged.induct) auto

text \<open>What \<open>verify_object\<close> collects from a store whose parity header is intact.\<close>

lemma verify_reads:
  assumes ok: "enc_ok X enc" and par_def: "par = parity_header X enc @ rest"
  shows "read_data_shards X f (objects_dir s @ [h]) (expected_hashes par) =
      checked X (map (\<lambda>i. fs_read f (objects_dir s @ [h, shard_name i])) [0..<8]) (data_shards enc)"
    and "read_parity_shards X par (of_nat (shard_size enc)) (expected_hashes par) [0..<2] =
      Inr (checked X (map (parity_read (shard_size enc) rest) [0..<2]) (parity_shards enc))"
proof -
  let ?hs = "map (blake3 X) (data_shards enc @ parity_shards enc)"
  note len = enc_ok_lengths(1,2) [OF ok]
  have e: "expected_hashes (parity_header X enc @ rest) = ?hs" by (rule header_fields(2) [OF ok])
  have z: "zip (map g [0..<length bs]) bs = map (\<lambda>i. (g i, bs ! i)) [0..<length bs]" for g and bs :: "bytes list"
    by (rule nth_equalityI) auto
  show "read_data_shards X f (objects_dir s @ [h]) (expected_hashes par) =
      checked X (map (\<lambda>i. fs_read f (objects_dir s @ [h, shard_name i])) [0..<8]) (data_shards enc)"
    using z [of "\<lambda>i. fs_read f (objects_dir s @ [h, shard_name i])" "data_shards enc"]
    by (simp add: par_def read_data_shards_def checked_def e len nth_append del: upt_Suc)
  have cs: "check_shard X (Inl x) b = None" for x b by (simp add: check_shard_def)
  have two: "[0..<2] = [0, Suc 0]" by (simp add: upt_rec)
  obtain p q where pq: "parity_shards enc = [p, q]"
    using len(2) by (auto simp: numeral_2_eq_2 length_Suc_conv)
  show "read_parity_shards X par (of_nat (shard_size enc)) (expected_hashes par) [0..<2] =
      Inr (checked X (map (parity_read (shard_size enc) rest) [0..<2]) (parity_shards enc))"
    using parity_slice_ok [OF ok, of 0 rest] parity_slice_ok [OF ok, of "Suc 0" rest]
    by (simp add: two e pq par_def checked_def nth_append len cs split: sum.splits)
qed

definition intact :: "libs \<Rightarrow> object_store \<Rightarrow> fs \<Rightarrow> string \<Rightarrow> encoded_object \<Rightarrow> bool" where
  "intact X s f h enc =
     (\<exists>rest. fs_read f (parity_dir s @ [h]) = Inr (parity_header X enc @ rest) \<and>
             shard_reads s f h enc rest = map Inr (all_shards enc))"

definition shard_paths :: "object_store \<Rightarrow> string \<Rightarrow> path list" where
  "shard_paths s h = (parity_dir s @ [h]) # map (\<lambda>i. objects_dir s @ [h, shard_name i]) [0..<8]"

text \<open>A sharded object of the store whose parity header can be read.\<close>

definition sharded_at :: "libs \<Rightarrow> object_store \<Rightarrow> fs \<Rightarrow> string \<Rightarrow> encoded_object \<Rightarrow> bytes \<Rightarrow> bool" where
  "sharded_at X s f h enc rest =
     (enc_ok X enc \<and> rs_laws X \<and> store_inv s \<and>
      map_of (object_index s) h = Some (Sharded (objects_dir s @ [h]) (of_nat (original_size enc))) \<and>
      fs_read f (parity_dir s @ [h]) = Inr (parity_header X enc @ rest) \<and>
      no_collision X (shard_reads s f h enc rest) (all_shards enc))"

lemma shard_reads_lengths:
  assumes "enc_ok X enc"
  shows "length (shard_reads s f h enc rest) = 10" "length (all_shards enc) = 10"
  using enc_ok_lengths [OF assms] by (simp_all add: shard_reads_def all_shards_def)

lemma no_collision_append:
  "length a = length x \<Longrightarrow> no_collision X (a @ b) (x @ y) = (no_collision X a x \<and> no_collision X b y)"
  by (simp add: no_collision_def list_all2_append)

lemma verify_object_cases:
  assumes at: "sharded_at X s f h enc rest"
  defines "ds \<equiv> checked X (map (\<lambda>i. fs_read f (objects_dir s @ [h, shard_name i])) [0..<8]) (data_shards enc)"
    and "ps \<equiv> checked X (map (parity_read (shard_size enc) rest) [0..<2]) (parity_shards enc)"
    and "k \<equiv> damaged (shard_reads s f h enc rest) (all_shards enc)"
  shows "verify_object X s h repair f =
      (if k = 0 then (Inr Healthy, f) else if \<not> repair then (Inr Corrupted, f)
       else if 2 < k then (Inr Unrecoverable, f)
       else bindS (liftS (reconstruct X ds ps (shard_size enc))) (\<lambda>(data, parity).
            bindS (write_shards (objects_dir s @ [h]) 0 data) (\<lambda>_.
            bindS (fs_write (parity_dir s @ [h]) (parity_header X enc @ concat parity)) (\<lambda>_.
            returnS Repaired))) f)"
    and "erased_from (data_shards enc) ds" "erased_from (parity_shards enc) ps" "missing ds + missing ps = k"
proof -
  have ok: "enc_ok X enc" and laws: "rs_laws X" and inv: "store_inv s"
    and m: "map_of (object_index s) h = Some (Sharded (objects_dir s @ [h]) (of_nat (original_size enc)))"
    and par: "fs_read f (parity_dir s @ [h]) = Inr (parity_header X enc @ rest)"
    and nc: "no_collision X (shard_reads s f h enc rest) (all_shards enc)"
    using at by (simp_all add: sharded_at_def)
  have plain: "plain h" using store_invD(3) [OF inv m] by (simp add: loc_ok_def)
  note len = enc_ok_lengths(1,2) [OF ok]
  have nc2: "no_collision X (map (\<lambda>i. fs_read f (objects_dir s @ [h, shard_name i])) [0..<8]) (data_shards enc)"
    "no_collision X (map (parity_read (shard_size enc) rest) [0..<2]) (parity_shards enc)"
    using nc by (simp_all add: shard_reads_def all_shards_def no_collision_append len)
  show "erased_from (data_shards enc) ds" "erased_from (parity_shards enc) ps"
    unfolding ds_def ps_def by (rule checked_erased, rule nc2)+
  show k: "missing ds + missing ps = k"
    unfolding ds_def ps_def k_def by (simp add: checked_missing nc2 shard_reads_def all_shards_def damaged_append len)
  have hl: "length (parity_header X enc) = PARITY_HEADER_LEN" by (rule length_parity_header [OF ok])
  have sz: "u64_from_le (take 8 (drop 8 (parity_header X enc @ rest))) = of_nat (shard_size enc)"
    by (rule header_fields(1) [OF ok])
  have un: "unat (of_nat (shard_size enc) :: u64) = shard_size enc"
    using ok by (simp add: enc_ok_def unat_of_nat)
  note reads = verify_reads(1) [OF ok refl, of f s h rest, folded ds_def] verify_reads(2) [OF ok refl, of rest, folded ps_def]
  show "verify_object X s h repair f =
      (if k = 0 then (Inr Healthy, f) else if \<not> repair then (Inr Corrupted, f)
       else if 2 < k then (Inr Unrecoverable, f)
       else bindS (liftS (reconstruct X ds ps (shard_size enc))) (\<lambda>(data, parity).
            bindS (write_shards (objects_dir s @ [h]) 0 data) (\<lambda>_.
            bindS (fs_write (parity_dir s @ [h]) (parity_header X enc @ concat parity)) (\<lambda>_.
            returnS Repaired))) f)"
    unfolding verify_object_def
    using rs_newD [OF laws]
    by (simp add: m par child_plain [OF plain] Let_def hl sz reads un ErasureCodec_new_def k
        bindS_def [of "liftS (Inr ())"] del: drop_append take_append) (simp add: hl)
qed

lemma write_shards_succeeds:
  "(\<And>j. j < length bs \<Longrightarrow> writable f (dir @ [shard_name (i + j)])) \<Longrightarrow>
   \<exists>f'. write_shards dir i bs f = (Inr (), f') \<and> (\<forall>q. writable f' q = writable f q)"
proof (induction bs arbitrary: i f)
  case (Cons b bs)
  have "writable f (dir @ [shard_name i])" using Cons.prems [of 0] by simp
  then obtain f1 where 1: "fs_write (dir @ [shard_name i]) b f = (Inr (), f1)"
    using fs_write_succeeds by blast
  have "\<exists>f'. write_shards dir (Suc i) bs f1 = (Inr (), f') \<and> (\<forall>q. writable f' q = writable f1 q)"
    by (rule Cons.IH) (use Cons.prems [of "Suc _"] writable_write [OF 1] in simp)
  with 1 writable_write [OF 1] show ?case by auto
qed simp

lemma parity_read_all:
  assumes "enc_ok X enc"
  shows "map (parity_read (shard_size enc) (concat (parity_shards enc))) [0..<2] = map Inr (parity_shards enc)"
proof -
  obtain p q where "parity_shards enc = [p, q]"
    using enc_ok_lengths(2) [OF assms] by (auto simp: numeral_2_eq_2 length_Suc_conv)
  with enc_ok_lengths(4) [OF assms] show ?thesis by (simp add: upt_rec parity_read_def)
qed

lemma rewritten_intact:
  assumes ok: "enc_ok X enc" and ne: "objects_dir s @ [h] \<noteq> parity_dir s"
    and 1: "write_shards (objects_dir s @ [h]) 0 (data_shards enc) f = (Inr (), f1)"
    and 2: "fs_write (parity_dir s @ [h]) (parity_header X enc @ concat (parity_shards enc)) f1 = (Inr (), f2)"
  shows "intact X s f2 h enc" "\<And>q. q \<notin> set (shard_paths s h) \<Longrightarrow> (\<And>j. q \<noteq> objects_dir s @ [h, shard_name j]) \<Longrightarrow> fs_read f2 q = fs_read f q"
proof -
  have d: "fs_read f2 (objects_dir s @ [h, shard_name j]) = Inr (data_shards enc ! j)" if "j < 8" for j
    using write_shards_get [OF 1, of j] that enc_ok_lengths(1) [OF ok] ne by (simp add: fs_read_write [OF 2])
  have "map (\<lambda>i. fs_read f2 (objects_dir s @ [h, shard_name i])) [0..<8] = map Inr (data_shards enc)"
    by (rule nth_equalityI) (simp_all add: enc_ok_lengths(1) [OF ok] d del: upt_Suc)
  then have "shard_reads s f2 h enc (concat (parity_shards enc)) = map Inr (all_shards enc)"
    using parity_read_all [OF ok] by (simp add: shard_reads_def all_shards_def)
  then show "intact X s f2 h enc" using fs_read_write [OF 2] by (auto simp: intact_def)
  fix q assume "q \<notin> set (shard_paths s h)" and j: "\<And>j. q \<noteq> objects_dir s @ [h, shard_name j]"
  then have "q \<noteq> parity_dir s @ [h]" by (simp add: shard_paths_def)
  then show "fs_read f2 q = fs_read f q"
    using write_shards_frame [OF 1, of q] j by (simp add: fs_read_write [OF 2])
qed

lemma intact_reads:
  assumes "intact X s f h enc" "enc_ok X enc" "encode X d = Inr enc" "rs_laws X" "length d < 2 ^ 60"
    "map_of (object_index s) h = Some (Sharded (objects_dir s @ [h]) (of_nat (original_size enc)))"
  shows "read_object s f h = Inr d"
proof -
  have "d \<noteq> []" using assms(3) by (auto simp: encode_def div_ceil_def)
  from encode_shards [OF assms(4) this] assms(3) have ds:
    "concat (data_shards enc) = d @ replicate (shard_size enc * 8 - length d) 0" "original_size enc = length d"
    by auto
  note len = enc_ok_lengths(1,2) [OF assms(2)]
  from assms(1) obtain rest where "shard_reads s f h enc rest = map Inr (all_shards enc)" by (auto simp: intact_def)
  then have m: "map (\<lambda>i. fs_read f (objects_dir s @ [h, shard_name i])) [0..<8] = map Inr (data_shards enc)"
    by (simp add: shard_reads_def all_shards_def append_eq_append_conv len)
  have "fs_read f ((objects_dir s @ [h]) @ [shard_name (0 + j)]) = Inr (data_shards enc ! j)" if "j < 8" for j
    using arg_cong [OF m, of "\<lambda>xs. xs ! j"] that len by (simp del: upt_Suc)
  then have "read_shards h f (objects_dir s @ [h]) [0..<0 + length (data_shards enc)] = Inr (concat (data_shards enc))"
    by (intro read_shards_all) (simp add: len)
  then show ?thesis using assms(5) by (simp add: read_object_def assms(6) len ds unat_of_nat)
qed

lemma verify_repairs_sharded:
  assumes at: "sharded_at X s f h enc rest" and enc: "encode X d = Inr enc" "length d < 2 ^ 60"
    and few: "damaged (shard_reads s f h enc rest) (all_shards enc) \<le> 2"
    and w: "list_all (writable f) (shard_paths s h)"
  shows "\<exists>f'. verify_object X s h True f =
        (Inr (if damaged (shard_reads s f h enc rest) (all_shards enc) = 0 then Healthy else Repaired), f') \<and>
      intact X s f' h enc \<and> read_object s f' h = Inr d \<and>
      (\<forall>h'. h' \<noteq> h \<longrightarrow> read_object s f' h' = read_object s f h')"
proof -
  have ok: "enc_ok X enc" and laws: "rs_laws X" and inv: "store_inv s"
    and m: "map_of (object_index s) h = Some (Sharded (objects_dir s @ [h]) (of_nat (original_size enc)))"
    and par: "fs_read f (parity_dir s @ [h]) = Inr (parity_header X enc @ rest)"
    using at by (simp_all add: sharded_at_def)
  note cases = verify_object_cases [OF at]
  show ?thesis
  proof (cases "damaged (shard_reads s f h enc rest) (all_shards enc) = 0")
    case True
    then have "intact X s f h enc"
      using par damaged_0 shard_reads_lengths [OF ok] by (auto simp: intact_def)
    with True intact_reads [OF this ok enc(1) laws enc(2) m] show ?thesis by (simp add: cases(1))
  next
    case False
    have ne: "objects_dir s @ [h] \<noteq> parity_dir s"
      using store_invD(1) [OF inv] by (auto simp: layout_def)
    obtain f1 where 1: "write_shards (objects_dir s @ [h]) 0 (data_shards enc) f = (Inr (), f1)"
      and w1: "\<forall>q. writable f1 q = writable f q"
      using write_shards_succeeds [of "data_shards enc" f "objects_dir s @ [h]" 0] w enc_ok_lengths(1) [OF ok]
      by (auto simp: shard_paths_def list_all_iff)
    have "writable f1 (parity_dir s @ [h])" using w w1 by (simp add: shard_paths_def)
    then obtain f2 where 2: "fs_write (parity_dir s @ [h]) (parity_header X enc @ concat (parity_shards enc)) f1 = (Inr (), f2)"
      using fs_write_succeeds by blast
    have rec: "reconstruct X (checked X (map (\<lambda>i. fs_read f (objects_dir s @ [h, shard_name i])) [0..<8]) (data_shards enc))
        (checked X (map (parity_read (shard_size enc) rest) [0..<2]) (parity_shards enc)) (shard_size enc)
        = Inr (data_shards enc, parity_shards enc)"
      by (rule reconstruct_complete [OF laws enc(1) cases(2,3)]) (use cases(4) few in simp)
    have "verify_object X s h True f = (Inr Repaired, f2)"
      using False few by (simp add: cases(1) rec 1 2)
    moreover note int = rewritten_intact [OF ok ne 1 2]
    moreover have "read_object s f2 h' = read_object s f h'" if "h' \<noteq> h" for h'
    proof (rule read_object_cong [OF refl refl])
      obtain root where root: "objects_dir s = root @ [''objects'']" "packfile_dir s = root @ [''packfiles'']"
          "parity_dir s = root @ [''packfiles'', ''parity'']"
        using store_invD(1) [OF inv] by (auto simp: layout_def)
      fix loc p assume "map_of (object_index s) h' = Some loc" "p \<in> files_of s loc"
      from store_invD(3) [OF inv this(1)] this(2)
      have "p \<notin> set (shard_paths s h) \<and> (\<forall>j. p \<noteq> objects_dir s @ [h, shard_name j])"
        by (cases rule: files_of_cases) (use that in \<open>auto simp: root shard_paths_def\<close>)
      then show "fs_read f2 p = fs_read f p" by (intro int(2)) auto
    qed
    ultimately show ?thesis using False intact_reads [OF int(1) ok enc(1) laws enc(2) m] by auto
  qed
qed

section \<open>Properties of the object store\<close>

definition sample_store :: "bool \<Rightarrow> u64 \<Rightarrow> object_store" where
  "sample_store ec mb = \<lparr>objects_dir = [''r'', ''objects''], packfile_dir = [''r'', ''packfiles''],
     parity_dir = [''r'', ''packfiles'', ''parity''], erasure_enabled = ec, max_packfile_size_mb = mb,
     object_index = [], next_pack_id = 1, total_bytes = 0, total_raw_bytes = 0\<rparr>"

definition sample_fs :: fs where
  "sample_fs = \<lparr>entries = [([''r''], Dir), ([''r'', ''objects''], Dir), ([''r'', ''packfiles''], Dir),
     ([''r'', ''packfiles'', ''parity''], Dir)], faulty = [], real_path = id\<rparr>"

lemma sample_store_inv [simp]: "store_inv (sample_store ec mb)"
  by (auto simp: store_inv_def sample_store_def layout_def)

lemma sample_room: "room (sample_store ec mb, sample_fs) ''abcd'' [1, 2, 3]"
  by (simp add: room_def plain_def sample_store_def loose_bytes_def)

lemma sample_write:
  "fst (write_object sample_libs ''abcd'' [1, 2, 3] 3 (sample_store False 0, sample_fs)) = Inr ()"
  by code_simp

text \<open>C24: write then read.  After a successful \<open>write_object\<close> of a new object, loose or
  erasure-coded and whether or not the write triggered the sealing of a packfile, the object
  reads back as the bytes written, every other object reads as before, and the store's
  invariant holds.\<close>

theorem write_object_read:
  assumes "rs_laws X" and "store_inv s" and "room (s, f) h d" and "\<not> contains s h"
    and "write_object X h d raw (s, f) = (Inr (), (s', f'))"
  shows "read_object s' f' = (read_object s f)(h := Inr d) \<and> contains s' = (contains s)(h := True) \<and>
     store_inv s'"
  using write_object_new [OF assms] by simp

theorem write_object_read_witness:
  "\<exists>s f. write_object sample_libs ''abcd'' [1, 2, 3] 3 (sample_store False 0, sample_fs) = (Inr (), (s, f)) \<and>
     read_object s f ''abcd'' = Inr [1, 2, 3]"
proof -
  obtain s f where run: "write_object sample_libs ''abcd'' [1, 2, 3] 3 (sample_store False 0, sample_fs) = (Inr (), (s, f))"
    using sample_write by (metis prod.collapse)
  have "\<not> contains (sample_store False 0) ''abcd''" by (simp add: contains_def sample_store_def)
  from write_object_read [OF sample_rs_laws sample_store_inv sample_room this run] run show ?thesis by simp
qed

text \<open>C26: sealing loses nothing.  Packing the loose objects into a packfile, rewriting the index
  and deleting the loose files leaves the content of every object as it was, as long as the loose
  objects together are shorter than \<open>2 ^ 64\<close> bytes and the pack number does not wrap.\<close>

theorem seal_preserves_objects:
  assumes "store_inv s" and "loose_bytes s f < 2 ^ 64" and "next_pack_id s \<noteq> - 1"
    and "seal_packfile X (individuals f (object_index s)) (s, f) = (Inr (), (s', f'))"
  shows "read_object s' f' = read_object s f \<and> contains s' = contains s \<and> store_inv s'"
  using seal_keeps_objects [OF assms] by simp

text \<open>A store with two loose objects.\<close>

definition loose_store :: object_store where
  "loose_store = (sample_store False 0)\<lparr>object_index := [(''aa'', Individual [''r'', ''objects'', ''aa'']),
     (''bb'', Individual [''r'', ''objects'', ''bb''])]\<rparr>"

definition loose_fs :: fs where
  "loose_fs = sample_fs\<lparr>entries := entries sample_fs @ [([''r'', ''objects'', ''aa''], File [1, 2]), ([''r'', ''objects'', ''bb''], File [3])]\<rparr>"

lemma loose_store_inv: "store_inv loose_store"
  by (simp add: store_inv_def loose_store_def sample_store_def layout_def loc_ok_def plain_def)

lemma loose_room: "loose_bytes loose_store loose_fs < 2 ^ 64" "next_pack_id loose_store \<noteq> - 1"
proof -
  have "loose_bytes loose_store loose_fs = 3" by code_simp
  then show "loose_bytes loose_store loose_fs < 2 ^ 64" by simp
  show "next_pack_id loose_store \<noteq> - 1" by (simp add: loose_store_def sample_store_def)
qed

lemma loose_sealed: "\<exists>s f. seal_packfile sample_libs (individuals loose_fs (object_index loose_store)) (loose_store, loose_fs) = (Inr (), (s, f))"
proof -
  have "fst (seal_packfile sample_libs (individuals loose_fs (object_index loose_store)) (loose_store, loose_fs)) = Inr ()"
    by code_simp
  then show ?thesis by (metis prod.collapse)
qed

theorem seal_preserves_objects_witness:
  "\<exists>s' f'. seal_packfile sample_libs (individuals loose_fs (object_index loose_store)) (loose_store, loose_fs) = (Inr (), (s', f')) \<and>
     read_object s' f' ''aa'' = Inr [1, 2] \<and> read_object s' f' ''bb'' = Inr [3]"
proof -
  obtain s' f' where run: "seal_packfile sample_libs (individuals loose_fs (object_index loose_store)) (loose_store, loose_fs) = (Inr (), (s', f'))"
    using loose_sealed by blast
  have "read_object loose_store loose_fs ''aa'' = Inr [1, 2]" "read_object loose_store loose_fs ''bb'' = Inr [3]" by code_simp+
  with seal_preserves_objects [OF loose_store_inv loose_room run] run show ?thesis by simp
qed

text \<open>Deduplication.  Writing an object whose name is already in the store succeeds, writes
  nothing to disk and changes only the raw byte counter.\<close>

theorem write_object_dedup:
  assumes "contains s h"
  shows "write_object X h d raw (s, f) = (Inr (), (s\<lparr>total_raw_bytes := total_raw_bytes s + raw\<rparr>, f))"
  using assms by (rule write_object_dup)

theorem write_object_dedup_witness:
  "let s = (sample_store True 0)\<lparr>object_index := [(''aa'', Individual [''x''])]\<rparr> in
   write_object sample_libs ''aa'' [7] 9 (s, sample_fs) = (Inr (), (s\<lparr>total_raw_bytes := 9\<rparr>, sample_fs))"
proof -
  have "contains ((sample_store True 0)\<lparr>object_index := [(''aa'', Individual [''x''])]\<rparr>) ''aa''"
    by (simp add: contains_def)
  from write_object_dedup [OF this, of sample_libs "[7]" 9 sample_fs]
  show ?thesis by (simp add: sample_store_def)
qed

text \<open>A store in which every object has the content its name stands for.\<close>

definition faithful :: "(string \<Rightarrow> bytes) \<Rightarrow> object_store \<Rightarrow> fs \<Rightarrow> bool" where
  "faithful content s f = (store_inv s \<and> (\<forall>h. contains s h \<longrightarrow> read_object s f h = Inr (content h)))"

lemma sound_faithful: "object_store.sound X content (s, f) \<longleftrightarrow> rs_laws X \<and> faithful content s f"
  unfolding object_store.sound_def faithful_def by simp

text \<open>A content-addressed store.  If every object of the store has the content its name
  stands for, so does every object after any sequence of successful writes of such objects, and
  exactly the written names have been added.\<close>

theorem store_many:
  assumes "rs_laws X" and "faithful content s f"
    and "all_along (\<lambda>st h. room st h (content h)) (\<lambda>h. write_object X h (content h) (raw h)) hs (s, f)"
    and "for_each (\<lambda>h. write_object X h (content h) (raw h)) hs (s, f) = (Inr (), (s', f'))"
  shows "faithful content s' f' \<and> (\<forall>h. contains s' h = (contains s h \<or> h \<in> set hs))"
proof -
  have "object_store.sound X content (s, f)" using assms(1,2) unfolding sound_faithful by blast
  from object_store.stores_sound [OF this assms(3,4)] show ?thesis
    unfolding sound_faithful prod.case by blast
qed

theorem store_many_witness:
  "\<exists>s f. for_each (\<lambda>h. write_object sample_libs h [1, 2, 3] 3) [''abcd''] (sample_store False 0, sample_fs)
       = (Inr (), (s, f)) \<and> faithful (\<lambda>h. [1, 2, 3]) s f \<and> contains s ''abcd''"
proof -
  let ?st = "(sample_store False 0, sample_fs)"
  have f: "faithful (\<lambda>h. [1, 2, 3]) (sample_store False 0) sample_fs"
    by (simp add: faithful_def) (simp add: contains_def sample_store_def)
  have r: "all_along (\<lambda>st h. room st h [1, 2, 3]) (\<lambda>h. write_object sample_libs h [1, 2, 3] 3) [''abcd''] ?st"
    by (simp add: sample_room)
  have "fst (for_each (\<lambda>h. write_object sample_libs h [1, 2, 3] 3) [''abcd''] ?st) = Inr ()"
    using sample_write by (auto simp: bindS_def split: prod.splits sum.splits)
  then obtain s' f' where
    run: "for_each (\<lambda>h. write_object sample_libs h [1, 2, 3] 3) [''abcd''] ?st = (Inr (), (s', f'))"
    by (metis prod.collapse)
  from store_many [OF sample_rs_laws f r run] run show ?thesis by auto
qed

section \<open>Properties of repair\<close>

text \<open>C25: self-healing.  If the parity header of an erasure-coded object is intact and at most two
  of its ten shards are damaged (unreadable, or other bytes than were written, with another
  hash), \<open>verify_object\<close> with repair ends with all ten shards as they were written and the
  object reading back as its original content; it reports \<open>Healthy\<close> when nothing was damaged
  and \<open>Repaired\<close> otherwise, and every other object reads as before.\<close>

theorem verify_repairs:
  assumes "sharded_at X s f h enc rest" and "encode X d = Inr enc" and "length d < 2 ^ 60"
    and "damaged (shard_reads s f h enc rest) (all_shards enc) \<le> 2"
    and "list_all (writable f) (shard_paths s h)"
  shows "\<exists>f'. verify_object X s h True f =
        (Inr (if damaged (shard_reads s f h enc rest) (all_shards enc) = 0 then Healthy else Repaired), f') \<and>
      intact X s f' h enc \<and> read_object s f' h = Inr d \<and>
      (\<forall>h'. h' \<noteq> h \<longrightarrow> read_object s f' h' = read_object s f h')"
  using assms by (rule verify_repairs_sharded)

text \<open>An object whose first shard file is lost.\<close>

definition damaged_store :: object_store where
  "damaged_store = (sample_store True 0)\<lparr>object_index :=
     [(''aa'', Sharded [''r'', ''objects'', ''aa''] 3)]\<rparr>"

definition damaged_fs :: "encoded_object \<Rightarrow> fs" where
  "damaged_fs enc = sample_fs\<lparr>entries := entries sample_fs @ ([''r'', ''objects'', ''aa''], Dir) #
     ([''r'', ''packfiles'', ''parity'', ''aa''], File (parity_body sample_libs enc)) #
     map (\<lambda>i. ([''r'', ''objects'', ''aa'', shard_name i], File (data_shards enc ! i))) [1..<8]\<rparr>"

lemma damaged_enc:
  "\<exists>enc. encode sample_libs [1, 2, 3] = Inr enc \<and> enc_ok sample_libs enc \<and>
     original_size enc = 3 \<and> shard_size enc = 1"
proof -
  have "[1, 2, 3 :: u8] \<noteq> []" by simp
  from encode_shards [OF sample_rs_laws this] obtain enc where
    enc: "encode sample_libs [1, 2, 3] = Inr enc" "original_size enc = 3" "shard_size enc = 1"
    by (auto simp: div_ceil_def)
  moreover have "enc_ok sample_libs enc"
    by (rule encode_enc_ok [OF sample_rs_laws sample_hash_laws enc(1)]) simp
  ultimately show ?thesis by blast
qed

lemma shard_names:
  "map shard_name [0, 1, 2, 3, 4, 5, 6, 7] = [''d0'', ''d1'', ''d2'', ''d3'', ''d4'', ''d5'', ''d6'', ''d7'']"
  by code_simp

lemma damaged_at:
  assumes "enc_ok sample_libs enc" "original_size enc = 3"
  shows "sharded_at sample_libs damaged_store (damaged_fs enc) ''aa'' enc (concat (parity_shards enc))"
    and "damaged (shard_reads damaged_store (damaged_fs enc) ''aa'' enc (concat (parity_shards enc))) (all_shards enc) = 1"
    and "list_all (writable (damaged_fs enc)) (shard_paths damaged_store ''aa'')"
proof -
  have up: "[0..<8] = [0, 1, 2, 3, 4, 5, 6, 7]" "[Suc 0..<8] = [1, 2, 3, 4, 5, 6, 7]" "[0..<2] = [0, Suc 0]"
    by (simp_all add: upt_rec)
  have inj: "shard_name i = shard_name j \<longleftrightarrow> i = j" for i j by (rule shard_name_inj)
  have dirs: "objects_dir damaged_store = [''r'', ''objects'']" "parity_dir damaged_store = [''r'', ''packfiles'', ''parity'']"
    by (simp_all add: damaged_store_def sample_store_def)
  have reads: "map (\<lambda>i. fs_read (damaged_fs enc) [''r'', ''objects'', ''aa'', shard_name i]) [0..<8] =
      Inl IoError # map Inr (tl (data_shards enc))"
  proof -
    obtain d0 d1 d2 d3 d4 d5 d6 d7 where "data_shards enc = [d0, d1, d2, d3, d4, d5, d6, d7]"
      using enc_ok_lengths(1) [OF assms(1)] by (auto simp: eval_nat_numeral length_Suc_conv)
    then show ?thesis by (simp add: up fs_read_def fs_node_def damaged_fs_def sample_fs_def inj)
  qed
  have par: "fs_read (damaged_fs enc) [''r'', ''packfiles'', ''parity'', ''aa''] = Inr (parity_body sample_libs enc)"
    by (simp add: fs_read_def fs_node_def damaged_fs_def sample_fs_def)
  have sr: "shard_reads damaged_store (damaged_fs enc) ''aa'' enc (concat (parity_shards enc)) =
      Inl IoError # map Inr (tl (all_shards enc))"
    using enc_ok_lengths(1) [OF assms(1)] parity_read_all [OF assms(1)]
    by (simp add: shard_reads_def dirs reads all_shards_def) (cases "data_shards enc"; simp)
  obtain b bs where bs: "all_shards enc = b # bs"
    using shard_reads_lengths(2) [OF assms(1)] by (cases "all_shards enc") auto
  have nc: "list_all2 (\<lambda>r b. \<forall>c. r = Inr c \<and> blake3 sample_libs c = blake3 sample_libs b \<longrightarrow> c = b) (map Inr bs) bs"
    by (simp add: list_all2_conv_all_nth)
  show "sharded_at sample_libs damaged_store (damaged_fs enc) ''aa'' enc (concat (parity_shards enc))"
    unfolding sharded_at_def sr no_collision_def
    using assms sample_rs_laws par nc
    by (auto simp: dirs parity_body_header bs)
      (auto simp: damaged_store_def sample_store_def store_inv_def layout_def loc_ok_def plain_def)
  show "damaged (shard_reads damaged_store (damaged_fs enc) ''aa'' enc (concat (parity_shards enc))) (all_shards enc) = 1"
    unfolding sr using damaged_0 [of "map Inr bs" bs] by (simp add: bs)
  show "list_all (writable (damaged_fs enc)) (shard_paths damaged_store ''aa'')"
    by (simp add: shard_paths_def dirs up writable_def is_dir_def fs_node_def parent_def damaged_fs_def sample_fs_def inj)
qed

theorem verify_repairs_witness:
  "\<exists>enc f'. encode sample_libs [1, 2, 3] = Inr enc \<and>
     verify_object sample_libs damaged_store ''aa'' True (damaged_fs enc) = (Inr Repaired, f') \<and>
     read_object damaged_store f' ''aa'' = Inr [1, 2, 3]"
proof -
  obtain enc where enc: "encode sample_libs [1, 2, 3] = Inr enc" "enc_ok sample_libs enc" "original_size enc = 3"
    using damaged_enc by blast
  note d = damaged_at [OF enc(2,3)]
  have "length ([1, 2, 3] :: bytes) < 2 ^ 60"
    and "damaged (shard_reads damaged_store (damaged_fs enc) ''aa'' enc (concat (parity_shards enc))) (all_shards enc) \<le> 2"
    using d(2) by simp_all
  from verify_repairs [OF d(1) enc(1) this d(3)] d(2) enc(1) show ?thesis by auto
qed

text \<open>Verification reports, and touches nothing it does not repair.  With an intact parity
  header, \<open>verify_object\<close> without repair writes nothing and reports \<open>Corrupted\<close> exactly when some
  shard is damaged, \<open>Healthy\<close> otherwise; with repair and more than two damaged shards it writes
  nothing and reports \<open>Unrecoverable\<close>.\<close>

theorem verify_reports:
  assumes "sharded_at X s f h enc rest"
    and "\<not> repair \<or> damaged (shard_reads s f h enc rest) (all_shards enc) \<notin> {1, 2}"
  shows "verify_object X s h repair f =
     (Inr (if damaged (shard_reads s f h enc rest) (all_shards enc) = 0 then Healthy
           else if repair then Unrecoverable else Corrupted), f)"
  using assms(2) by (auto simp: verify_object_cases(1) [OF assms(1)])

theorem verify_reports_witness:
  "\<exists>enc. encode sample_libs [1, 2, 3] = Inr enc \<and>
     verify_object sample_libs damaged_store ''aa'' False (damaged_fs enc) = (Inr Corrupted, damaged_fs enc)"
proof -
  obtain enc where enc: "encode sample_libs [1, 2, 3] = Inr enc" "enc_ok sample_libs enc" "original_size enc = 3"
    using damaged_enc by blast
  note d = damaged_at [OF enc(2,3)]
  from verify_reports [OF d(1), of False] enc(1) d(2) show ?thesis by simp
qed

section \<open>Reopening a packfile\<close>

lemma split_on_append: "c \<notin> set a \<Longrightarrow> split_on c (a @ c # b) = a # split_on c b"
  by (induction a) auto

lemma split_on_ne: "split_on c s \<noteq> []"
  by (induction s) (auto split: list.splits)

text \<open>A name that survives a line of the index file.\<close>

definition line_safe :: "string \<Rightarrow> bool" where
  "line_safe h = (CHR '' '' \<notin> set h \<and> CHR 0x0A \<notin> set h)"

definition idx_text :: "packfile_entry \<Rightarrow> string" where
  "idx_text e = entry_hash e @ '' '' @ show_nat (unat (entry_offset e)) @ '' '' @ show_nat (unat (entry_size e))"

lemma digits_safe: "CHR '' '' \<notin> set (show_nat n)" "CHR 0x0A \<notin> set (show_nat n)" "CHR 0x0D \<notin> set (show_nat n)"
  using show_nat_digits [of _ n] by fastforce+

lemma split_idx_lines:
  "list_all (\<lambda>e. line_safe (entry_hash e)) es \<Longrightarrow>
   split_on (CHR 0x0A) (concat (map idx_line es)) = map idx_text es @ [[]]"
proof (induction es)
  case (Cons e es)
  have "CHR 0x0A \<notin> set (idx_text e)" using Cons.prems by (simp add: idx_text_def line_safe_def digits_safe)
  moreover have "idx_line e = idx_text e @ [CHR 0x0A]" by (simp add: idx_line_def idx_text_def)
  ultimately show ?case using Cons by (simp add: split_on_append)
qed simp

lemma strip_idx_text: "strip_cr (idx_text e) = idx_text e"
proof -
  have "last (idx_text e) = last (show_nat (unat (entry_size e)))" by (simp add: idx_text_def)
  then have "last (idx_text e) \<noteq> CHR 0x0D" using digits_safe(3) [of "unat (entry_size e)"] by (metis last_in_set show_nat_ne)
  then show ?thesis by (simp add: strip_cr_def)
qed

lemma lines_idx:
  "list_all (\<lambda>e. line_safe (entry_hash e)) es \<Longrightarrow> str_lines (concat (map idx_line es)) = map idx_text es"
  by (simp add: str_lines_def split_idx_lines Let_def strip_idx_text comp_def)

lemma parse_u64_show: "parse_u64_or_0 (show_nat (unat (n :: u64))) = n"
proof -
  have "unat n < 2 ^ 64" using unsigned_less [of n] by simp
  then show ?thesis by (simp add: parse_u64_or_0_def codec_simps)
qed

lemma split3_idx:
  "line_safe (entry_hash e) \<Longrightarrow>
   split3 (idx_text e) = Some (entry_hash e, show_nat (unat (entry_offset e)), show_nat (unat (entry_size e)))"
  using split_on_append [of "CHR '' ''" "entry_hash e" "show_nat (unat (entry_offset e)) @ '' '' @ show_nat (unat (entry_size e))"]
    split_on_append [of "CHR '' ''" "show_nat (unat (entry_offset e))" "show_nat (unat (entry_size e))"]
    split_on_none [of "CHR '' ''" "show_nat (unat (entry_size e))"]
  by (simp add: split3_def idx_text_def line_safe_def digits_safe)

lemma load_lines:
  "list_all (\<lambda>e. line_safe (entry_hash e)) es \<Longrightarrow>
   object_index (fold (load_line pid) (map idx_text es) s) = fold (add_entry pid) es (object_index s)"
  by (induction es arbitrary: s) (simp_all add: load_line_def split3_idx parse_u64_show add_entry_def Let_def)

text \<open>The index file of a packfile round-trips.  Loading the lines that \<open>seal\<close> wrote for a
  packfile gives exactly the index entries that sealing made in memory, with the pack's number
  recovered from its file name.\<close>

theorem idx_roundtrip:
  assumes "list_all (\<lambda>e. line_safe (entry_hash e)) es"
  shows "object_index (fold (load_line (pack_name n)) (str_lines (concat (map idx_line es))) s) =
       object_index (add_entries (pack_name n) es s) \<and> parse_pack_seq (pack_name n) = Some n"
  using assms by (simp add: lines_idx load_lines add_entries_def add_entry_def [abs_def] parse_pack_seq_name)

theorem idx_roundtrip_witness:
  "object_index (fold (load_line (pack_name 7))
       (str_lines (concat (map idx_line [\<lparr>entry_hash = ''ab'', entry_offset = 0, entry_size = 12\<rparr>])))
       (sample_store False 0)) = [(''ab'', Packfile (pack_name 7) 0 12)]"
  using idx_roundtrip [of "[\<lparr>entry_hash = ''ab'', entry_offset = 0, entry_size = 12\<rparr>]" 7 "sample_store False 0"]
  by (simp add: line_safe_def add_entries_def) (simp add: sample_store_def)

end
