(* ===== verification/Block_Index.thy ===== *)
theory Block_Index
  imports Sample_Db "HOL-Library.Multiset"
begin

text \<open>
  The block index, \<open>sidecar/src/storage/index.rs\<close>: five column families of a RocksDB
  database, with JSON values and reference counts in eight little-endian bytes.  The database
  and serde\_json are the parameter \<open>L\<close>.  Each operation is a step on the database, in the
  order of the code's calls, so that a failing call leaves what was written before it.

  The abstraction function \<open>abs_index\<close> reads the database as the maps the comments of the
  file describe; \<open>refines\<close> says what an operation does to them.  The locale \<open>ref_counter\<close> is
  what the transaction manager and the engine need of the reference counts; it is
  interpreted on the index for every database that meets the laws of RocksDB.
\<close>

definition CF_FILE_CHUNKS :: string where "CF_FILE_CHUNKS = ''file_chunks''"
definition CF_CHUNK_REFS :: string where "CF_CHUNK_REFS = ''chunk_refs''"
definition CF_CHUNK_META :: string where "CF_CHUNK_META = ''chunk_meta''"
definition CF_SNAPSHOT :: string where "CF_SNAPSHOT = ''snapshot''"
definition CF_FILE_META :: string where "CF_FILE_META = ''file_meta''"

lemmas cf_names = CF_FILE_CHUNKS_def CF_CHUNK_REFS_def CF_CHUNK_META_def CF_SNAPSHOT_def CF_FILE_META_def

text \<open>\<open>self.db.cf_handle(cf).ok_or_else(..)\<close>.\<close>

definition need_cf :: "'db index_libs \<Rightarrow> string \<Rightarrow> ('db, unit) step" where
  "need_cf L cf db = (if has_cf L db cf then (Inr (), db) else (Inl (Failure (''CF '' @ cf @ '' not found'')), db))"

section \<open>Files\<close>

definition insert_file_chunks ::
  "'db index_libs \<Rightarrow> string \<Rightarrow> string list \<Rightarrow> u64 \<Rightarrow> u64 \<Rightarrow> ('db, unit) step" where
  "insert_file_chunks L file_path chunk_hashes file_size mtime =
     bindS (need_cf L CF_FILE_CHUNKS) (\<lambda>_.
     bindS (liftS (json_print L (json_strings chunk_hashes))) (\<lambda>chunks_json.
     bindS (put_cf L CF_FILE_CHUNKS (bytes_of file_path) (bytes_of chunks_json)) (\<lambda>_.
     bindS (need_cf L CF_FILE_META) (\<lambda>_.
     bindS (liftS (json_print L (JObj [(''chunk_count'', JNum (of_nat (length chunk_hashes))),
                                       (''mtime'', JNum mtime), (''size'', JNum file_size)]))) (\<lambda>meta.
     bindS (put_cf L CF_FILE_META (bytes_of file_path) (bytes_of meta)) (\<lambda>_.
     returnS ()))))))"

text \<open>\<open>serde_json::from_slice::<Vec<String>>\<close>.\<close>

definition parse_strings :: "'db index_libs \<Rightarrow> bytes \<Rightarrow> error + string list" where
  "parse_strings L d = bindE (json_parse L d) (\<lambda>j. case j of JArr js \<Rightarrow> strings_of js | _ \<Rightarrow> Inl JsonError)"

definition get_file_chunks :: "'db index_libs \<Rightarrow> string \<Rightarrow> 'db \<Rightarrow> error + string list" where
  "get_file_chunks L file_path db =
     bindE (fst (need_cf L CF_FILE_CHUNKS db)) (\<lambda>_.
     bindE (get_cf L db CF_FILE_CHUNKS (bytes_of file_path)) (\<lambda>r.
       case r of Some d \<Rightarrow> parse_strings L d | None \<Rightarrow> Inr []))"

text \<open>An iterator: \<open>item?\<close> ends the call at the first error; keys that are not UTF-8 are skipped.\<close>

fun utf8_keys :: "(error + bytes \<times> bytes) list \<Rightarrow> error + string list" where
  "utf8_keys [] = Inr []"
| "utf8_keys (Inl e # items) = Inl e"
| "utf8_keys (Inr (k, v) # items) =
     bindE (utf8_keys items) (\<lambda>ks. Inr (if utf8_valid k then string_of k # ks else ks))"

definition keys_of_cf :: "'db index_libs \<Rightarrow> string \<Rightarrow> 'db \<Rightarrow> error + string list" where
  "keys_of_cf L cf db = bindE (fst (need_cf L cf db)) (\<lambda>_. utf8_keys (iter_cf L db cf))"

definition get_all_files :: "'db index_libs \<Rightarrow> 'db \<Rightarrow> error + string list" where
  "get_all_files L db = keys_of_cf L CF_FILE_CHUNKS db"

text \<open>\<open>meta.get("size").and_then(|v| v.as_u64()).unwrap_or(0)\<close>.\<close>

definition meta_size :: "json \<Rightarrow> u64" where
  "meta_size j = (case jget j ''size'' of None \<Rightarrow> 0 | Some v \<Rightarrow> (case as_u64 v of None \<Rightarrow> 0 | Some n \<Rightarrow> n))"

fun files_with_sizes :: "'db index_libs \<Rightarrow> (error + bytes \<times> bytes) list \<Rightarrow> error + (string \<times> u64) list" where
  "files_with_sizes L [] = Inr []"
| "files_with_sizes L (Inl e # items) = Inl e"
| "files_with_sizes L (Inr (k, v) # items) =
     (if utf8_valid k then
        bindE (files_with_sizes L items) (\<lambda>fs.
          Inr (case json_parse L v of Inr meta \<Rightarrow> (string_of k, meta_size meta) # fs | Inl e \<Rightarrow> fs))
      else Inl IoError)"

text \<open>\<open>sort_by_key(Reverse(size))\<close> is stable: ties stay in iteration order.\<close>

fun insert_by_size :: "string \<times> u64 \<Rightarrow> (string \<times> u64) list \<Rightarrow> (string \<times> u64) list" where
  "insert_by_size x [] = [x]"
| "insert_by_size x (y # ys) = (if snd y \<le> snd x then x # y # ys else y # insert_by_size x ys)"

definition sort_by_size :: "(string \<times> u64) list \<Rightarrow> (string \<times> u64) list" where
  "sort_by_size xs = foldr insert_by_size xs []"

definition get_largest_files :: "'db index_libs \<Rightarrow> nat \<Rightarrow> 'db \<Rightarrow> error + (string \<times> u64) list" where
  "get_largest_files L limit db =
     bindE (fst (need_cf L CF_FILE_META db)) (\<lambda>_.
     bindE (files_with_sizes L (iter_cf L db CF_FILE_META)) (\<lambda>fs.
     Inr (take limit (sort_by_size fs))))"

definition get_file_size :: "'db index_libs \<Rightarrow> string \<Rightarrow> string \<Rightarrow> 'db \<Rightarrow> error + u64" where
  "get_file_size L snapshot_id file_path db =
     bindE (fst (need_cf L CF_FILE_META db)) (\<lambda>_.
     bindE (get_cf L db CF_FILE_META (bytes_of file_path)) (\<lambda>r.
       case r of Some d \<Rightarrow> bindE (json_parse L d) (\<lambda>meta. Inr (meta_size meta)) | None \<Rightarrow> Inr 0))"

section \<open>Reference counts\<close>

text \<open>The stored value counts only when it has exactly eight bytes.\<close>

definition count_of :: "bytes option \<Rightarrow> u64" where
  "count_of r = (case r of Some d \<Rightarrow> if length d = 8 then u64_from_le d else 0 | None \<Rightarrow> 0)"

definition get_ref_count :: "'db index_libs \<Rightarrow> string \<Rightarrow> 'db \<Rightarrow> error + u64" where
  "get_ref_count L chunk_hash db =
     bindE (fst (need_cf L CF_CHUNK_REFS db)) (\<lambda>_.
     bindE (get_cf L db CF_CHUNK_REFS (bytes_of chunk_hash)) (\<lambda>r. Inr (count_of r)))"

definition insert_chunk :: "'db index_libs \<Rightarrow> string \<Rightarrow> string \<Rightarrow> u64 \<Rightarrow> u64 \<Rightarrow> ('db, unit) step" where
  "insert_chunk L chunk_hash original_path off sz =
     bindS (need_cf L CF_CHUNK_REFS) (\<lambda>_.
     bindS (readS (get_ref_count L chunk_hash)) (\<lambda>current_refs.
     bindS (put_cf L CF_CHUNK_REFS (bytes_of chunk_hash) (u64_to_le (current_refs + 1))) (\<lambda>_.
     bindS (need_cf L CF_CHUNK_META) (\<lambda>_.
     bindS (liftS (json_print L (JObj [(''offset'', JNum off), (''original_path'', JStr original_path),
                                       (''size'', JNum sz)]))) (\<lambda>meta.
     bindS (put_cf L CF_CHUNK_META (bytes_of chunk_hash) (bytes_of meta)) (\<lambda>_.
     returnS ()))))))"

definition chunk_exists :: "'db index_libs \<Rightarrow> string \<Rightarrow> 'db \<Rightarrow> error + bool" where
  "chunk_exists L chunk_hash db =
     bindE (fst (need_cf L CF_CHUNK_REFS db)) (\<lambda>_.
     bindE (get_cf L db CF_CHUNK_REFS (bytes_of chunk_hash)) (\<lambda>r. Inr (r \<noteq> None)))"

definition increment_ref :: "'db index_libs \<Rightarrow> string \<Rightarrow> ('db, unit) step" where
  "increment_ref L chunk_hash =
     bindS (readS (get_ref_count L chunk_hash)) (\<lambda>c.
     bindS (need_cf L CF_CHUNK_REFS) (\<lambda>_.
     bindS (put_cf L CF_CHUNK_REFS (bytes_of chunk_hash) (u64_to_le (c + 1))) (\<lambda>_.
     returnS ())))"

definition decrement_ref :: "'db index_libs \<Rightarrow> string \<Rightarrow> ('db, u64) step" where
  "decrement_ref L chunk_hash =
     bindS (need_cf L CF_CHUNK_REFS) (\<lambda>_.
     bindS (readS (\<lambda>db. get_cf L db CF_CHUNK_REFS (bytes_of chunk_hash))) (\<lambda>r.
       let current = count_of r;
           new = (if current = 0 then 0 else current - 1) \<comment> \<open>\<open>saturating_sub(1)\<close>\<close>
       in bindS (if new > 0 then put_cf L CF_CHUNK_REFS (bytes_of chunk_hash) (u64_to_le new)
                 else delete_cf L CF_CHUNK_REFS (bytes_of chunk_hash)) (\<lambda>_.
          returnS new)))"

definition get_all_chunks :: "'db index_libs \<Rightarrow> 'db \<Rightarrow> error + string list" where
  "get_all_chunks L db = keys_of_cf L CF_CHUNK_REFS db"

section \<open>Snapshots and durability\<close>

definition get_snapshot_files :: "'db index_libs \<Rightarrow> string \<Rightarrow> 'db \<Rightarrow> error + string list" where
  "get_snapshot_files L snapshot_id db =
     bindE (fst (need_cf L CF_SNAPSHOT db)) (\<lambda>_.
     bindE (get_cf L db CF_SNAPSHOT (bytes_of snapshot_id)) (\<lambda>r.
       case r of Some d \<Rightarrow> parse_strings L d | None \<Rightarrow> Inr []))"

definition insert_snapshot_files :: "'db index_libs \<Rightarrow> string \<Rightarrow> string list \<Rightarrow> ('db, unit) step" where
  "insert_snapshot_files L snapshot_id files =
     bindS (need_cf L CF_SNAPSHOT) (\<lambda>_.
     bindS (liftS (json_print L (json_strings files))) (\<lambda>json.
     bindS (put_cf L CF_SNAPSHOT (bytes_of snapshot_id) (bytes_of json)) (\<lambda>_.
     returnS ())))"

definition delete_snapshot_files :: "'db index_libs \<Rightarrow> string \<Rightarrow> ('db, unit) step" where
  "delete_snapshot_files L snapshot_id =
     bindS (need_cf L CF_SNAPSHOT) (\<lambda>_.
     bindS (delete_cf L CF_SNAPSHOT (bytes_of snapshot_id)) (\<lambda>_.
     returnS ()))"

definition get_all_snapshot_ids :: "'db index_libs \<Rightarrow> 'db \<Rightarrow> error + string list" where
  "get_all_snapshot_ids L db = keys_of_cf L CF_SNAPSHOT db"

definition flush_wal :: "'db index_libs \<Rightarrow> ('db, unit) step" where
  "flush_wal L = bindS (db_flush_wal L) (\<lambda>_. returnS ())"

section \<open>The index as maps\<close>

record index_state =
  st_refs :: "string \<Rightarrow> u64"
  st_known :: "string \<Rightarrow> bool"
  st_files :: "string \<Rightarrow> error + string list"
  st_sizes :: "string \<Rightarrow> u64"
  st_snaps :: "string \<Rightarrow> error + string list"

definition all_cfs :: "string list" where
  "all_cfs = [CF_FILE_CHUNKS, CF_CHUNK_REFS, CF_CHUNK_META, CF_SNAPSHOT, CF_FILE_META]"

text \<open>A healthy database with the five column families that \<open>BlockIndex::open\<close> creates.\<close>

definition index_ok :: "'db index_libs \<Rightarrow> 'db \<Rightarrow> bool" where
  "index_ok L db = (rocks_laws L \<and> json_laws L \<and> list_all (has_cf L db) all_cfs)"

definition strings_at :: "'db index_libs \<Rightarrow> 'db \<Rightarrow> string \<Rightarrow> string \<Rightarrow> error + string list" where
  "strings_at L db cf k = (case view L db cf (bytes_of k) of None \<Rightarrow> Inr [] | Some d \<Rightarrow> parse_strings L d)"

definition abs_index :: "'db index_libs \<Rightarrow> 'db \<Rightarrow> index_state" where
  "abs_index L db =
     \<lparr>st_refs = (\<lambda>h. count_of (view L db CF_CHUNK_REFS (bytes_of h))),
      st_known = (\<lambda>h. view L db CF_CHUNK_REFS (bytes_of h) \<noteq> None),
      st_files = strings_at L db CF_FILE_CHUNKS,
      st_sizes = (\<lambda>p. case view L db CF_FILE_META (bytes_of p) of None \<Rightarrow> 0
                    | Some d \<Rightarrow> (case json_parse L d of Inr j \<Rightarrow> meta_size j | Inl e \<Rightarrow> 0)),
      st_snaps = strings_at L db CF_SNAPSHOT\<rparr>"

text \<open>The step succeeds with \<open>x\<close> and does \<open>g\<close> to the maps.\<close>

definition refines ::
  "'db index_libs \<Rightarrow> ('db, 'a) step \<Rightarrow> 'a \<Rightarrow> (index_state \<Rightarrow> index_state) \<Rightarrow> 'db \<Rightarrow> bool" where
  "refines L m x g db =
     (\<exists>db'. m db = (Inr x, db') \<and> index_ok L db' \<and> abs_index L db' = g (abs_index L db))"

definition bump :: "string \<Rightarrow> index_state \<Rightarrow> index_state" where
  "bump h a = a\<lparr>st_refs := (st_refs a)(h := st_refs a h + 1), st_known := (st_known a)(h := True)\<rparr>"

definition lower :: "u64 \<Rightarrow> u64" where
  "lower c = (if c = 0 then 0 else c - 1)"

definition drop_ref :: "string \<Rightarrow> index_state \<Rightarrow> index_state" where
  "drop_ref h a = a\<lparr>st_refs := (st_refs a)(h := lower (st_refs a h)),
     st_known := (st_known a)(h := lower (st_refs a h) \<noteq> 0)\<rparr>"

definition set_file :: "string \<Rightarrow> string list \<Rightarrow> u64 \<Rightarrow> index_state \<Rightarrow> index_state" where
  "set_file p hs n a = a\<lparr>st_files := (st_files a)(p := Inr hs), st_sizes := (st_sizes a)(p := n)\<rparr>"

definition set_snap :: "string \<Rightarrow> string list \<Rightarrow> index_state \<Rightarrow> index_state" where
  "set_snap s fs a = a\<lparr>st_snaps := (st_snaps a)(s := Inr fs)\<rparr>"

lemma index_okD:
  assumes "index_ok L db"
  shows "rocks_laws L" "json_laws L" "need_cf L CF_FILE_CHUNKS db = (Inr (), db)"
    "need_cf L CF_CHUNK_REFS db = (Inr (), db)" "need_cf L CF_CHUNK_META db = (Inr (), db)"
    "need_cf L CF_SNAPSHOT db = (Inr (), db)" "need_cf L CF_FILE_META db = (Inr (), db)"
  using assms by (simp_all add: index_ok_def need_cf_def all_cfs_def)

lemma put_ok:
  assumes "index_ok L db"
  obtains db' where "put_cf L cf k v db = (Inr (), db')" "index_ok L db'"
    "view L db' = (view L db)(cf := (view L db cf)(k \<mapsto> v))"
  using rocks_put [OF index_okD(1) [OF assms], of cf k v db] assms
  by (auto simp: index_ok_def)

lemma delete_ok:
  assumes "index_ok L db"
  obtains db' where "delete_cf L cf k db = (Inr (), db')" "index_ok L db'"
    "view L db' = (view L db)(cf := (view L db cf)(k := None))"
  using rocks_delete [OF index_okD(1) [OF assms], of cf k db] assms
  by (auto simp: index_ok_def)

lemma print_ok:
  assumes "index_ok L db" and "json_wf j"
  obtains s where "json_print L j = Inr s" "json_parse L (bytes_of s) = Inr j"
  using json_roundtrip [OF index_okD(2) [OF assms(1)] assms(2)] by blast

lemma parse_strings_printed:
  "json_parse L d = Inr (json_strings xs) \<Longrightarrow> parse_strings L d = Inr xs"
  by (simp add: parse_strings_def json_strings_def)

lemma get_cf_ok: "index_ok L db \<Longrightarrow> get_cf L db cf k = Inr (view L db cf k)"
  by (rule rocks_get) (rule index_okD)

lemma get_ref_count_ok: "index_ok L db \<Longrightarrow> get_ref_count L h db = Inr (st_refs (abs_index L db) h)"
  by (simp add: get_ref_count_def index_okD get_cf_ok abs_index_def)

lemma chunk_exists_ok: "index_ok L db \<Longrightarrow> chunk_exists L h db = Inr (st_known (abs_index L db) h)"
  by (simp add: chunk_exists_def index_okD get_cf_ok abs_index_def)

lemma count_of_put [simp]: "count_of (Some (u64_to_le c)) = c"
  by (simp add: count_of_def codec_simps)

lemma cf_distinct [simp]:
  "CF_CHUNK_REFS \<noteq> CF_FILE_CHUNKS" "CF_FILE_CHUNKS \<noteq> CF_CHUNK_REFS"
  "CF_CHUNK_REFS \<noteq> CF_CHUNK_META" "CF_CHUNK_META \<noteq> CF_CHUNK_REFS"
  "CF_CHUNK_REFS \<noteq> CF_SNAPSHOT" "CF_SNAPSHOT \<noteq> CF_CHUNK_REFS"
  "CF_CHUNK_REFS \<noteq> CF_FILE_META" "CF_FILE_META \<noteq> CF_CHUNK_REFS"
  "CF_FILE_CHUNKS \<noteq> CF_CHUNK_META" "CF_CHUNK_META \<noteq> CF_FILE_CHUNKS"
  "CF_FILE_CHUNKS \<noteq> CF_SNAPSHOT" "CF_SNAPSHOT \<noteq> CF_FILE_CHUNKS"
  "CF_FILE_CHUNKS \<noteq> CF_FILE_META" "CF_FILE_META \<noteq> CF_FILE_CHUNKS"
  "CF_CHUNK_META \<noteq> CF_SNAPSHOT" "CF_SNAPSHOT \<noteq> CF_CHUNK_META"
  "CF_CHUNK_META \<noteq> CF_FILE_META" "CF_FILE_META \<noteq> CF_CHUNK_META"
  "CF_SNAPSHOT \<noteq> CF_FILE_META" "CF_FILE_META \<noteq> CF_SNAPSHOT"
  by (simp_all add: cf_names)

lemma count_of_None [simp]: "count_of None = 0"
  by (simp add: count_of_def)

text \<open>What a write to each column family does to the maps.\<close>

lemma abs_refs_put:
  "view L db' = (view L db)(CF_CHUNK_REFS := (view L db CF_CHUNK_REFS)(bytes_of h := v)) \<Longrightarrow>
   abs_index L db' = (abs_index L db)\<lparr>st_refs := (st_refs (abs_index L db))(h := count_of v),
     st_known := (st_known (abs_index L db))(h := v \<noteq> None)\<rparr>"
  by (auto simp: abs_index_def strings_at_def bytes_of_inj fun_eq_iff)

lemma abs_meta_put:
  "view L db' = (view L db)(CF_CHUNK_META := m) \<Longrightarrow> abs_index L db' = abs_index L db"
  by (simp add: abs_index_def strings_at_def fun_eq_iff)

lemma abs_snap_put:
  "view L db' = (view L db)(CF_SNAPSHOT := (view L db CF_SNAPSHOT)(bytes_of s := v)) \<Longrightarrow>
   abs_index L db' = (abs_index L db)\<lparr>st_snaps := (st_snaps (abs_index L db))
     (s := (case v of None \<Rightarrow> Inr [] | Some d \<Rightarrow> parse_strings L d))\<rparr>"
  by (auto simp: abs_index_def strings_at_def bytes_of_inj fun_eq_iff)

lemma abs_files_put:
  "view L db' = (view L db)(CF_FILE_CHUNKS := (view L db CF_FILE_CHUNKS)(bytes_of p \<mapsto> d)) \<Longrightarrow>
   parse_strings L d = Inr xs \<Longrightarrow>
   abs_index L db' = (abs_index L db)\<lparr>st_files := (st_files (abs_index L db))(p := Inr xs)\<rparr>"
  by (auto simp: abs_index_def strings_at_def bytes_of_inj fun_eq_iff)

lemma abs_sizes_put:
  "view L db' = (view L db)(CF_FILE_META := (view L db CF_FILE_META)(bytes_of p \<mapsto> d)) \<Longrightarrow>
   json_parse L d = Inr j \<Longrightarrow>
   abs_index L db' = (abs_index L db)\<lparr>st_sizes := (st_sizes (abs_index L db))(p := meta_size j)\<rparr>"
  by (auto simp: abs_index_def strings_at_def bytes_of_inj fun_eq_iff)

section \<open>The operations refine the maps\<close>

lemma increment_ref_refines:
  assumes "index_ok L db" shows "refines L (increment_ref L h) () (bump h) db"
proof -
  obtain db' where "put_cf L CF_CHUNK_REFS (bytes_of h) (u64_to_le (st_refs (abs_index L db) h + 1)) db
      = (Inr (), db')" "index_ok L db'"
    "view L db' = (view L db)(CF_CHUNK_REFS := (view L db CF_CHUNK_REFS)
        (bytes_of h \<mapsto> u64_to_le (st_refs (abs_index L db) h + 1)))"
    by (rule put_ok [OF assms])
  with abs_refs_put [OF this(3)] show ?thesis
    by (simp add: refines_def increment_ref_def get_ref_count_ok [OF assms] index_okD [OF assms] bump_def)
qed

lemma decrement_ref_refines:
  assumes "index_ok L db"
  shows "refines L (decrement_ref L h) (lower (st_refs (abs_index L db) h)) (drop_ref h) db"
proof -
  let ?c = "st_refs (abs_index L db) h"
  have c: "count_of (view L db CF_CHUNK_REFS (bytes_of h)) = ?c" by (simp add: abs_index_def)
  have d: "decrement_ref L h db = bindS (if lower ?c > 0
      then put_cf L CF_CHUNK_REFS (bytes_of h) (u64_to_le (lower ?c))
      else delete_cf L CF_CHUNK_REFS (bytes_of h)) (\<lambda>_. returnS (lower ?c)) db"
    using assms by (simp add: decrement_ref_def index_okD get_cf_ok Let_def lower_def c)
  show ?thesis
  proof (cases "lower ?c = 0")
    case True
    obtain db' where "delete_cf L CF_CHUNK_REFS (bytes_of h) db = (Inr (), db')" "index_ok L db'"
      and v: "view L db' = (view L db)(CF_CHUNK_REFS := (view L db CF_CHUNK_REFS)(bytes_of h := None))"
      by (rule delete_ok [OF assms])
    with abs_refs_put [OF v] True show ?thesis by (simp add: refines_def d drop_ref_def)
  next
    case False
    obtain db' where "put_cf L CF_CHUNK_REFS (bytes_of h) (u64_to_le (lower ?c)) db = (Inr (), db')"
      "index_ok L db'"
      and v: "view L db' = (view L db)(CF_CHUNK_REFS := (view L db CF_CHUNK_REFS)
        (bytes_of h \<mapsto> u64_to_le (lower ?c)))"
      by (rule put_ok [OF assms])
    with abs_refs_put [OF v] False show ?thesis
      by (simp add: refines_def d drop_ref_def word_gt_0)
  qed
qed

lemma insert_chunk_refines:
  assumes "index_ok L db" shows "refines L (insert_chunk L h p off sz) () (bump h) db"
proof -
  let ?c = "st_refs (abs_index L db) h + 1"
  let ?j = "JObj [(''offset'', JNum off), (''original_path'', JStr p), (''size'', JNum sz)]"
  obtain db1 where 1: "put_cf L CF_CHUNK_REFS (bytes_of h) (u64_to_le ?c) db = (Inr (), db1)" "index_ok L db1"
    and v1: "view L db1 = (view L db)(CF_CHUNK_REFS := (view L db CF_CHUNK_REFS)(bytes_of h \<mapsto> u64_to_le ?c))"
    by (rule put_ok [OF assms])
  have "json_wf ?j" by simp
  then obtain t where t: "json_print L ?j = Inr t" by (rule print_ok [OF assms])
  obtain db2 where 2: "put_cf L CF_CHUNK_META (bytes_of h) (bytes_of t) db1 = (Inr (), db2)" "index_ok L db2"
    and v2: "view L db2 = (view L db1)(CF_CHUNK_META := (view L db1 CF_CHUNK_META)(bytes_of h \<mapsto> bytes_of t))"
    by (rule put_ok [OF 1(2)])
  show ?thesis
    using 1 2 t abs_refs_put [OF v1] abs_meta_put [OF v2]
    by (simp add: refines_def insert_chunk_def get_ref_count_ok [OF assms] index_okD [OF assms]
        index_okD [OF 1(2)] bump_def)
qed

lemma insert_file_chunks_refines:
  assumes "index_ok L db" shows "refines L (insert_file_chunks L p hs n t) () (set_file p hs n) db"
proof -
  let ?j = "JObj [(''chunk_count'', JNum (of_nat (length hs))), (''mtime'', JNum t), (''size'', JNum n)]"
  obtain c where c: "json_print L (json_strings hs) = Inr c" "json_parse L (bytes_of c) = Inr (json_strings hs)"
    by (rule print_ok [OF assms json_wf_strings])
  obtain db1 where 1: "put_cf L CF_FILE_CHUNKS (bytes_of p) (bytes_of c) db = (Inr (), db1)" "index_ok L db1"
    and v1: "view L db1 = (view L db)(CF_FILE_CHUNKS := (view L db CF_FILE_CHUNKS)(bytes_of p \<mapsto> bytes_of c))"
    by (rule put_ok [OF assms])
  have "json_wf ?j" by simp
  then obtain m where m: "json_print L ?j = Inr m" "json_parse L (bytes_of m) = Inr ?j"
    by (rule print_ok [OF assms])
  obtain db2 where 2: "put_cf L CF_FILE_META (bytes_of p) (bytes_of m) db1 = (Inr (), db2)" "index_ok L db2"
    and v2: "view L db2 = (view L db1)(CF_FILE_META := (view L db1 CF_FILE_META)(bytes_of p \<mapsto> bytes_of m))"
    by (rule put_ok [OF 1(2)])
  have "meta_size ?j = n" by (simp add: meta_size_def jget_def as_u64_def)
  then show ?thesis
    using 1 2 c m abs_files_put [OF v1 parse_strings_printed [OF c(2)]] abs_sizes_put [OF v2 m(2)]
    by (simp add: refines_def insert_file_chunks_def index_okD [OF assms] index_okD [OF 1(2)] set_file_def)
qed

lemma insert_snapshot_files_refines:
  assumes "index_ok L db" shows "refines L (insert_snapshot_files L s fs) () (set_snap s fs) db"
proof -
  obtain c where c: "json_print L (json_strings fs) = Inr c" "json_parse L (bytes_of c) = Inr (json_strings fs)"
    by (rule print_ok [OF assms json_wf_strings])
  obtain db' where 1: "put_cf L CF_SNAPSHOT (bytes_of s) (bytes_of c) db = (Inr (), db')" "index_ok L db'"
    and v: "view L db' = (view L db)(CF_SNAPSHOT := (view L db CF_SNAPSHOT)(bytes_of s \<mapsto> bytes_of c))"
    by (rule put_ok [OF assms])
  then show ?thesis using abs_snap_put [OF v] c
    by (simp add: refines_def insert_snapshot_files_def index_okD [OF assms] parse_strings_printed [OF c(2)] set_snap_def)
qed

lemma delete_snapshot_files_refines:
  assumes "index_ok L db" shows "refines L (delete_snapshot_files L s) () (set_snap s []) db"
proof -
  obtain db' where "delete_cf L CF_SNAPSHOT (bytes_of s) db = (Inr (), db')" "index_ok L db'"
    and v: "view L db' = (view L db)(CF_SNAPSHOT := (view L db CF_SNAPSHOT)(bytes_of s := None))"
    by (rule delete_ok [OF assms])
  then show ?thesis using abs_snap_put [OF v]
    by (simp add: refines_def delete_snapshot_files_def index_okD [OF assms] set_snap_def)
qed

lemma flush_wal_refines:
  assumes "index_ok L db" shows "refines L (flush_wal L) () id db"
proof -
  obtain db' where f: "db_flush_wal L db = (Inr (), db')" "has_cf L db' = has_cf L db" "view L db' = view L db"
    using rocks_flush [OF index_okD(1) [OF assms]] by blast
  then have "index_ok L db'" "abs_index L db' = abs_index L db"
    using assms by (simp add: index_ok_def) (simp add: abs_index_def strings_at_def fun_eq_iff f(3))
  with f show ?thesis by (simp add: refines_def flush_wal_def)
qed

lemmas index_refines = increment_ref_refines decrement_ref_refines insert_chunk_refines
  insert_file_chunks_refines insert_snapshot_files_refines delete_snapshot_files_refines flush_wal_refines

lemma refinesE:
  assumes "refines L m x g db"
  obtains db' where "m db = (Inr x, db')" "index_ok L db'" "abs_index L db' = g (abs_index L db)"
  using assms by (auto simp: refines_def)

text \<open>What the lookups return.\<close>

lemma get_file_chunks_ok: "index_ok L db \<Longrightarrow> get_file_chunks L p db = st_files (abs_index L db) p"
  by (simp add: get_file_chunks_def index_okD get_cf_ok abs_index_def strings_at_def)

lemma get_snapshot_files_ok: "index_ok L db \<Longrightarrow> get_snapshot_files L s db = st_snaps (abs_index L db) s"
  by (simp add: get_snapshot_files_def index_okD get_cf_ok abs_index_def strings_at_def)

lemma insert_file_chunks_size:
  assumes "index_ok L db" and "insert_file_chunks L p hs n t db = (Inr (), db')"
  shows "get_file_size L s p db' = Inr n"
proof -
  let ?j = "JObj [(''chunk_count'', JNum (of_nat (length hs))), (''mtime'', JNum t), (''size'', JNum n)]"
  obtain c where c: "json_print L (json_strings hs) = Inr c" by (rule print_ok [OF assms(1) json_wf_strings])
  obtain db1 where 1: "put_cf L CF_FILE_CHUNKS (bytes_of p) (bytes_of c) db = (Inr (), db1)" "index_ok L db1"
    by (rule put_ok [OF assms(1)])
  have "json_wf ?j" by simp
  then obtain m where m: "json_print L ?j = Inr m" "json_parse L (bytes_of m) = Inr ?j"
    by (rule print_ok [OF assms(1)])
  obtain db2 where 2: "put_cf L CF_FILE_META (bytes_of p) (bytes_of m) db1 = (Inr (), db2)" "index_ok L db2"
    and v2: "view L db2 = (view L db1)(CF_FILE_META := (view L db1 CF_FILE_META)(bytes_of p \<mapsto> bytes_of m))"
    by (rule put_ok [OF 1(2)])
  have "db' = db2"
    using assms(2) 1 2 c m by (simp add: insert_file_chunks_def index_okD [OF assms(1)] index_okD [OF 1(2)])
  moreover have "meta_size ?j = n" by (simp add: meta_size_def jget_def as_u64_def)
  ultimately show ?thesis
    using m(2) by (simp add: get_file_size_def index_okD [OF 2(2)] get_cf_ok [OF 2(2)] v2)
qed

section \<open>Reference counting as an interface\<close>

locale ref_counter =
  fixes inc :: "'k \<Rightarrow> ('s, unit) step" and dec :: "'k \<Rightarrow> ('s, u64) step"
    and cnt :: "'s \<Rightarrow> 'k \<Rightarrow> u64" and ok :: "'s \<Rightarrow> bool"
  assumes inc_law: "ok s \<Longrightarrow> \<exists>s'. inc k s = (Inr (), s') \<and> ok s' \<and> cnt s' = (cnt s)(k := cnt s k + 1)"
    and dec_law: "ok s \<Longrightarrow> \<exists>s'. dec k s = (Inr (lower (cnt s k)), s') \<and> ok s' \<and>
                    cnt s' = (cnt s)(k := lower (cnt s k))"
begin

lemma incs:
  "ok s \<Longrightarrow> \<exists>s'. for_each inc ks s = (Inr (), s') \<and> ok s' \<and>
     cnt s' = (\<lambda>k. cnt s k + of_nat (count_list ks k))"
proof (induction ks arbitrary: s)
  case (Cons k ks)
  obtain s1 where "inc k s = (Inr (), s1)" "ok s1" "cnt s1 = (cnt s)(k := cnt s k + 1)"
    using inc_law [OF Cons.prems] by blast
  with Cons.IH [OF this(2)] show ?case by (auto simp: fun_eq_iff)
qed simp

lemma decs:
  "ok s \<Longrightarrow> \<exists>s'. for_each dec ks s = (Inr (), s') \<and> ok s' \<and>
     (\<forall>k. unat (cnt s' k) = unat (cnt s k) - count_list ks k)"
proof (induction ks arbitrary: s)
  case (Cons k ks)
  obtain s1 where s1: "dec k s = (Inr (lower (cnt s k)), s1)" "ok s1" "cnt s1 = (cnt s)(k := lower (cnt s k))"
    using dec_law [OF Cons.prems] by blast
  have "unat (lower c) = unat c - 1" for c
    by (simp add: lower_def unat_sub word_le_nat_alt Suc_leI unat_gt_0 unat_minus_one)
  with Cons.IH [OF s1(2)] s1(1,3) show ?case by fastforce
qed simp

text \<open>Undoing every reference of a list, in any order, restores the counts, as long as no count
  reaches \<open>2 ^ 64\<close> in between.\<close>

lemma undo:
  assumes "ok s" and "for_each inc ks s = (Inr (), s1)"
    and "\<And>k. count_list ks' k = count_list ks k"
    and "\<And>k. unat (cnt s k) + count_list ks k < 2 ^ 64"
  shows "\<exists>s2. for_each dec ks' s1 = (Inr (), s2) \<and> ok s2 \<and> cnt s2 = cnt s"
proof -
  have s1: "ok s1" "cnt s1 = (\<lambda>k. cnt s k + of_nat (count_list ks k))"
    using incs [OF assms(1), of ks] assms(2) by auto
  have "unat (cnt s1 k) = unat (cnt s k) + count_list ks k" for k
    using assms(4) [of k] by (simp add: s1 unat_word_ariths unat_of_nat)
  then have u: "unat (cnt s1 k) - count_list ks' k = unat (cnt s k)" for k
    by (simp add: assms(3))
  from decs [OF s1(1), of ks'] obtain s2 where
    s2: "for_each dec ks' s1 = (Inr (), s2)" "ok s2" "\<forall>k. unat (cnt s2 k) = unat (cnt s1 k) - count_list ks' k"
    by blast
  then have "\<forall>k. unat (cnt s2 k) = unat (cnt s k)" using u by simp
  then have "cnt s2 = cnt s" by (simp add: fun_eq_iff word_unat_eq_iff)
  with s2 show ?thesis by blast
qed

end

lemma increment_ref_law:
  "index_ok L db \<Longrightarrow> \<exists>db'. increment_ref L h db = (Inr (), db') \<and> index_ok L db' \<and>
     st_refs (abs_index L db') = (st_refs (abs_index L db))(h := st_refs (abs_index L db) h + 1)"
  using increment_ref_refines [of L db h] by (auto simp: refines_def bump_def)

lemma insert_chunk_law:
  "index_ok L db \<Longrightarrow> \<exists>db'. insert_chunk L h p off sz db = (Inr (), db') \<and> index_ok L db' \<and>
     st_refs (abs_index L db') = (st_refs (abs_index L db))(h := st_refs (abs_index L db) h + 1)"
  using insert_chunk_refines [of L db h p off sz] by (auto simp: refines_def bump_def)

lemma decrement_ref_law:
  "index_ok L db \<Longrightarrow> \<exists>db'. decrement_ref L h db = (Inr (lower (st_refs (abs_index L db) h)), db') \<and>
     index_ok L db' \<and>
     st_refs (abs_index L db') = (st_refs (abs_index L db))(h := lower (st_refs (abs_index L db) h))"
  using decrement_ref_refines [of L db h] by (auto simp: refines_def drop_ref_def)

interpretation block_refs: ref_counter "increment_ref L" "decrement_ref L"
  "\<lambda>db. st_refs (abs_index L db)" "index_ok L" for L :: "'db index_libs"
  by (rule ref_counter.intro) (erule increment_ref_law, erule decrement_ref_law)

interpretation block_inserts: ref_counter "\<lambda>h. insert_chunk L h p off sz" "decrement_ref L"
  "\<lambda>db. st_refs (abs_index L db)" "index_ok L" for L :: "'db index_libs" and p off sz
  by (rule ref_counter.intro) (erule insert_chunk_law, erule decrement_ref_law)

section \<open>Properties of the index\<close>

lemma sample_index_ok [simp]: "index_ok sample_index_libs db"
  by (simp add: index_ok_def sample_rocks_laws sample_json_laws list_all_iff)

text \<open>Undoing references.  After the references of a list of chunks are taken with
  \<open>increment_ref\<close>, releasing the same references in any order with \<open>decrement_ref\<close> gives every
  chunk the count it had, provided no count wraps around.\<close>

theorem references_undone:
  assumes "index_ok L db" and "for_each (increment_ref L) hs db = (Inr (), db1)"
    and "\<And>h. count_list hs' h = count_list hs h"
    and "\<And>h. unat (st_refs (abs_index L db) h) + count_list hs h < 2 ^ 64"
  shows "\<exists>db2. for_each (decrement_ref L) hs' db1 = (Inr (), db2) \<and>
           st_refs (abs_index L db2) = st_refs (abs_index L db)"
  using block_refs.undo [of L db hs db1 hs'] assms by blast

theorem references_undone_witness:
  "\<exists>db1 db2. for_each (increment_ref sample_index_libs) [''a'', ''b'', ''a''] empty_db = (Inr (), db1) \<and>
     for_each (decrement_ref sample_index_libs) [''a'', ''a'', ''b''] db1 = (Inr (), db2) \<and>
     st_refs (abs_index sample_index_libs db2) = st_refs (abs_index sample_index_libs empty_db)"
proof -
  have z: "st_refs (abs_index sample_index_libs empty_db) h = 0" for h
    by (simp add: abs_index_def empty_db_def)
  obtain db1 where 1: "for_each (increment_ref sample_index_libs) [''a'', ''b'', ''a''] empty_db = (Inr (), db1)"
    using block_refs.incs [of sample_index_libs empty_db] by fastforce
  have "\<exists>db2. for_each (decrement_ref sample_index_libs) [''a'', ''a'', ''b''] db1 = (Inr (), db2) \<and>
      st_refs (abs_index sample_index_libs db2) = st_refs (abs_index sample_index_libs empty_db)"
    by (rule references_undone [OF _ 1]) (simp_all add: z)
  with 1 show ?thesis by blast
qed

text \<open>C33: the operations on one chunk's references.  On a healthy index \<open>insert_chunk\<close> and
  \<open>increment_ref\<close> raise the count of the chunk by one modulo \<open>2 ^ 64\<close>; \<open>decrement_ref\<close> lowers
  it by one, not below zero, returns the new count, and forgets the chunk exactly when the count
  becomes zero; all three leave the files, their sizes and the snapshots alone.\<close>

theorem reference_operations:
  assumes "index_ok L db"
  shows "refines L (insert_chunk L h p off sz) () (bump h) db \<and>
     refines L (increment_ref L h) () (bump h) db \<and>
     refines L (decrement_ref L h) (lower (st_refs (abs_index L db) h)) (drop_ref h) db"
  using assms by (intro conjI index_refines)

theorem reference_operations_witness:
  "refines sample_index_libs (insert_chunk sample_index_libs ''a'' ''p'' 0 5) () (bump ''a'') empty_db \<and>
   refines sample_index_libs (decrement_ref sample_index_libs ''a'') 0 (drop_ref ''a'') empty_db"
  using reference_operations [of sample_index_libs empty_db "''a''" "''p''" 0 5]
  by (simp add: lower_def abs_index_def empty_db_def)

definition consistent :: "index_state \<Rightarrow> bool" where
  "consistent a = (\<forall>h. st_known a h = (st_refs a h \<noteq> 0))"

datatype index_op =
    InsertChunk string string u64 u64
  | IncrementRef string
  | DecrementRef string
  | InsertFile string "string list" u64 u64
  | InsertSnapshot string "string list"
  | DeleteSnapshot string
  | FlushWal

definition run_index :: "'db index_libs \<Rightarrow> index_op \<Rightarrow> ('db, unit) step" where
  "run_index L op = (case op of
     InsertChunk h p off sz \<Rightarrow> insert_chunk L h p off sz
   | IncrementRef h \<Rightarrow> increment_ref L h
   | DecrementRef h \<Rightarrow> bindS (decrement_ref L h) (\<lambda>_. returnS ())
   | InsertFile p hs n t \<Rightarrow> insert_file_chunks L p hs n t
   | InsertSnapshot s fs \<Rightarrow> insert_snapshot_files L s fs
   | DeleteSnapshot s \<Rightarrow> delete_snapshot_files L s
   | FlushWal \<Rightarrow> flush_wal L)"

definition wraps :: "index_op \<Rightarrow> index_state \<Rightarrow> bool" where
  "wraps op a = (case op of InsertChunk h p off sz \<Rightarrow> st_refs a h = - 1
     | IncrementRef h \<Rightarrow> st_refs a h = - 1 | _ \<Rightarrow> False)"

definition run_abs :: "index_op \<Rightarrow> index_state \<Rightarrow> index_state" where
  "run_abs op = (case op of
     InsertChunk h p off sz \<Rightarrow> bump h
   | IncrementRef h \<Rightarrow> bump h
   | DecrementRef h \<Rightarrow> drop_ref h
   | InsertFile p hs n t \<Rightarrow> set_file p hs n
   | InsertSnapshot s fs \<Rightarrow> set_snap s fs
   | DeleteSnapshot s \<Rightarrow> set_snap s []
   | FlushWal \<Rightarrow> id)"

lemma run_index_refines: "index_ok L db \<Longrightarrow> refines L (run_index L op) () (run_abs op) db"
proof (cases op)
  case (DecrementRef h)
  moreover assume "index_ok L db"
  then obtain db' where "decrement_ref L h db = (Inr (lower (st_refs (abs_index L db) h)), db')"
    "index_ok L db'" "abs_index L db' = drop_ref h (abs_index L db)"
    by (rule refinesE [OF decrement_ref_refines])
  ultimately show ?thesis by (simp add: refines_def run_index_def run_abs_def)
qed (simp_all add: run_index_def run_abs_def index_refines)

lemma run_abs_consistent: "consistent a \<Longrightarrow> \<not> wraps op a \<Longrightarrow> consistent (run_abs op a)"
  by (cases op) (auto simp: consistent_def run_abs_def wraps_def bump_def drop_ref_def set_file_def
      set_snap_def add_eq_0_iff2)

text \<open>C32: a chunk is in the index exactly when its count is positive: every operation keeps this,
  unless \<open>insert_chunk\<close> or \<open>increment_ref\<close> wraps the count around to zero.\<close>

theorem index_consistent:
  assumes "index_ok L db" and "consistent (abs_index L db)" and "\<not> wraps op (abs_index L db)"
  shows "\<exists>db'. run_index L op db = (Inr (), db') \<and> index_ok L db' \<and>
     abs_index L db' = run_abs op (abs_index L db) \<and> consistent (abs_index L db')"
  using run_index_refines [OF assms(1), of op] run_abs_consistent [OF assms(2,3)]
  by (auto simp: refines_def)

theorem index_consistent_witness:
  "\<exists>db. run_index sample_index_libs (IncrementRef ''a'') empty_db = (Inr (), db) \<and>
     consistent (abs_index sample_index_libs db)"
proof -
  have c: "consistent (abs_index sample_index_libs empty_db)"
    "\<not> wraps (IncrementRef ''a'') (abs_index sample_index_libs empty_db)"
    by (simp_all add: consistent_def wraps_def abs_index_def empty_db_def)
  show ?thesis using index_consistent [OF sample_index_ok c] by blast
qed

text \<open>C34: what is stored for a file is what is read back.  After \<open>insert_file_chunks\<close> the
  file's chunk list and size are the ones given, whatever was stored before, \<open>get_file_chunks\<close>
  of every other file is as before, and no reference count changes.\<close>

theorem file_chunks_roundtrip:
  assumes "index_ok L db"
  shows "\<exists>db'. insert_file_chunks L p hs n t db = (Inr (), db') \<and>
     get_file_chunks L p db' = Inr hs \<and> get_file_size L s p db' = Inr n \<and>
     (\<forall>q. q \<noteq> p \<longrightarrow> get_file_chunks L q db' = get_file_chunks L q db) \<and>
     (\<forall>h. get_ref_count L h db' = get_ref_count L h db)"
proof -
  obtain db' where run: "insert_file_chunks L p hs n t db = (Inr (), db')" and ok: "index_ok L db'"
    and abs: "abs_index L db' = set_file p hs n (abs_index L db)"
    by (rule refinesE [OF insert_file_chunks_refines [OF assms]])
  have "get_file_size L s p db' = Inr n"
    by (rule insert_file_chunks_size [OF assms run])
  with run show ?thesis
    by (simp add: get_file_chunks_ok [OF ok] get_file_chunks_ok [OF assms] get_ref_count_ok [OF ok]
        get_ref_count_ok [OF assms] abs set_file_def)
qed

theorem file_chunks_roundtrip_witness:
  "\<exists>db. insert_file_chunks sample_index_libs ''a'' [''h1'', ''h2''] 7 0 empty_db = (Inr (), db) \<and>
     get_file_chunks sample_index_libs ''a'' db = Inr [''h1'', ''h2''] \<and>
     get_file_chunks sample_index_libs ''b'' db = Inr []"
proof -
  have "get_file_chunks sample_index_libs ''b'' empty_db = Inr []"
    by (simp add: get_file_chunks_def need_cf_def sample_index_libs_def empty_db_def)
  with file_chunks_roundtrip [OF sample_index_ok, of "''a''" "[''h1'', ''h2'']" 7 0 empty_db "''s''"]
  show ?thesis by (elim exE conjE) (rule exI, auto)
qed

section \<open>The largest files\<close>

lemma insert_by_size_mset: "mset (insert_by_size x xs) = add_mset x (mset xs)"
  by (induction xs) auto

lemma sort_by_size_mset: "mset (sort_by_size xs) = mset xs"
  by (induction xs) (simp_all add: sort_by_size_def insert_by_size_mset)

definition by_size :: "(string \<times> u64) list \<Rightarrow> bool" where
  "by_size xs = sorted_wrt (\<lambda>x y. snd y \<le> snd x) xs"

lemma insert_by_size_sorted: "by_size xs \<Longrightarrow> by_size (insert_by_size x xs)"
proof (induction xs)
  case (Cons y ys)
  have "set (insert_by_size x ys) = insert x (set ys)"
    using arg_cong [OF insert_by_size_mset [of x ys], of set_mset] by simp
  with Cons show ?case by (auto simp: by_size_def)
qed (simp add: by_size_def)

lemma sort_by_size_sorted: "by_size (sort_by_size xs)"
  by (induction xs) (simp_all add: sort_by_size_def insert_by_size_sorted, simp add: by_size_def)

lemma insert_by_size_filter:
  "filter (\<lambda>y. snd y = n) (insert_by_size x xs) = filter (\<lambda>y. snd y = n) (x # xs)" if "by_size xs"
  using that by (induction xs) (auto simp: by_size_def)

text \<open>\<open>get_largest_files\<close> returns at most \<open>limit\<close> of the indexed files, by descending size;
  they are a prefix of a sorting of all of them that keeps files of the same size in key order,
  so no file left out is larger than one returned.\<close>

theorem largest_files_spec:
  assumes "get_largest_files L limit db = Inr out"
  shows "\<exists>all rest. files_with_sizes L (iter_cf L db CF_FILE_META) = Inr all \<and>
     mset (out @ rest) = mset all \<and> by_size (out @ rest) \<and> length out = min limit (length all) \<and>
     (\<forall>n. filter (\<lambda>y. snd y = n) (out @ rest) = filter (\<lambda>y. snd y = n) all)"
proof -
  obtain all where all: "files_with_sizes L (iter_cf L db CF_FILE_META) = Inr all"
    and out: "out = take limit (sort_by_size all)"
    using assms by (auto simp: get_largest_files_def bindE_Inr_iff)
  have "filter (\<lambda>y. snd y = n) (sort_by_size xs) = filter (\<lambda>y. snd y = n) xs" for n xs
    by (induction xs) (auto simp: sort_by_size_def insert_by_size_filter
        sort_by_size_sorted [unfolded sort_by_size_def])
  moreover have "length (sort_by_size all) = length all"
    using arg_cong [OF sort_by_size_mset [of all], of size] by simp
  ultimately have "mset (out @ drop limit (sort_by_size all)) = mset all \<and>
      by_size (out @ drop limit (sort_by_size all)) \<and> length out = min limit (length all) \<and>
     (\<forall>n. filter (\<lambda>y. snd y = n) (out @ drop limit (sort_by_size all)) = filter (\<lambda>y. snd y = n) all)"
    by (simp add: out sort_by_size_mset sort_by_size_sorted)
  with all show ?thesis by blast
qed

theorem largest_files_spec_witness:
  "\<exists>all rest. files_with_sizes
       (sample_index_libs\<lparr>json_parse := \<lambda>b. Inr (JObj [(''size'', JNum (of_nat (length b)))])\<rparr>)
       [Inr ([97], [0]), Inr ([98], [0, 0, 0]), Inr ([99], [0])] = Inr all \<and>
     mset ([(''b'', 3), (''a'', 1)] @ rest) = mset all"
proof -
  let ?L = "sample_index_libs\<lparr>json_parse := \<lambda>b. Inr (JObj [(''size'', JNum (of_nat (length b)))])\<rparr>"
  let ?db = "(\<lambda>cf. if cf = CF_FILE_META then [([97], [0]), ([98], [0, 0, 0]), ([99], [0])] else []) :: sample_db"
  have it: "iter_cf ?L ?db CF_FILE_META = [Inr ([97], [0]), Inr ([98], [0, 0, 0]), Inr ([99], [0])]"
    by (simp add: sample_index_libs_def)
  have "get_largest_files ?L 2 ?db = Inr [(''b'', 3), (''a'', 1)]"
    by (simp add: get_largest_files_def need_cf_def it)
      (simp add: sample_index_libs_def sort_by_size_def meta_size_def jget_def as_u64_def string_of_def, code_simp)
  from largest_files_spec [OF this] obtain all rest where
    "files_with_sizes ?L (iter_cf ?L ?db CF_FILE_META) = Inr all"
    "mset ([(''b'', 3), (''a'', 1)] @ rest) = mset all" by blast
  then show ?thesis unfolding it by blast
qed

end
