(* ===== verification/Transaction.thy ===== *)
theory Transaction
  imports Block_Index
begin

text \<open>
  The transaction manager, \<open>sidecar/src/backup/transaction.rs\<close>: the list of chunks a backup has
  added to the index, the commit that makes them permanent and the rollback that releases them.

  The manager's state is the database of the shared index and the list of transient objects.  A
  mutex that is taken with \<open>lock().await\<close> is free when the call continues, so it does not appear;
  \<open>try_lock\<close> may fail while another task holds the lock, and is the boolean \<open>free\<close>.  The clock
  is the argument \<open>now\<close>.
\<close>

datatype transaction_state = Pending | Active | Committing | Committed | Aborted | RollingBack

record transaction =
  tx_id :: string
  tx_state :: transaction_state
  created_at :: string
  completed_at :: "string option"
  files_processed :: u64
  bytes_processed :: u64
  chunks_total :: u64

record transient_object =
  chunk_hash :: string
  object_path :: string

record 'db tx_manager =
  tm_db :: 'db
  transient_objects :: "transient_object list"

definition TransactionManager_new :: "'db \<Rightarrow> 'db tx_manager" where
  "TransactionManager_new db = \<lparr>tm_db = db, transient_objects = []\<rparr>"

definition begin_tx :: "string \<Rightarrow> string \<Rightarrow> ('db tx_manager, transaction) step" where
  "begin_tx now i tm =
     (Inr \<lparr>tx_id = i, tx_state = Active, created_at = now, completed_at = None,
           files_processed = 0, bytes_processed = 0, chunks_total = 0\<rparr>,
      tm\<lparr>transient_objects := []\<rparr>)"

definition track_object :: "bool \<Rightarrow> string \<Rightarrow> string \<Rightarrow> 'db tx_manager \<Rightarrow> 'db tx_manager" where
  "track_object free h p tm =
     (if free then tm\<lparr>transient_objects := transient_objects tm @ [\<lparr>chunk_hash = h, object_path = p\<rparr>]\<rparr> else tm)"

definition clear_transients :: "bool \<Rightarrow> 'db tx_manager \<Rightarrow> 'db tx_manager" where
  "clear_transients free tm = (if free then tm\<lparr>transient_objects := []\<rparr> else tm)"

definition commit :: "'db index_libs \<Rightarrow> bool \<Rightarrow> transaction \<Rightarrow> ('db tx_manager, unit) step" where
  "commit L free tx tm =
     (case flush_wal L (tm_db tm) of
        (Inl e, db) \<Rightarrow> (Inl e, tm\<lparr>tm_db := db\<rparr>)
      | (Inr u, db) \<Rightarrow> (Inr (), clear_transients free (tm\<lparr>tm_db := db\<rparr>)))"

text \<open>A failing \<open>decrement_ref\<close> is logged and the loop goes on.\<close>

fun release_all :: "'db index_libs \<Rightarrow> transient_object list \<Rightarrow> 'db \<Rightarrow> 'db" where
  "release_all L [] db = db"
| "release_all L (x # xs) db = release_all L xs (snd (decrement_ref L (chunk_hash x) db))"

definition rollback_tx :: "'db index_libs \<Rightarrow> bool \<Rightarrow> transaction \<Rightarrow> ('db tx_manager, unit) step" where
  "rollback_tx L free tx tm =
     (Inr (), clear_transients free (tm\<lparr>tm_db := release_all L (transient_objects tm) (tm_db tm)\<rparr>))"

section \<open>What a transaction does to the index\<close>

text \<open>The two things a backup does with a chunk (the closure in \<open>BackupEngine::run_backup\<close>): a new
  chunk is tracked and inserted, a known one gets one more reference, which is not tracked.\<close>

inductive tx_step :: "'db index_libs \<Rightarrow> 'db tx_manager \<Rightarrow> string list \<times> string list \<Rightarrow> 'db tx_manager \<Rightarrow> bool"
  for L :: "'db index_libs" where
  new_chunk: "insert_chunk L h p off sz (tm_db tm) = (Inr (), db) \<Longrightarrow>
     tx_step L tm ([h], []) ((track_object True h q tm)\<lparr>tm_db := db\<rparr>)"
| known_chunk: "increment_ref L h (tm_db tm) = (Inr (), db) \<Longrightarrow> tx_step L tm ([], [h]) (tm\<lparr>tm_db := db\<rparr>)"

inductive_cases tx_step_newE: "tx_step L tm ([h], []) tm'"
inductive_cases tx_step_knownE: "tx_step L tm ([], [h]) tm'"

text \<open>A run of such steps, with the chunks added and the references taken so far.\<close>

inductive tx_run :: "'db index_libs \<Rightarrow> 'db tx_manager \<Rightarrow> string list \<Rightarrow> string list \<Rightarrow> 'db tx_manager \<Rightarrow> bool"
  for L :: "'db index_libs" and tm0 :: "'db tx_manager" where
  start: "tx_run L tm0 [] [] tm0"
| more: "tx_run L tm0 news dups tm \<Longrightarrow> tx_step L tm (n, d) tm' \<Longrightarrow> tx_run L tm0 (news @ n) (dups @ d) tm'"

abbreviation refs_of :: "'db index_libs \<Rightarrow> 'db tx_manager \<Rightarrow> string \<Rightarrow> u64" where
  "refs_of L tm \<equiv> st_refs (abs_index L (tm_db tm))"

text \<open>The invariant of a running transaction: what is tracked are the chunks added, and the counts
  have grown by the chunks added and the references taken.\<close>

lemma tx_step_effect:
  assumes "tx_step L tm (n, d) tm'" and "index_ok L (tm_db tm)"
  shows "index_ok L (tm_db tm') \<and>
     map chunk_hash (transient_objects tm') = map chunk_hash (transient_objects tm) @ n \<and>
     refs_of L tm' = (\<lambda>h. refs_of L tm h + of_nat (count_list (n @ d) h))"
  using assms(1)
proof (cases rule: tx_step.cases)
  case (new_chunk h p off sz db q)
  with insert_chunk_law [OF assms(2), of h p off sz] show ?thesis
    by (auto simp: track_object_def fun_eq_iff)
next
  case (known_chunk h db)
  with increment_ref_law [OF assms(2), of h] show ?thesis by (auto simp: fun_eq_iff)
qed

lemma tx_run_invariant:
  assumes "tx_run L tm0 news dups tm" and "index_ok L (tm_db tm0)" and "transient_objects tm0 = []"
  shows "index_ok L (tm_db tm) \<and> map chunk_hash (transient_objects tm) = news \<and>
     refs_of L tm = (\<lambda>h. refs_of L tm0 h + of_nat (count_list news h) + of_nat (count_list dups h))"
  using assms(1)
proof (induction rule: tx_run.induct)
  case start
  show ?case using assms(2,3) by simp
next
  case (more news dups tm n d tm')
  then show ?case using tx_step_effect [OF more.hyps(2)] by (auto simp: fun_eq_iff)
qed

lemma release_all_decs:
  "index_ok L db \<Longrightarrow> for_each (decrement_ref L) (map chunk_hash xs) db = (Inr (), release_all L xs db)"
proof (induction xs arbitrary: db)
  case (Cons x xs)
  from decrement_ref_law [OF Cons.prems, of "chunk_hash x"] Cons.IH show ?case by auto
qed simp

lemma release_all_effect:
  assumes "index_ok L db"
  shows "index_ok L (release_all L xs db) \<and> (\<forall>h. unat (st_refs (abs_index L (release_all L xs db)) h) =
     unat (st_refs (abs_index L db) h) - count_list (map chunk_hash xs) h)"
  using block_refs.decs [OF assms, of "map chunk_hash xs"] release_all_decs [OF assms, of xs] by auto

section \<open>Properties of transactions\<close>

text \<open>C35: rollback.  Rolling back a transaction releases the references of the chunks it added and
  nothing else: every chunk is back at its count from before the transaction plus the
  references that the transaction took on chunks it found in the index.  So the count of a
  chunk is restored exactly when the transaction did not meet it as a known chunk.\<close>

theorem rollback_counts:
  assumes "index_ok L (tm_db tm0)" and "transient_objects tm0 = []" and "tx_run L tm0 news dups tm"
    and "\<And>h. unat (refs_of L tm0 h) + count_list news h + count_list dups h < 2 ^ 64"
  shows "\<exists>tm'. rollback_tx L True tx tm = (Inr (), tm') \<and> transient_objects tm' = [] \<and>
     index_ok L (tm_db tm') \<and>
     (\<forall>h. unat (refs_of L tm' h) = unat (refs_of L tm0 h) + count_list dups h) \<and>
     (\<forall>h. (refs_of L tm' h = refs_of L tm0 h) = (h \<notin> set dups))"
proof -
  note inv = tx_run_invariant [OF assms(3,1,2)]
  let ?tm' = "(tm\<lparr>tm_db := release_all L (transient_objects tm) (tm_db tm)\<rparr>)\<lparr>transient_objects := []\<rparr>"
  have run: "rollback_tx L True tx tm = (Inr (), ?tm')"
    by (simp add: rollback_tx_def clear_transients_def)
  have "unat (refs_of L tm h) = unat (refs_of L tm0 h) + count_list news h + count_list dups h" for h
    using inv assms(4) [of h] by (simp add: unat_word_ariths unat_of_nat)
  then have u: "unat (refs_of L ?tm' h) = unat (refs_of L tm0 h) + count_list dups h" for h
    using release_all_effect [of L "tm_db tm" "transient_objects tm"] inv by simp
  have "(refs_of L ?tm' h = refs_of L tm0 h) = (count_list dups h = 0)" for h
    using u [of h] by (simp add: word_unat_eq_iff)
  then have "(refs_of L ?tm' h = refs_of L tm0 h) = (h \<notin> set dups)" for h
    by (simp add: count_list_0_iff)
  with run u release_all_effect [of L "tm_db tm" "transient_objects tm"] inv show ?thesis by auto
qed

theorem rollback_counts_witness:
  "\<exists>tx tm tm'. tx_run sample_index_libs (TransactionManager_new empty_db) [''a''] [''a''] tm \<and>
     rollback_tx sample_index_libs True tx tm = (Inr (), tm') \<and>
     refs_of sample_index_libs tm' ''a'' = 1"
proof -
  let ?L = sample_index_libs and ?tm0 = "TransactionManager_new empty_db"
  have z: "refs_of ?L ?tm0 h = 0" for h by (simp add: TransactionManager_new_def abs_index_def empty_db_def)
  obtain db1 where 1: "insert_chunk ?L ''a'' ''f'' 0 5 (tm_db ?tm0) = (Inr (), db1)"
    using insert_chunk_law [OF sample_index_ok] by blast
  obtain db2 where 2: "increment_ref ?L ''a'' db1 = (Inr (), db2)"
    using increment_ref_law [OF sample_index_ok] by blast
  let ?tm1 = "(track_object True ''a'' ''o'' ?tm0)\<lparr>tm_db := db1\<rparr>"
  have "tx_run ?L ?tm0 ([] @ [''a'']) ([] @ []) ?tm1"
    by (rule tx_run.more [OF tx_run.start tx_step.new_chunk [OF 1]])
  then have "tx_run ?L ?tm0 (([] @ [''a'']) @ []) (([] @ []) @ [''a'']) (?tm1\<lparr>tm_db := db2\<rparr>)"
    by (rule tx_run.more) (rule tx_step.known_chunk, simp add: 2)
  then have run: "tx_run ?L ?tm0 [''a''] [''a''] (?tm1\<lparr>tm_db := db2\<rparr>)" by simp
  have "transient_objects ?tm0 = []" by (simp add: TransactionManager_new_def)
  moreover have "\<And>h. unat (refs_of ?L ?tm0 h) + count_list [''a''] h + count_list [''a''] h < 2 ^ 64"
    by (simp add: z)
  ultimately obtain tm' where
    tm': "rollback_tx ?L True undefined (?tm1\<lparr>tm_db := db2\<rparr>) = (Inr (), tm')"
    "\<forall>h. unat (refs_of ?L tm' h) = unat (refs_of ?L ?tm0 h) + count_list [''a''] h"
    using rollback_counts [OF sample_index_ok _ run] by blast
  then have "unat (refs_of ?L tm' ''a'') = 1" by (simp add: z)
  then have "refs_of ?L tm' ''a'' = 1" by (simp add: word_unat_eq_iff)
  with run tm'(1) show ?thesis by blast
qed

text \<open>Commit.  On a healthy index a commit succeeds and changes no map of the index; when the
  lock of the list is free the list is emptied, so a later rollback releases nothing.\<close>

theorem commit_permanent:
  assumes "index_ok L (tm_db tm)"
  shows "\<exists>tm'. commit L True tx tm = (Inr (), tm') \<and> abs_index L (tm_db tm') = abs_index L (tm_db tm) \<and>
     rollback_tx L free tx2 tm' = (Inr (), tm')"
proof -
  obtain db where "flush_wal L (tm_db tm) = (Inr (), db)" "abs_index L db = abs_index L (tm_db tm)"
    using refinesE [OF flush_wal_refines [OF assms]] by (metis id_apply)
  then show ?thesis by (simp add: commit_def clear_transients_def rollback_tx_def)
qed

theorem commit_permanent_witness:
  "\<exists>tx tm. begin_tx ''now'' ''t1'' (TransactionManager_new empty_db) = (Inr tx, tm) \<and>
     (\<exists>tm'. commit sample_index_libs True tx tm = (Inr (), tm') \<and>
            rollback_tx sample_index_libs True tx tm' = (Inr (), tm'))"
  using commit_permanent [OF sample_index_ok]
  by (simp add: begin_tx_def) blast

end
