(* ===== verification/Signing.thy ===== *)
theory Signing
  imports Filesystem
begin

text \<open>
  Snapshot signatures, \<open>sidecar/src/signing.rs\<close>.  Ed25519 and base64 are the parameter \<open>S\<close>;
  the key that \<open>SigningKey::generate\<close> draws is an argument.  The file of the signing key and
  the file of the public key beside it are written by \<open>load_or_create\<close>.
\<close>

record sign_libs =
  ed_sign :: "bytes \<Rightarrow> bytes \<Rightarrow> bytes"          \<comment> \<open>signing key, data\<close>
  ed_public :: "bytes \<Rightarrow> bytes"
  ed_key_ok :: "bytes \<Rightarrow> bool"                 \<comment> \<open>\<open>VerifyingKey::from_bytes\<close> succeeds\<close>
  ed_verify :: "bytes \<Rightarrow> bytes \<Rightarrow> bytes \<Rightarrow> bool" \<comment> \<open>public key, data, signature\<close>
  b64_encode :: "bytes \<Rightarrow> string"
  b64_decode :: "string \<Rightarrow> bytes option"

definition KEY_SIZE :: nat where "KEY_SIZE = 32"
definition SIGNATURE_SIZE :: nat where "SIGNATURE_SIZE = 64"

record snapshot_signer =
  signing_key :: bytes
  signer_key_path :: path

text \<open>\<open>str::trim\<close>: white space of Unicode, as UTF-8 bytes.\<close>

definition white_space :: "string list" where
  "white_space = map (\<lambda>n. [char_of (n :: nat)]) [9, 10, 11, 12, 13, 32] @
     map (map (\<lambda>n. char_of (n :: nat)))
       ([[194, 133], [194, 160], [225, 154, 128], [226, 128, 168], [226, 128, 169], [226, 128, 175],
         [226, 129, 159], [227, 128, 128]] @ map (\<lambda>n. [226, 128, n]) [128..<139])"

lemma white_space_ne: "w \<in> set white_space \<Longrightarrow> w \<noteq> []"
  by (auto simp: white_space_def)

definition leading :: "string list \<Rightarrow> string \<Rightarrow> string option" where
  "leading ws s = find (\<lambda>w. take (length w) s = w) ws"

function trim_leading :: "string list \<Rightarrow> string \<Rightarrow> string" where
  "trim_leading ws s = (case leading (filter (\<lambda>w. w \<noteq> []) ws) s of
     Some w \<Rightarrow> if s = [] then s else trim_leading ws (drop (length w) s) | None \<Rightarrow> s)"
  by pat_completeness auto
termination
  by (relation "measure (\<lambda>(ws, s). length s)") (auto simp: leading_def find_Some_iff dest!: nth_mem)

declare trim_leading.simps [simp del]

definition trim :: "string \<Rightarrow> string" where
  "trim s = rev (trim_leading (map rev white_space) (rev (trim_leading white_space s)))"

definition public_key_path :: "path \<Rightarrow> path" where
  "public_key_path p = butlast p @ [last p @ ''.pub'']"

definition load_or_create :: "sign_libs \<Rightarrow> bytes \<Rightarrow> path \<Rightarrow> (fs, snapshot_signer) step" where
  "load_or_create S fresh key_path f =
     (if fs_exists f key_path then
        (case fs_read f key_path of
           Inl e \<Rightarrow> (Inl (Failure ''cannot read signing key''), f)
         | Inr b \<Rightarrow>
             if length b \<noteq> KEY_SIZE then (Inl (Failure ''invalid Ed25519 signing key size''), f)
             else (Inr \<lparr>signing_key = b, signer_key_path = key_path\<rparr>, f))
      else
        bindS (if key_path = [] then returnS () else create_dir_all (parent key_path)) (\<lambda>_.
        bindS (fs_write key_path fresh) (\<lambda>_.
        bindS (fs_write (public_key_path key_path) (ed_public S fresh)) (\<lambda>_.
        returnS \<lparr>signing_key = fresh, signer_key_path = key_path\<rparr>))) f)"

definition sign :: "sign_libs \<Rightarrow> snapshot_signer \<Rightarrow> bytes \<Rightarrow> string" where
  "sign S sg data = b64_encode S (ed_sign S (signing_key sg) data)"

definition verifying_key_bytes :: "sign_libs \<Rightarrow> snapshot_signer \<Rightarrow> bytes" where
  "verifying_key_bytes S sg = ed_public S (signing_key sg)"

definition verify_signature :: "sign_libs \<Rightarrow> bytes \<Rightarrow> string \<Rightarrow> bytes \<Rightarrow> bool" where
  "verify_signature S data signature_b64 public_key =
     (case b64_decode S (trim signature_b64) of
        None \<Rightarrow> False
      | Some sig \<Rightarrow>
          if length sig \<noteq> SIGNATURE_SIZE then False
          else if length public_key \<noteq> KEY_SIZE then False
          else if \<not> ed_key_ok S public_key then False
          else ed_verify S public_key data sig)"

text \<open>What the crates promise: signatures have 64 bytes and verify under the public key of the
  signing key, a public key has 32 bytes and is valid, and base64 text decodes to what was
  encoded and has only letters, digits, \<open>+\<close>, \<open>/\<close> and \<open>=\<close>.\<close>

definition b64_char :: "char \<Rightarrow> bool" where
  "b64_char c = (let n = (of_char c :: nat) in n = 43 \<or> (47 \<le> n \<and> n \<le> 57) \<or> n = 61 \<or>
     (65 \<le> n \<and> n \<le> 90) \<or> (97 \<le> n \<and> n \<le> 122))"

definition sign_laws :: "sign_libs \<Rightarrow> bool" where
  "sign_laws S =
     ((\<forall>k m. length (ed_sign S k m) = 64) \<and> (\<forall>k. length (ed_public S k) = 32 \<and> ed_key_ok S (ed_public S k)) \<and>
      (\<forall>k m. ed_verify S (ed_public S k) m (ed_sign S k m)) \<and>
      (\<forall>b. b64_decode S (b64_encode S b) = Some b) \<and> (\<forall>b. list_all b64_char (b64_encode S b)))"

lemma trim_leading_id:
  assumes "\<And>w. w \<in> set ws \<Longrightarrow> w \<noteq> [] \<Longrightarrow> \<not> b64_char (hd w)" and "list_all b64_char s"
  shows "trim_leading ws s = s"
proof (cases s)
  case (Cons c cs)
  have "leading (filter (\<lambda>w. w \<noteq> []) ws) s = None"
    unfolding leading_def find_None_iff
  proof
    assume "\<exists>w. w \<in> set (filter (\<lambda>w. w \<noteq> []) ws) \<and> take (length w) s = w"
    then obtain w where "w \<in> set ws" "w \<noteq> []" "take (length w) s = w" by auto
    then have "hd w = c" using Cons hd_take [of "length w" s] by simp
    with assms \<open>w \<in> set ws\<close> \<open>w \<noteq> []\<close> Cons show False by auto
  qed
  then show ?thesis by (simp add: trim_leading.simps [of ws s])
qed (simp add: trim_leading.simps split: option.split)

lemma white_space_heads:
  "list_all (\<lambda>w. w \<noteq> [] \<longrightarrow> \<not> b64_char (hd w)) white_space"
  "list_all (\<lambda>w. w \<noteq> [] \<longrightarrow> \<not> b64_char (hd w)) (map rev white_space)"
  by (simp_all add: white_space_def upt_rec b64_char_def)

lemma trim_b64: "list_all b64_char s \<Longrightarrow> trim s = s"
  using trim_leading_id [of white_space s] trim_leading_id [of "map rev white_space" "rev s"] white_space_heads
  unfolding trim_def list_all_iff by simp

text \<open>A signature verifies.  What \<open>sign\<close> makes for some data is accepted by
  \<open>verify_signature\<close> for the same data and the signer's public key.\<close>

theorem sign_verify:
  assumes "sign_laws S"
  shows "verify_signature S data (sign S sg data) (verifying_key_bytes S sg)"
  using assms
  by (simp add: verify_signature_def sign_def verifying_key_bytes_def sign_laws_def trim_b64
      SIGNATURE_SIZE_def KEY_SIZE_def)

text \<open>The key persists.  Once \<open>load_or_create\<close> has made a signer with a fresh 32-byte key,
  every later call on the same file system gives the same signer, whatever key it would draw,
  and changes nothing; the public key file holds the signer's public key.\<close>

theorem signer_persists:
  assumes "load_or_create S fresh p f = (Inr sg, f')" and "length fresh = KEY_SIZE" and "p \<noteq> []"
  shows "load_or_create S fresh2 p f' = (Inr sg, f') \<and>
     (fs_exists f p \<or> fs_read f' (public_key_path p) = Inr (verifying_key_bytes S sg))"
proof (cases "fs_exists f p")
  case True
  with assms show ?thesis by (auto simp: load_or_create_def split: sum.splits if_splits)
next
  case False
  with assms(1,3) obtain f1 f2 where
    w: "fs_write p fresh f1 = (Inr (), f2)" "fs_write (public_key_path p) (ed_public S fresh) f2 = (Inr (), f')"
    and sg: "sg = \<lparr>signing_key = fresh, signer_key_path = p\<rparr>"
    by (auto simp: load_or_create_def bindS_Inr_iff)
  have "length (last p @ ''.pub'') \<noteq> length (last p)" by simp
  then have "public_key_path p \<noteq> p"
    using assms(3) by (metis append_butlast_last_id last_snoc public_key_path_def)
  then have r: "fs_read f' p = Inr fresh" using fs_read_write [OF w(1)] fs_read_write [OF w(2)] by simp
  then have "fs_exists f' p" using fs_read_InrD [OF r] by (simp add: fs_exists_def)
  with r assms(2) fs_read_write [OF w(2)] sg show ?thesis
    by (simp add: load_or_create_def verifying_key_bytes_def)
qed

text \<open>Toy Ed25519 and base64 that meet the laws.\<close>

definition nibble :: "nat \<Rightarrow> char" where
  "nibble n = char_of (65 + n)"

fun sample_b64 :: "bytes \<Rightarrow> string" where
  "sample_b64 [] = []"
| "sample_b64 (b # bs) = nibble (unat b div 16) # nibble (unat b mod 16) # sample_b64 bs"

fun sample_unb64 :: "string \<Rightarrow> bytes option" where
  "sample_unb64 [] = Some []"
| "sample_unb64 (x # y # s) = map_option (\<lambda>bs. of_nat ((of_char x - 65) * 16 + (of_char y - 65)) # bs) (sample_unb64 s)"
| "sample_unb64 [x] = None"

definition sample_sign :: "bytes \<Rightarrow> bytes \<Rightarrow> bytes" where
  "sample_sign p m = p @ replicate 32 (fold (\<lambda>b a. a * 31 + b) m 0)"

definition sample_sign_libs :: sign_libs where
  "sample_sign_libs = \<lparr>ed_sign = (\<lambda>k. sample_sign (take 32 (k @ replicate 32 0))), ed_public = (\<lambda>k. take 32 (k @ replicate 32 0)),
     ed_key_ok = (\<lambda>k. True), ed_verify = (\<lambda>p m sg. sg = sample_sign p m),
     b64_encode = sample_b64, b64_decode = sample_unb64\<rparr>"

lemma nibble_value: "n < 16 \<Longrightarrow> of_char (nibble n) = 65 + n"
  by (simp add: nibble_def)

lemma nibbles: "unat (b :: u8) div 16 < 16" "unat b mod 16 < 16"
proof -
  have "unat b < 2 ^ 8" using unsigned_less [of b] by simp
  then show "unat b div 16 < 16" "unat b mod 16 < 16" by simp_all
qed

lemma sample_b64_roundtrip: "sample_unb64 (sample_b64 b) = Some b"
proof (induction b)
  case (Cons b bs)
  show ?case using Cons nibbles [of b] by (simp add: nibble_value)
qed simp

lemma sample_b64_chars: "list_all b64_char (sample_b64 b)"
proof (induction b)
  case (Cons b bs)
  have "b64_char (nibble n)" if "n < 16" for n
    using that by (simp add: nibble_value b64_char_def Let_def)
  with Cons nibbles [of b] show ?case by simp
qed simp

lemma sample_sign_laws: "sign_laws sample_sign_libs"
  by (auto simp: sign_laws_def sample_sign_libs_def sample_sign_def sample_b64_roundtrip sample_b64_chars)

theorem sign_verify_witness:
  "sign_laws sample_sign_libs \<and>
   verify_signature sample_sign_libs [1, 2] (sign sample_sign_libs \<lparr>signing_key = [9], signer_key_path = []\<rparr> [1, 2])
     (verifying_key_bytes sample_sign_libs \<lparr>signing_key = [9], signer_key_path = []\<rparr>)"
  using sign_verify [OF sample_sign_laws] sample_sign_laws by blast

theorem signer_persists_witness:
  "\<exists>sg f. load_or_create sample_sign_libs (replicate 32 7) [''k'']
       \<lparr>entries = [], faulty = [], real_path = id\<rparr> = (Inr sg, f) \<and>
     load_or_create sample_sign_libs (replicate 32 9) [''k''] f = (Inr sg, f)"
proof -
  have "fst (load_or_create sample_sign_libs (replicate 32 7) [''k'']
       \<lparr>entries = [], faulty = [], real_path = id\<rparr>) = Inr \<lparr>signing_key = replicate 32 7, signer_key_path = [''k'']\<rparr>"
    by (simp add: load_or_create_def fs_exists_def fs_node_def create_dir_all_def parent_def fs_write_def
        is_dir_def set_node_def public_key_path_def bindS_def)
  then obtain f sg where run: "load_or_create sample_sign_libs (replicate 32 7) [''k'']
       \<lparr>entries = [], faulty = [], real_path = id\<rparr> = (Inr sg, f)" by (metis prod.collapse)
  from signer_persists [OF this] run show ?thesis by (auto simp: KEY_SIZE_def)
qed

end
