(* ===== verification/Engine.thy ===== *)
theory Engine
  imports Chunker Config Scanner Object_Store Transaction Signing
begin

text \<open>
  The backup engine, \<open>sidecar/src/backup/mod.rs\<close>: its state, the backup, and the loading of
  snapshots.  Restoring is in \<open>Restore\<close>, the maintenance operations are in \<open>Maintenance\<close>.

  The state is one record: the index database, the object store, the file system and the fields
  behind the engine's locks.  One request runs at a time, except that a backup meets a
  cancellation: \<open>cancelled env\<close> says before which file the \<open>cancel\<close> request arrives.  The file
  tasks of a backup hold all locks while they work, so they run one after the other, in an
  order \<open>order env\<close> that the scheduler picks.  Clock, UUID and the sizes of the operating
  system's reads are part of the environment \<open>env\<close> of a call.

  Left out of the state: the floating-point and host statistics of \<open>SystemState\<close>, which no
  operation reads, and the semaphore.  A result \<open>None\<close> is a call that does not return.
\<close>

record system_state =
  running :: bool
  current_tx :: "string option"
  state_name :: string
  scanner_queue :: u64
  chunk_queue :: u64
  compress_queue :: u64
  encrypt_queue :: u64
  upload_queue :: u64
  total_snapshots :: u64
  total_size_bytes :: u64
  stat_packfile_count :: u64

record snapshot_info =
  si_id :: string
  si_timestamp :: string
  si_tag :: "string option"
  si_files_scanned :: u64
  si_bytes_processed :: u64
  si_chunks_total :: u64
  si_chunks_deduped :: u64

record backup_result =
  br_snapshot_id :: string
  br_files_scanned :: u64
  br_files_changed :: u64
  br_files_skipped :: u64
  br_bytes_processed :: u64
  br_chunks_deduped :: u64
  br_chunks_new :: u64
  br_duration_ms :: u64

record 'db engine =
  server_root :: path
  index_db :: 'db
  obj_store :: object_store
  disk :: fs
  mtimes :: "path \<Rightarrow> u64"
  active_transaction :: "transaction option"
  transients :: "transient_object list"
  sys :: system_state
  snapshots :: "snapshot_info list"
  signer :: "snapshot_signer option"
  config :: SidecarConfig

text \<open>The crates, and the environment of one call.\<close>

record 'db crates =
  cr_libs :: libs
  cr_index :: "'db index_libs"
  cr_sign :: sign_libs
  cr_rfc3339 :: "string \<Rightarrow> int option"       \<comment> \<open>nanoseconds since 1970\<close>
  cr_minus :: "int \<Rightarrow> int \<Rightarrow> int option"       \<comment> \<open>a time less some seconds, unless out of range\<close>
  cr_plus_days :: "string \<Rightarrow> u64 \<Rightarrow> string option"
  cr_alphanumeric :: "string \<Rightarrow> bool"         \<comment> \<open>of a character beyond ASCII\<close>

record env =
  now :: string
  now_ns :: int
  uuid8 :: string
  millis :: u64
  reads :: "bytes \<Rightarrow> reader"
  order :: "nat \<Rightarrow> nat list"
  cancelled :: "nat option"

definition SystemState_default :: system_state where
  "SystemState_default = \<lparr>running = False, current_tx = None, state_name = ''idle'', scanner_queue = 0,
     chunk_queue = 0, compress_queue = 0, encrypt_queue = 0, upload_queue = 0, total_snapshots = 0,
     total_size_bytes = 0, stat_packfile_count = 0\<rparr>"

section \<open>Construction\<close>

definition sign_key_path :: "path \<Rightarrow> SidecarConfig \<Rightarrow> path" where
  "sign_key_path root cfg =
     (case cfg_key_path cfg of Some s \<Rightarrow> path_of s | None \<Rightarrow> child root ''.obsidian/keys/sign.key'')"

text \<open>\<open>BackupEngine::new\<close>; \<open>fresh\<close> is the key that is drawn when there is none.\<close>

definition BackupEngine_new ::
  "sign_libs \<Rightarrow> bytes \<Rightarrow> path \<Rightarrow> 'db \<Rightarrow> object_store \<Rightarrow> SidecarConfig \<Rightarrow> fs \<Rightarrow> (path \<Rightarrow> u64) \<Rightarrow> 'db engine" where
  "BackupEngine_new S fresh root db store cfg f mt =
     (let (sg, f1) = (if signing_enabled cfg then
                        (case load_or_create S fresh (sign_key_path root cfg) f of
                           (Inr s, f1) \<Rightarrow> (Some s, f1) | (Inl x, f1) \<Rightarrow> (None, f1))
                      else (None, f))
      in \<lparr>server_root = root, index_db = db, obj_store = store, disk = f1, mtimes = mt,
          active_transaction = None, transients = [], sys = SystemState_default, snapshots = [],
          signer = sg, config = cfg\<rparr>)"

section \<open>Access to the parts\<close>

definition on_index :: "('db, 'a) step \<Rightarrow> ('db engine, 'a) step" where
  "on_index m e = (let (r, db) = m (index_db e) in (r, e\<lparr>index_db := db\<rparr>))"

definition on_disk :: "(fs, 'a) step \<Rightarrow> ('db engine, 'a) step" where
  "on_disk m e = (let (r, f) = m (disk e) in (r, e\<lparr>disk := f\<rparr>))"

definition on_tx :: "('db tx_manager, 'a) step \<Rightarrow> ('db engine, 'a) step" where
  "on_tx m e = (let (r, tm) = m \<lparr>tm_db = index_db e, transient_objects = transients e\<rparr> in
     (r, e\<lparr>index_db := tm_db tm, transients := transient_objects tm\<rparr>))"

definition upd :: "('db engine \<Rightarrow> 'db engine) \<Rightarrow> ('db engine, unit) step" where
  "upd g e = (Inr (), g e)"

definition snapshot_dir :: "'db engine \<Rightarrow> path" where
  "snapshot_dir e = child (server_root e) ''.obsidian/store/snapshots''"

section \<open>Status\<close>

definition get_state :: "'db engine \<Rightarrow> system_state" where
  "get_state e = sys e"

definition set_state :: "string \<Rightarrow> string option \<Rightarrow> 'db engine \<Rightarrow> 'db engine" where
  "set_state st tx e = e\<lparr>sys := (sys e)\<lparr>state_name := st, current_tx := tx, running := (tx \<noteq> None)\<rparr>\<rparr>"

definition update_queues :: "u64 \<Rightarrow> u64 \<Rightarrow> u64 \<Rightarrow> u64 \<Rightarrow> u64 \<Rightarrow> 'db engine \<Rightarrow> 'db engine" where
  "update_queues a b c d u e = e\<lparr>sys := (sys e)\<lparr>scanner_queue := a, chunk_queue := b,
     compress_queue := c, encrypt_queue := d, upload_queue := u\<rparr>\<rparr>"

definition update_storage_stats :: "'db engine \<Rightarrow> 'db engine" where
  "update_storage_stats e = e\<lparr>sys := (sys e)\<lparr>total_snapshots := of_nat (length (snapshots e)),
     total_size_bytes := total_size (obj_store e), stat_packfile_count := packfile_count (obj_store e)\<rparr>\<rparr>"

section \<open>Loading snapshots\<close>

definition jstr :: "json \<Rightarrow> string \<Rightarrow> string" where
  "jstr j k = (case jget j k of Some v \<Rightarrow> (case as_str v of Some s \<Rightarrow> s | None \<Rightarrow> []) | None \<Rightarrow> [])"

definition jtag :: "json \<Rightarrow> string option" where
  "jtag j = (case jget j ''tag'' of Some v \<Rightarrow> as_str v | None \<Rightarrow> None)"

definition jnum :: "json \<Rightarrow> string \<Rightarrow> u64" where
  "jnum j k = (case jget j k of Some v \<Rightarrow> (case as_u64 v of Some n \<Rightarrow> n | None \<Rightarrow> 0) | None \<Rightarrow> 0)"

definition info_of :: "string \<Rightarrow> json \<Rightarrow> snapshot_info" where
  "info_of i j = \<lparr>si_id = i, si_timestamp = jstr j ''timestamp'', si_tag = jtag j,
     si_files_scanned = jnum j ''files_scanned'', si_bytes_processed = jnum j ''bytes_processed'',
     si_chunks_total = jnum j ''chunks_total'', si_chunks_deduped = jnum j ''chunks_deduped''\<rparr>"

text \<open>\<open>path.extension()\<close> of a file name: what follows the last dot, unless that dot comes first.\<close>

definition extension :: "string \<Rightarrow> string option" where
  "extension n =
     (let ps = split_on (CHR ''.'') n in
      if n = ''..'' \<or> length ps < 2 \<or> concat (butlast ps) = [] \<and> length ps = 2 then None else Some (last ps))"

fun read_manifests :: "'db index_libs \<Rightarrow> fs \<Rightarrow> path \<Rightarrow> string list \<Rightarrow> snapshot_info list" where
  "read_manifests L f dir [] = []"
| "read_manifests L f dir (n # ns) =
     (if extension n = Some ''json'' \<and> \<not> ends_with ''.pin'' n then
        (case fs_read_to_string f (dir @ [n]) of
           Inl e \<Rightarrow> read_manifests L f dir ns
         | Inr content \<Rightarrow>
            (case json_parse L (bytes_of content) of
               Inl e \<Rightarrow> read_manifests L f dir ns
             | Inr manifest \<Rightarrow> info_of (jstr manifest ''snapshot_id'') manifest # read_manifests L f dir ns))
      else read_manifests L f dir ns)"

text \<open>Stable sorting by time stamp, as strings.\<close>

definition str_le :: "string \<Rightarrow> string \<Rightarrow> bool" where
  "str_le a b = (a = b \<or> str_less a b)"

fun insert_by_time :: "snapshot_info \<Rightarrow> snapshot_info list \<Rightarrow> snapshot_info list" where
  "insert_by_time x [] = [x]"
| "insert_by_time x (y # ys) = (if str_le (si_timestamp x) (si_timestamp y) then x # y # ys else y # insert_by_time x ys)"

definition sort_by_time :: "snapshot_info list \<Rightarrow> snapshot_info list" where
  "sort_by_time xs = foldr insert_by_time xs []"

definition load_snapshots :: "'db index_libs \<Rightarrow> ('db engine, unit) step" where
  "load_snapshots L e =
     (let dir = snapshot_dir e in
      if \<not> fs_exists (disk e) dir then (Inr (), e)
      else case read_dir (disk e) dir of
          Inl x \<Rightarrow> (Inl x, e)
        | Inr names \<Rightarrow>
            (Inr (), update_storage_stats (e\<lparr>snapshots := sort_by_time (read_manifests L (disk e) dir names)\<rparr>)))"

section \<open>One chunk\<close>

text \<open>What the streaming closure of a file task works on.\<close>

record 'db chunk_ctx =
  cx_db :: 'db
  cx_store :: object_store
  cx_disk :: fs
  cx_transients :: "transient_object list"
  cx_hashes :: "string list"
  cx_deduped :: u64
  cx_new :: u64

definition object_path_of :: "string \<Rightarrow> string" where
  "object_path_of h = ''.obsidian/store/objects/'' @ h"

definition record_chunk :: "libs \<Rightarrow> 'db index_libs \<Rightarrow> string \<Rightarrow> chunk \<Rightarrow> ('db chunk_ctx, unit) step" where
  "record_chunk X L rel ck cx =
     (let h = ck_hash ck;
          known = (case chunk_exists L h (cx_db cx) of Inr b \<Rightarrow> b | Inl e \<Rightarrow> False);
          cx1 = cx\<lparr>cx_hashes := cx_hashes cx @ [h]\<rparr>
      in if known then
           (Inr (), cx1\<lparr>cx_deduped := cx_deduped cx1 + 1, cx_db := snd (increment_ref L h (cx_db cx1))\<rparr>)
         else
           let cx2 = cx1\<lparr>cx_new := cx_new cx1 + 1\<rparr> in
           case write_object X h (ck_data ck) (of_nat (ck_size ck)) (cx_store cx2, cx_disk cx2) of
             (Inl e, (s, f)) \<Rightarrow> (Inr (), cx2\<lparr>cx_store := s, cx_disk := f\<rparr>)
           | (Inr u, (s, f)) \<Rightarrow>
               (Inr (), cx2\<lparr>cx_store := s, cx_disk := f,
                  cx_transients := cx_transients cx2 @ [\<lparr>chunk_hash = h, object_path = object_path_of h\<rparr>],
                  cx_db := snd (insert_chunk L h rel (of_nat (ck_offset ck)) (of_nat (ck_size ck)) (cx_db cx2))\<rparr>))"

section \<open>One file\<close>

definition content_hash :: "libs \<Rightarrow> bytes \<Rightarrow> string" where
  "content_hash X d = to_hex X (blake3 X d)"

definition open_ctx :: "'db engine \<Rightarrow> 'db chunk_ctx" where
  "open_ctx e = \<lparr>cx_db = index_db e, cx_store = obj_store e, cx_disk = disk e, cx_transients = transients e,
     cx_hashes = [], cx_deduped = 0, cx_new = 0\<rparr>"

definition close_ctx :: "'db chunk_ctx \<Rightarrow> 'db engine \<Rightarrow> 'db engine" where
  "close_ctx cx e = e\<lparr>index_db := cx_db cx, obj_store := cx_store cx, disk := cx_disk cx, transients := cx_transients cx\<rparr>"

text \<open>The path of a file in the index.\<close>

definition rel_of :: "'db engine \<Rightarrow> file_entry \<Rightarrow> string" where
  "rel_of e fe = show_path (strip_prefix_or (server_root e) (fe_path fe))"

text \<open>The result of a file task: the file was skipped, or its path, size, known and new chunks.\<close>

type_synonym file_outcome = "string + (string \<times> u64 \<times> u64 \<times> u64)"

definition backup_file ::
  "'db crates \<Rightarrow> env \<Rightarrow> file_entry \<Rightarrow> 'db engine \<Rightarrow> (file_outcome \<times> 'db engine) option" where
  "backup_file C v fe e =
     (let rel = rel_of e fe in
      case fs_read (disk e) (fe_path fe) of
        Inl x \<Rightarrow> Some (Inl rel, e)
      | Inr content \<Rightarrow>
          (case chunk_reader (content_hash (cr_libs C)) ChunkEngine_new (reads v content)
                  (record_chunk (cr_libs C) (cr_index C) rel) (open_ctx e) of
             None \<Rightarrow> None
           | Some (Inl x, cx) \<Rightarrow> Some (Inl rel, close_ctx cx e)
           | Some (Inr u, cx) \<Rightarrow>
               let e1 = close_ctx cx e;
                   db = snd (insert_file_chunks (cr_index C) rel (cx_hashes cx) (fe_size fe) (fe_modified fe) (index_db e1))
               in Some (Inr (rel, fe_size fe, cx_deduped cx, cx_new cx), e1\<lparr>index_db := db\<rparr>)))"

section \<open>The backup\<close>

text \<open>The file tasks in the order they run, each with its place in the list of handles.\<close>

fun run_tasks ::
  "'db crates \<Rightarrow> env \<Rightarrow> (nat \<times> file_entry) list \<Rightarrow> 'db engine \<Rightarrow> ((nat \<times> file_outcome) list \<times> 'db engine) option" where
  "run_tasks C v [] e = Some ([], e)"
| "run_tasks C v ((i, fe) # ts) e =
     (case backup_file C v fe e of
        None \<Rightarrow> None
      | Some (r, e1) \<Rightarrow> map_option (\<lambda>(rs, e2). ((i, r) # rs, e2)) (run_tasks C v ts e1))"

record tally =
  all_file_paths :: "string list"
  t_changed :: u64
  t_skipped :: u64
  t_bytes :: u64
  t_chunks :: u64
  t_deduped :: u64
  t_new :: u64

definition tally_one :: "file_outcome \<Rightarrow> tally \<Rightarrow> tally" where
  "tally_one r t = (case r of
     Inl p \<Rightarrow> t\<lparr>t_skipped := t_skipped t + 1\<rparr>
   | Inr (p, n, dd, nw) \<Rightarrow> t\<lparr>all_file_paths := all_file_paths t @ [p], t_bytes := t_bytes t + n,
       t_deduped := t_deduped t + dd, t_new := t_new t + nw, t_chunks := t_chunks t + (dd + nw),
       t_changed := t_changed t + 1\<rparr>)"

definition tally_all :: "file_outcome list \<Rightarrow> tally" where
  "tally_all rs = fold tally_one rs \<lparr>all_file_paths = [], t_changed = 0, t_skipped = 0, t_bytes = 0,
     t_chunks = 0, t_deduped = 0, t_new = 0\<rparr>"

definition mark_aborted :: "'db engine \<Rightarrow> 'db engine" where
  "mark_aborted e = e\<lparr>active_transaction := map_option (\<lambda>t. t\<lparr>tx_state := Aborted\<rparr>) (active_transaction e)\<rparr>"

definition is_aborted :: "'db engine \<Rightarrow> bool" where
  "is_aborted e = (case active_transaction e of Some t \<Rightarrow> tx_state t = Aborted | None \<Rightarrow> False)"

text \<open>Spawning: the loop breaks before the file at which it sees the cancellation.\<close>

definition process_files ::
  "'db crates \<Rightarrow> env \<Rightarrow> file_entry list \<Rightarrow> 'db engine \<Rightarrow> (file_outcome list \<times> 'db engine) option" where
  "process_files C v files e =
     (let n = (case cancelled v of None \<Rightarrow> length files | Some k \<Rightarrow> min k (length files)) in
      map_option (\<lambda>(rs, e1). (List.map_filter (map_of rs) [0..<n],
                              if cancelled v = None then e1 else mark_aborted e1))
        (run_tasks C v (map (\<lambda>i. (i, files ! i)) (order v n)) e))"

definition manifest_of ::
  "'db engine \<Rightarrow> env \<Rightarrow> string option \<Rightarrow> nat \<Rightarrow> tally \<Rightarrow> json" where
  "manifest_of e v tag scanned t = JObj
     [(''bytes_processed'', JNum (t_bytes t)), (''chunks_deduped'', JNum (t_deduped t)),
      (''chunks_new'', JNum (t_new t)), (''chunks_total'', JNum (t_chunks t)),
      (''files_changed'', JNum (t_changed t)), (''files_scanned'', JNum (of_nat scanned)),
      (''files_skipped'', JNum (t_skipped t)), (''server_root'', JStr (show_path (server_root e))),
      (''snapshot_id'', JStr (''snap_'' @ uuid8 v)),
      (''tag'', case tag of None \<Rightarrow> JNull | Some s \<Rightarrow> JStr s), (''timestamp'', JStr (now v)),
      (''tx_id'', JStr (uuid8 v))]"

definition result_of :: "env \<Rightarrow> nat \<Rightarrow> tally \<Rightarrow> backup_result" where
  "result_of v scanned t = \<lparr>br_snapshot_id = ''snap_'' @ uuid8 v, br_files_scanned = of_nat scanned,
     br_files_changed = t_changed t, br_files_skipped = t_skipped t, br_bytes_processed = t_bytes t,
     br_chunks_deduped = t_deduped t, br_chunks_new = t_new t, br_duration_ms = millis v\<rparr>"

text \<open>The commit phase: manifest, signature, snapshot files, WAL flush, cache.\<close>

definition commit_backup ::
  "'db crates \<Rightarrow> env \<Rightarrow> transaction \<Rightarrow> string option \<Rightarrow> nat \<Rightarrow> tally \<Rightarrow> ('db engine, backup_result) step" where
  "commit_backup C v tx tag scanned t e0 =
     (let e = update_queues 0 0 0 0 0 e0; snapshot_id = ''snap_'' @ uuid8 v; dir = snapshot_dir e;
          L = cr_index C in
      bindS (on_disk (create_dir_all dir)) (\<lambda>_.
      bindS (liftS (json_pretty L (manifest_of e v tag scanned t))) (\<lambda>manifest_json.
      bindS (on_disk (fs_write (child dir (snapshot_id @ ''.json'')) (bytes_of manifest_json))) (\<lambda>_.
      bindS (case signer e of
               None \<Rightarrow> returnS ()
             | Some sg \<Rightarrow> on_disk (fs_write (child dir (snapshot_id @ ''.sig''))
                            (bytes_of (sign (cr_sign C) sg (bytes_of manifest_json))))) (\<lambda>_.
      bindS (on_index (insert_snapshot_files L snapshot_id (all_file_paths t))) (\<lambda>_.
      bindS (on_tx (commit L True tx)) (\<lambda>_.
      bindS (upd (\<lambda>e. e\<lparr>snapshots := snapshots e @ [\<lparr>si_id = snapshot_id, si_timestamp = now v, si_tag = tag,
               si_files_scanned = of_nat scanned, si_bytes_processed = t_bytes t,
               si_chunks_total = t_chunks t, si_chunks_deduped = t_deduped t\<rparr>]\<rparr>)) (\<lambda>_.
      bindS (upd (\<lambda>e. update_storage_stats (set_state ''idle'' None e))) (\<lambda>_.
      returnS (result_of v scanned t))))))))) e)"

definition abort_backup :: "'db crates \<Rightarrow> transaction \<Rightarrow> ('db engine, backup_result) step" where
  "abort_backup C tx =
     bindS (on_tx (rollback_tx (cr_index C) True tx)) (\<lambda>_.
     bindS (upd (set_state ''idle'' None)) (\<lambda>_.
     failS (Failure ''Backup transaction aborted'')))"

definition empty_result :: "env \<Rightarrow> backup_result" where
  "empty_result v = \<lparr>br_snapshot_id = ''snap_'' @ uuid8 v, br_files_scanned = 0, br_files_changed = 0,
     br_files_skipped = 0, br_bytes_processed = 0, br_chunks_deduped = 0, br_chunks_new = 0,
     br_duration_ms = millis v\<rparr>"

definition finish_empty :: "'db crates \<Rightarrow> env \<Rightarrow> transaction \<Rightarrow> ('db engine, backup_result) step" where
  "finish_empty C v tx =
     bindS (on_tx (commit (cr_index C) True tx)) (\<lambda>_.
     bindS (upd (set_state ''idle'' None)) (\<lambda>_.
     returnS (empty_result v)))"

definition start_backup :: "env \<Rightarrow> ('db engine, transaction) step" where
  "start_backup v e =
     bindS (on_tx (begin_tx (now v) (uuid8 v))) (\<lambda>tx.
     bindS (upd (\<lambda>e. update_queues 1 0 0 0 0 (e\<lparr>active_transaction := Some tx\<rparr>))) (\<lambda>_.
     returnS tx)) (set_state ''backing_up'' (Some (uuid8 v)) e)"

definition last_snapshot_time :: "bool \<Rightarrow> 'db engine \<Rightarrow> string option" where
  "last_snapshot_time incremental e =
     (if incremental \<and> snapshots e \<noteq> [] then Some (si_timestamp (last (snapshots e))) else None)"

definition run_backup ::
  "'db crates \<Rightarrow> env \<Rightarrow> string option \<Rightarrow> bool \<Rightarrow> 'db engine \<Rightarrow> ((error + backup_result) \<times> 'db engine) option" where
  "run_backup C v tag incremental e0 =
     (case start_backup v e0 of
        (Inl x, e) \<Rightarrow> Some (Inl x, e)
      | (Inr tx, e) \<Rightarrow>
          (case scan_world_directory (\<lambda>t. map_option (\<lambda>ns. ns div 10 ^ 9) (cr_rfc3339 C t)) (mtimes e) (cfg_ignores (config e)) (server_root e)
                  (last_snapshot_time incremental e) (disk e) of
             None \<Rightarrow> None
           | Some files \<Rightarrow>
               if files = [] then Some (finish_empty C v tx e)
               else case process_files C v files (update_queues 0 1 0 0 0 e) of
                   None \<Rightarrow> None
                 | Some (rs, e1) \<Rightarrow>
                     if is_aborted e1 then Some (abort_backup C tx e1)
                     else Some (commit_backup C v tx tag (length files) (tally_all rs) e1)))"

end
