(* ===== verification/Restore.thy ===== *)
theory Restore
  imports Engine
begin

text \<open>
  Restoring, cloning and rolling back, \<open>sidecar/src/backup/mod.rs\<close>: the check of paths that a
  user supplies, the reading of a file from its chunks, the three kinds of restore, and the
  check of a manifest's signature.

  The background task that deletes the replaced world runs when the request has finished.
\<close>

section \<open>Strings\<close>

text \<open>The characters of a string, each as its UTF-8 bytes.\<close>

fun utf8_chars :: "string \<Rightarrow> string list" where
  "utf8_chars [] = []"
| "utf8_chars (c # s) =
     (case utf8_chars s of
        [] \<Rightarrow> [[c]]
      | d # ds \<Rightarrow> if 128 \<le> (of_char (hd d) :: nat) \<and> (of_char (hd d) :: nat) < 192 then (c # d) # ds else [c] # d # ds)"

definition ascii_alphanumeric :: "char \<Rightarrow> bool" where
  "ascii_alphanumeric c = (let n = (of_char c :: nat) in
     (48 \<le> n \<and> n \<le> 57) \<or> (65 \<le> n \<and> n \<le> 90) \<or> (97 \<le> n \<and> n \<le> 122))"

text \<open>\<open>s.chars().all(|c| c.is_alphanumeric() || ..)\<close>.\<close>

definition all_chars :: "'db crates \<Rightarrow> string \<Rightarrow> string \<Rightarrow> bool" where
  "all_chars C extra s = list_all (\<lambda>u. case u of
       [c] \<Rightarrow> (if (of_char c :: nat) < 128 then ascii_alphanumeric c \<or> c \<in> set extra else cr_alphanumeric C u)
     | _ \<Rightarrow> cr_alphanumeric C u) (utf8_chars s)"

section \<open>Safe paths\<close>

definition validate_safe_path :: "fs \<Rightarrow> path \<Rightarrow> string \<Rightarrow> error + path" where
  "validate_safe_path f base user_path =
     (if user_path = [] then Inl (Failure ''Empty path not allowed'')
      else if substring ''..'' user_path then Inl (Failure ''Path traversal denied'')
      else
        let p = path_of user_path in
        if is_absolute p \<or> hd user_path = CHR ''/'' \<or> hd user_path = CHR 0x5C then Inl (Failure ''Absolute path denied'')
        else
          let resolved = join base p;
              canonical_base = (case canonicalize f base of Inr q \<Rightarrow> q | Inl x \<Rightarrow> base);
              canonical_resolved = (case canonicalize f resolved of Inr q \<Rightarrow> q | Inl x \<Rightarrow> resolved)
          in if \<not> path_starts_with canonical_resolved canonical_base then Inl (Failure ''Path escapes sandbox'')
             else Inr resolved)"

section \<open>Signatures of manifests\<close>

definition public_key_bytes :: "sign_libs \<Rightarrow> 'db engine \<Rightarrow> bytes option" where
  "public_key_bytes S e =
     (case signer e of
        Some sg \<Rightarrow> Some (verifying_key_bytes S sg)
      | None \<Rightarrow> (case fs_read (disk e) (public_key_path (sign_key_path (server_root e) (config e))) of
                   Inr b \<Rightarrow> if length b = 32 then Some b else None | Inl x \<Rightarrow> None))"

definition verify_manifest_signature :: "sign_libs \<Rightarrow> 'db engine \<Rightarrow> string \<Rightarrow> string \<Rightarrow> error + unit" where
  "verify_manifest_signature S e snapshot_id manifest_json =
     (let sig_path = child (snapshot_dir e) (snapshot_id @ ''.sig'') in
      if \<not> fs_exists (disk e) sig_path then Inr ()
      else bindE (fs_read_to_string (disk e) sig_path) (\<lambda>sig.
        case public_key_bytes S e of
          None \<Rightarrow> Inl (Failure (''Snapshot '' @ snapshot_id @ '' has a signature but no verifying key is available''))
        | Some k \<Rightarrow>
            if verify_signature S (bytes_of manifest_json) sig k then Inr ()
            else Inl (Failure (''Snapshot '' @ snapshot_id @ '' signature verification FAILED''))))"

section \<open>Reading a file back\<close>

text \<open>The loop over the chunks of a file: the data of the readable ones, and whether one is missing.\<close>

fun gather :: "object_store \<Rightarrow> fs \<Rightarrow> string list \<Rightarrow> bytes \<times> bool" where
  "gather s f [] = ([], False)"
| "gather s f (h # hs) =
     (let (rest, lost) = gather s f hs in
      case read_object s f h of Inr d \<Rightarrow> (d @ rest, lost) | Inl x \<Rightarrow> (rest, True))"

definition write_dest :: "path \<Rightarrow> bytes \<Rightarrow> (fs, unit) step" where
  "write_dest dest data = bindS (create_dir_all (parent dest)) (\<lambda>_. fs_write dest data)"

record restore_result =
  rr_files_restored :: u64
  rr_bytes_restored :: u64
  rr_files_missing_chunks :: "string list"
  rr_sandbox_used :: bool

text \<open>Restoring one file into the sandbox.  The message names the file.\<close>

definition restore_file ::
  "'db crates \<Rightarrow> path \<Rightarrow> string \<Rightarrow> ('db engine, restore_result) step" where
  "restore_file C sandbox_tx target e =
     (case validate_safe_path (disk e) sandbox_tx target of
        Inl x \<Rightarrow> (Inl x, e)
      | Inr dest \<Rightarrow>
         (case get_file_chunks (cr_index C) target (index_db e) of
            Inl x \<Rightarrow> (Inl x, e)
          | Inr cks \<Rightarrow>
             (case gather (obj_store e) (disk e) cks of
                (data, True) \<Rightarrow> (Inl (Failure (''Restore failed: '' @ target)), e)
              | (data, False) \<Rightarrow>
                  bindS (on_disk (write_dest dest data)) (\<lambda>_.
                  returnS \<lparr>rr_files_restored = 1, rr_bytes_restored = of_nat (length data),
                           rr_files_missing_chunks = [], rr_sandbox_used = True\<rparr>) e)))"

definition region_of :: "string \<Rightarrow> string" where
  "region_of coord = ''region/r.'' @ map (\<lambda>c. if c = CHR '':'' \<or> c = CHR '','' then CHR ''.'' else c) coord @ ''.mca''"

definition restore_chunk :: "'db crates \<Rightarrow> path \<Rightarrow> string \<Rightarrow> ('db engine, restore_result) step" where
  "restore_chunk C sandbox_tx coord e =
     (if \<not> all_chars C '':,.-'' coord then (Inl (Failure (''Invalid chunk coordinate: '' @ coord)), e)
      else restore_file C sandbox_tx (region_of coord) e)"

fun restore_all ::
  "'db crates \<Rightarrow> path \<Rightarrow> string list \<Rightarrow> restore_result \<Rightarrow> ('db engine, restore_result) step" where
  "restore_all C sandbox_tx [] r e = (Inr r, e)"
| "restore_all C sandbox_tx (p # ps) r e =
     (case get_file_chunks (cr_index C) p (index_db e) of
        Inl x \<Rightarrow> (Inl x, e)
      | Inr cks \<Rightarrow>
          let (data, lost) = gather (obj_store e) (disk e) cks in
          case validate_safe_path (disk e) sandbox_tx p of
            Inl x \<Rightarrow> restore_all C sandbox_tx ps r e
          | Inr dest \<Rightarrow>
              bindS (on_disk (write_dest dest data)) (\<lambda>_.
              restore_all C sandbox_tx ps
                (r\<lparr>rr_files_missing_chunks := rr_files_missing_chunks r @ (if lost then [p] else []),
                   rr_bytes_restored := rr_bytes_restored r + of_nat (length data),
                   rr_files_restored := rr_files_restored r + 1\<rparr>)) e)"

text \<open>The swap of the sandbox for the world directory.\<close>

definition atomic_swap :: "path \<Rightarrow> path \<Rightarrow> (fs, unit) step" where
  "atomic_swap root sandbox_tx =
     (let world_dir = child root ''world''; backup_dir = child root ''world_old_tmp'' in
      bindS (\<lambda>f. if fs_exists f world_dir then rename world_dir backup_dir f else (Inr (), f)) (\<lambda>_.
      bindS (rename sandbox_tx world_dir) (\<lambda>_.
      (\<lambda>f. if fs_exists f backup_dir then (Inr (), snd (remove_dir_all backup_dir f)) else (Inr (), f)))))"

definition empty_restore :: restore_result where
  "empty_restore = \<lparr>rr_files_restored = 0, rr_bytes_restored = 0, rr_files_missing_chunks = [], rr_sandbox_used = True\<rparr>"

text \<open>The checks and the sandbox before anything is restored; the result is the sandbox.\<close>

definition prepare_restore :: "'db crates \<Rightarrow> env \<Rightarrow> string \<Rightarrow> ('db engine, path) step" where
  "prepare_restore C v snapshot_id e =
     (if \<not> all_chars C ''_-'' snapshot_id then (Inl (Failure (''Invalid snapshot ID: '' @ snapshot_id)), e)
      else
        let manifest_path = child (snapshot_dir e) (snapshot_id @ ''.json'') in
        if \<not> fs_exists (disk e) manifest_path then (Inl (Failure (''Snapshot '' @ snapshot_id @ '' not found'')), e)
        else
          let sandbox_dir = child (server_root e) ''.obsidian/sandbox'';
              sandbox_tx = child sandbox_dir (''restore_'' @ uuid8 v) in
          bindS (on_disk (create_dir_all sandbox_dir)) (\<lambda>_.
          bindS (on_disk (create_dir_all sandbox_tx)) (\<lambda>_.
          bindS (readS (\<lambda>e. fs_read_to_string (disk e) manifest_path)) (\<lambda>manifest_str.
          bindS (readS (\<lambda>e. verify_manifest_signature (cr_sign C) e snapshot_id manifest_str)) (\<lambda>_.
          bindS (liftS (json_parse (cr_index C) (bytes_of manifest_str))) (\<lambda>_.
          returnS sandbox_tx))))) e)"

definition restore ::
  "'db crates \<Rightarrow> env \<Rightarrow> string \<Rightarrow> string option \<Rightarrow> string option \<Rightarrow> ('db engine, restore_result) step" where
  "restore C v snapshot_id file_path chunk_coord =
     bindS (prepare_restore C v snapshot_id) (\<lambda>sandbox_tx.
     bindS (case file_path of
              Some target \<Rightarrow> restore_file C sandbox_tx target
            | None \<Rightarrow> (case chunk_coord of
                Some coord \<Rightarrow> restore_chunk C sandbox_tx coord
              | None \<Rightarrow>
                  bindS (readS (\<lambda>e. get_all_files (cr_index C) (index_db e))) (\<lambda>all_files.
                  restore_all C sandbox_tx all_files empty_restore))) (\<lambda>r.
     bindS (\<lambda>e. if cfg_atomic_swap (config e) \<and> file_path = None \<and> chunk_coord = None
                then on_disk (atomic_swap (server_root e) sandbox_tx) e else (Inr (), e)) (\<lambda>_.
     returnS r)))"

section \<open>Cloning\<close>

definition world_name_ok :: "string \<Rightarrow> bool" where
  "world_name_ok n = (n \<noteq> [] \<and> \<not> substring ''..'' n \<and> CHR ''/'' \<notin> set n \<and> CHR 0x5C \<notin> set n)"

fun clone_files :: "'db crates \<Rightarrow> path \<Rightarrow> string list \<Rightarrow> ('db engine, unit) step" where
  "clone_files C dir [] e = (Inr (), e)"
| "clone_files C dir (p # ps) e =
     (case get_file_chunks (cr_index C) p (index_db e) of
        Inl x \<Rightarrow> (Inl x, e)
      | Inr cks \<Rightarrow>
          let data = fst (gather (obj_store e) (disk e) cks) in
          case validate_safe_path (disk e) dir p of
            Inl x \<Rightarrow> clone_files C dir ps e
          | Inr dest \<Rightarrow> bindS (on_disk (write_dest dest data)) (\<lambda>_. clone_files C dir ps) e)"

definition clone_world :: "'db crates \<Rightarrow> string \<Rightarrow> string \<Rightarrow> ('db engine, unit) step" where
  "clone_world C snapshot_id new_name e =
     (if \<not> world_name_ok new_name then (Inl (Failure (''Invalid world name: '' @ new_name)), e)
      else
        let sandbox_dir = child (server_root e) ''.obsidian/sandbox''; clone_dir = child sandbox_dir new_name;
            final_dir = child (server_root e) new_name in
        bindS (on_disk (\<lambda>f. if fs_exists f clone_dir then remove_dir_all clone_dir f else (Inr (), f))) (\<lambda>_.
        bindS (on_disk (create_dir_all clone_dir)) (\<lambda>_.
        bindS (readS (\<lambda>e. get_snapshot_files (cr_index C) snapshot_id (index_db e))) (\<lambda>files.
        bindS (clone_files C clone_dir files) (\<lambda>_.
        (\<lambda>e. if fs_exists (disk e) final_dir
              then (Inl (Failure (''Directory '' @ new_name @ '' already exists'')), e)
              else on_disk (rename clone_dir final_dir) e))))) e)"

section \<open>Rolling back in time\<close>

text \<open>\<open>s.parse::<u64>()? * k\<close>: the product wraps around.\<close>

definition parse_scaled :: "u64 \<Rightarrow> string \<Rightarrow> error + u64" where
  "parse_scaled k s = (case parse_nat (2 ^ 64) s of
     None \<Rightarrow> Inl (Failure ''invalid digit found in string'') | Some n \<Rightarrow> Inr (of_nat n * k))"

definition parse_duration :: "string \<Rightarrow> error + u64" where
  "parse_duration s0 =
     (let s = trim s0 in
      if s \<noteq> [] \<and> last s = CHR ''s'' then parse_scaled 1 (butlast s)
      else if s \<noteq> [] \<and> last s = CHR ''m'' then parse_scaled 60 (butlast s)
      else if s \<noteq> [] \<and> last s = CHR ''h'' then parse_scaled 3600 (butlast s)
      else if s \<noteq> [] \<and> last s = CHR ''d'' then parse_scaled 86400 (butlast s)
      else Inl (Failure (''Invalid duration format: '' @ s)))"

text \<open>\<open>snaps.iter().rfind(..)\<close>: the last snapshot in the cache older than the target time.\<close>

definition snapshot_before :: "'db crates \<Rightarrow> int \<Rightarrow> snapshot_info list \<Rightarrow> snapshot_info option" where
  "snapshot_before C target snaps = find (\<lambda>s. case cr_rfc3339 C (si_timestamp s) of
     Some ts \<Rightarrow> ts < target | None \<Rightarrow> False) (rev snaps)"

definition rollback :: "'db crates \<Rightarrow> env \<Rightarrow> string \<Rightarrow> ('db engine, unit) step" where
  "rollback C v duration =
     bindS (liftS (parse_duration duration)) (\<lambda>seconds.
     case cr_minus C (now_ns v) (sint seconds) of
       None \<Rightarrow> failS Panic
     | Some target_time \<Rightarrow>
         bindS (readS (\<lambda>e. case snapshot_before C target_time (snapshots e) of
                  Some snap \<Rightarrow> Inr (si_id snap)
                | None \<Rightarrow> Inl (Failure (''No snapshot found before '' @ duration @ '' ago'')))) (\<lambda>snap_id.
         bindS (restore C v snap_id None None) (\<lambda>_. returnS ())))"

end
