(* ===== verification/Maintenance.thy ===== *)
theory Maintenance
  imports Restore
begin

text \<open>
  The other operations of the engine, \<open>sidecar/src/backup/mod.rs\<close>: the queries (largest files,
  difference of two snapshots, browsing), verification, pinning, pruning and deletion of
  snapshots, cancellation, export and import, and the operations that remote synchronisation
  calls.  The floating-point formula of the forecast is a parameter.
\<close>

section \<open>Queries\<close>

record top_file =
  tf_path :: string
  tf_size :: u64
  tf_reason :: "string option"

definition reason_of :: "string \<Rightarrow> u64 \<Rightarrow> string option" where
  "reason_of p sz =
     (if substring ''region/'' p \<and> 1024 * 1024 * 1024 < sz then
        Some (if substring ''nether'' p
              then string_of [231, 161, 174, 229, 174, 154, 228, 184, 186, 229, 184, 184, 233, 169, 187, 228,
                184, 187, 229, 159, 142, 229, 188, 186, 229, 138, 160, 232, 189, 189, 229, 140,
                186]
              else string_of [229, 175, 134, 233, 155, 134, 231, 186, 162, 231, 159, 179, 233, 171, 152, 233,
                162, 145, 229, 136, 183, 230, 128, 170, 229, 156, 186])
      else if substring ''CoreProtect'' p \<or> substring ''database'' p then Some (string_of [230, 143, 146, 228, 187, 182, 230, 149, 176, 230, 141, 174, 229, 186, 147])
      else if substring ''playerdata'' p then Some (string_of [230, 144, 186, 229, 184, 166, 228, 186, 134, 232, 182, 133, 229, 164, 167, 32,
                78, 66, 84, 32, 229, 181, 140, 229, 165, 151, 230, 189, 156, 229, 189, 177, 231,
                155, 146, 229, 174, 185, 229, 153, 168])
      else None)"

definition get_top_files :: "'db index_libs \<Rightarrow> nat \<Rightarrow> 'db engine \<Rightarrow> error + top_file list" where
  "get_top_files L limit e =
     bindE (get_largest_files L limit (index_db e)) (\<lambda>files.
     Inr (map (\<lambda>(p, n). \<lparr>tf_path = p, tf_size = n, tf_reason = reason_of p n\<rparr>) files))"

text \<open>The members of a \<open>HashSet\<close> come in some order; here in that of the list it was made from.\<close>

record diff_result =
  df_added :: "string list"
  df_modified :: "string list"
  df_deleted :: "string list"

definition read_manifest :: "'db index_libs \<Rightarrow> 'db engine \<Rightarrow> string \<Rightarrow> error + json" where
  "read_manifest L e i =
     bindE (fs_read_to_string (disk e) (child (snapshot_dir e) (i @ ''.json''))) (\<lambda>s. json_parse L (bytes_of s))"

definition diff_snapshots :: "'db index_libs \<Rightarrow> string \<Rightarrow> string \<Rightarrow> 'db engine \<Rightarrow> error + diff_result" where
  "diff_snapshots L a b e =
     bindE (read_manifest L e a) (\<lambda>ma.
     bindE (read_manifest L e b) (\<lambda>mb.
     bindE (get_snapshot_files L a (index_db e)) (\<lambda>fa.
     bindE (get_snapshot_files L b (index_db e)) (\<lambda>fb.
     Inr \<lparr>df_added = filter (\<lambda>p. p \<notin> set fa) (remdups fb),
          df_modified = (if jnum ma ''bytes_processed'' \<noteq> jnum mb ''bytes_processed''
                         then filter (\<lambda>p. p \<in> set fb \<and> jnum ma ''chunks_total'' \<noteq> jnum mb ''chunks_total'') (remdups fa)
                         else []),
          df_deleted = filter (\<lambda>p. p \<notin> set fb) (remdups fa)\<rparr>))))"

definition starts_with :: "string \<Rightarrow> string \<Rightarrow> bool" where
  "starts_with pre s = (take (length pre) s = pre)"

definition browse_entry :: "'db index_libs \<Rightarrow> 'db \<Rightarrow> string \<Rightarrow> string \<Rightarrow> json" where
  "browse_entry L db i p =
     (let is_dir = ends_with ''/'' p;
          sz = (if is_dir then 0 else case get_file_size L i p db of Inr n \<Rightarrow> n | Inl x \<Rightarrow> 0)
      in JObj [(''is_dir'', JBool is_dir), (''name'', JStr p), (''size'', JNum sz)])"

definition browse_snapshot :: "'db index_libs \<Rightarrow> string \<Rightarrow> string option \<Rightarrow> 'db engine \<Rightarrow> error + json list" where
  "browse_snapshot L i p e =
     bindE (get_snapshot_files L i (index_db e)) (\<lambda>files.
     Inr (map (browse_entry L (index_db e) i)
            (filter (starts_with (case p of Some q \<Rightarrow> q | None \<Rightarrow> [])) files)))"

section \<open>Verification\<close>

text \<open>The number of signed manifests whose signature does not verify.\<close>

fun signature_failures :: "sign_libs \<Rightarrow> 'db engine \<Rightarrow> string list \<Rightarrow> u64" where
  "signature_failures S e [] = 0"
| "signature_failures S e (n0 # ns) =
     (let name = entry_name n0; snap_id = trim_end ''.json'' name in
      (if ends_with ''.json'' name \<and> \<not> ends_with ''.pin'' name \<and>
          fs_exists (disk e) (child (snapshot_dir e) (snap_id @ ''.sig'')) then
         (case fs_read_to_string (disk e) (snapshot_dir e @ [n0]) of
            Inr m \<Rightarrow> (case verify_manifest_signature S e snap_id m of Inl x \<Rightarrow> 1 | Inr u \<Rightarrow> 0)
          | Inl x \<Rightarrow> 0)
       else 0) + signature_failures S e ns)"

record verify_counts =
  vc_healthy :: u64
  vc_corrupted :: u64
  vc_repaired :: u64

text \<open>A panic in the check of a shard ends the loop; other errors count.\<close>

definition verify_chunk :: "libs \<Rightarrow> object_store \<Rightarrow> bool \<Rightarrow> string \<Rightarrow> (fs \<times> verify_counts, unit) step" where
  "verify_chunk X s repair h = (\<lambda>(f, c).
     let healthy = c\<lparr>vc_healthy := vc_healthy c + 1\<rparr>; corrupted = c\<lparr>vc_corrupted := vc_corrupted c + 1\<rparr> in
     case get_object_kind s h of
       Some KSharded \<Rightarrow>
         (case verify_object X s h repair f of
            (Inr Healthy, f') \<Rightarrow> (Inr (), (f', healthy))
          | (Inr Repaired, f') \<Rightarrow> (Inr (), (f', healthy\<lparr>vc_repaired := vc_repaired c + 1\<rparr>))
          | (Inl Panic, f') \<Rightarrow> (Inl Panic, (f', c))
          | (r, f') \<Rightarrow> (Inr (), (f', corrupted)))
     | Some k \<Rightarrow>
         (case read_object s f h of
            Inr d \<Rightarrow> (Inr (), (f, if content_hash X d = h then healthy else corrupted))
          | Inl x \<Rightarrow> (Inr (), (f, corrupted)))
     | None \<Rightarrow> (Inr (), (f, corrupted)))"

record verify_result =
  vr_total_checked :: u64
  vr_healthy :: u64
  vr_corrupted :: u64
  vr_repaired :: u64

definition verify :: "'db crates \<Rightarrow> bool \<Rightarrow> ('db engine, verify_result) step" where
  "verify C repair e =
     (case (if fs_exists (disk e) (snapshot_dir e)
            then bindE (read_dir (disk e) (snapshot_dir e)) (\<lambda>ns. Inr (signature_failures (cr_sign C) e ns))
            else Inr 0) of
        Inl x \<Rightarrow> (Inl x, e)
      | Inr bad \<Rightarrow>
         (case get_all_chunks (cr_index C) (index_db e) of
            Inl x \<Rightarrow> (Inl x, e)
          | Inr all_chunks \<Rightarrow>
              (case for_each (verify_chunk (cr_libs C) (obj_store e) repair) all_chunks
                      (disk e, \<lparr>vc_healthy = 0, vc_corrupted = 0, vc_repaired = 0\<rparr>) of
                 (Inl x, (f, c)) \<Rightarrow> (Inl x, e\<lparr>disk := f\<rparr>)
               | (Inr u, (f, c)) \<Rightarrow>
                   (Inr \<lparr>vr_total_checked = of_nat (length all_chunks), vr_healthy = vc_healthy c,
                         vr_corrupted = vc_corrupted c + bad, vr_repaired = vc_repaired c\<rparr>, e\<lparr>disk := f\<rparr>))))"

section \<open>Pinning and pruning\<close>

definition pin_json :: "env \<Rightarrow> string \<Rightarrow> u64 \<Rightarrow> string \<Rightarrow> json" where
  "pin_json v i days expiry = JObj [(''days'', JNum days), (''expires_at'', JStr expiry),
     (''pinned_at'', JStr (now v)), (''snapshot_id'', JStr i), (''worm_locked'', JBool True)]"

definition pin_snapshot :: "'db crates \<Rightarrow> env \<Rightarrow> string \<Rightarrow> u64 \<Rightarrow> ('db engine, unit) step" where
  "pin_snapshot C v i days e =
     (case cr_plus_days C (now v) days of
        None \<Rightarrow> (Inl Panic, e)
      | Some expiry \<Rightarrow>
          bindS (liftS (json_pretty (cr_index C) (pin_json v i days expiry))) (\<lambda>s.
          on_disk (fs_write (child (snapshot_dir e) (i @ ''.pin'')) (bytes_of s))) e)"

text \<open>The references of a file's chunks are released one by one; an error is ignored.\<close>

fun release_chunks :: "'db index_libs \<Rightarrow> string list \<Rightarrow> 'db \<Rightarrow> 'db" where
  "release_chunks L [] db = db"
| "release_chunks L (h # hs) db = release_chunks L hs (snd (decrement_ref L h db))"

fun release_files :: "'db index_libs \<Rightarrow> string list \<Rightarrow> ('db, unit) step" where
  "release_files L [] db = (Inr (), db)"
| "release_files L (p # ps) db =
     (case get_file_chunks L p db of
        Inl x \<Rightarrow> (Inl x, db)
      | Inr hs \<Rightarrow> release_files L ps (release_chunks L hs db))"

definition ignore_errors :: "('s, 'a) step \<Rightarrow> ('s, unit) step" where
  "ignore_errors m s = (Inr (), snd (m s))"

definition delete_snapshot :: "'db index_libs \<Rightarrow> string \<Rightarrow> ('db engine, unit) step" where
  "delete_snapshot L i e =
     (let dir = snapshot_dir e; manifest = child dir (i @ ''.json'') in
      bindS (readS (\<lambda>e. get_snapshot_files L i (index_db e))) (\<lambda>files.
      bindS (on_index (release_files L files)) (\<lambda>_.
      bindS (on_index (delete_snapshot_files L i)) (\<lambda>_.
      bindS (on_disk (\<lambda>f. if fs_exists f manifest then remove_file manifest f else (Inr (), f))) (\<lambda>_.
      bindS (on_disk (ignore_errors (remove_file (child dir (i @ ''.sig''))))) (\<lambda>_.
      on_disk (ignore_errors (remove_file (child dir (i @ ''.pin'')))))))))  e)"

text \<open>Newest first; snapshots of one time stamp keep their order.\<close>

fun insert_newest :: "snapshot_info \<Rightarrow> snapshot_info list \<Rightarrow> snapshot_info list" where
  "insert_newest x [] = [x]"
| "insert_newest x (y # ys) = (if str_le (si_timestamp y) (si_timestamp x) then x # y # ys else y # insert_newest x ys)"

definition newest_first :: "snapshot_info list \<Rightarrow> snapshot_info list" where
  "newest_first xs = foldr insert_newest xs []"

definition is_pinned :: "'db engine \<Rightarrow> string \<Rightarrow> bool" where
  "is_pinned e i = fs_exists (disk e) (child (snapshot_dir e) (i @ ''.pin''))"

fun prune_loop :: "'db index_libs \<Rightarrow> nat \<Rightarrow> snapshot_info list \<Rightarrow> u64 \<Rightarrow> u64 \<Rightarrow> 'db engine \<Rightarrow> u64 \<times> 'db engine" where
  "prune_loop L keep [] removed kept e = (removed, e)"
| "prune_loop L keep (s # ss) removed kept e =
     (if is_pinned e (si_id s) then prune_loop L keep ss removed kept e
      else if kept < of_nat keep then prune_loop L keep ss removed (kept + 1) e
      else case delete_snapshot L (si_id s) e of
          (Inr u, e') \<Rightarrow> prune_loop L keep ss (removed + 1) kept e'
        | (Inl x, e') \<Rightarrow> prune_loop L keep ss removed kept e')"

definition prune_snapshots :: "'db index_libs \<Rightarrow> nat \<Rightarrow> ('db engine, u64) step" where
  "prune_snapshots L keep e =
     (let (removed, e1) = prune_loop L keep (newest_first (snapshots e)) 0 0 e in
      bindS (load_snapshots L) (\<lambda>_. returnS removed) e1)"

section \<open>Cancelling\<close>

definition cancel :: "('db engine, unit) step" where
  "cancel e = (case active_transaction e of
     Some t \<Rightarrow> (Inr (), e\<lparr>active_transaction := Some (t\<lparr>tx_state := Aborted\<rparr>)\<rparr>)
   | None \<Rightarrow> (Inl (Failure ''No active transaction to cancel''), e))"

section \<open>Forecast\<close>

text \<open>\<open>Duration::num_hours\<close> of a difference in nanoseconds rounds towards zero.\<close>

definition whole_hours :: "int \<Rightarrow> int" where
  "whole_hours ns = sgn ns * (\<bar>ns\<bar> div (3600 * 10 ^ 9))"

text \<open>\<open>growth\<close> computes the forecast from the hours between the last two snapshots, their sizes and
  the size of the store.\<close>

definition forecast ::
  "'db crates \<Rightarrow> (int \<Rightarrow> u64 \<Rightarrow> u64 \<Rightarrow> u64 \<Rightarrow> 'f) \<Rightarrow> 'db engine \<Rightarrow> error + 'f" where
  "forecast C growth e =
     (let snaps = snapshots e; n = length snaps in
      if n < 2 then Inl (Failure ''Need at least 2 snapshots for forecast'')
      else
        let final = snaps ! (n - 1); prev = snaps ! (n - 2) in
        case (cr_rfc3339 C (si_timestamp final), cr_rfc3339 C (si_timestamp prev)) of
          (Some a, Some b) \<Rightarrow>
            Inr (growth (whole_hours (a - b)) (si_bytes_processed final) (si_bytes_processed prev) (total_size_bytes (sys e)))
        | _ \<Rightarrow> Inl (Failure ''input contains invalid characters''))"

section \<open>Export and import\<close>

text \<open>\<open>copy_dir_recursive\<close> depth first, with the entries still to copy on a stack; copying a
  directory into itself need not end.\<close>

definition copy_file :: "path \<Rightarrow> path \<Rightarrow> (fs, unit) step" where
  "copy_file src dst f = (case fs_read f src of Inl x \<Rightarrow> (Inl x, f) | Inr b \<Rightarrow> fs_write dst b f)"

partial_function (option) copy_stack :: "(path \<times> path) list \<Rightarrow> fs \<Rightarrow> ((error + unit) \<times> fs) option" where
  "copy_stack todo f =
     (case todo of
        [] \<Rightarrow> Some (Inr (), f)
      | (src, dst) # rest \<Rightarrow>
          if is_dir f src then
            (case create_dir_all dst f of
               (Inl x, f1) \<Rightarrow> Some (Inl x, f1)
             | (Inr u, f1) \<Rightarrow>
                (case read_dir f1 src of
                   Inl x \<Rightarrow> Some (Inl x, f1)
                 | Inr names \<Rightarrow> copy_stack (map (\<lambda>n. (src @ [n], dst @ [n])) names @ rest) f1))
          else
            (case copy_file src dst f of
               (Inl x, f1) \<Rightarrow> Some (Inl x, f1)
             | (Inr u, f1) \<Rightarrow> copy_stack rest f1))"

definition copy_dir_recursive :: "path \<Rightarrow> path \<Rightarrow> fs \<Rightarrow> ((error + unit) \<times> fs) option" where
  "copy_dir_recursive src dst f = copy_stack [(src, dst)] f"

definition store_dir :: "'db engine \<Rightarrow> path" where
  "store_dir e = child (server_root e) ''.obsidian/store''"

text \<open>\<open>Path::exists\<close> of the empty path is false; a bare file name has the empty path as its parent.\<close>

definition path_exists :: "fs \<Rightarrow> path \<Rightarrow> bool" where
  "path_exists f p = (p \<noteq> [] \<and> fs_exists f p)"

definition export_snapshot :: "string \<Rightarrow> 'db engine \<Rightarrow> ((error + unit) \<times> 'db engine) option" where
  "export_snapshot p e =
     (let output = path_of p in
      if output \<noteq> [] \<and> output \<noteq> [''/''] \<and> \<not> path_exists (disk e) (parent output) then
        Some (Inl (Failure ''Export parent directory does not exist''), e)
      else if path_exists (disk e) output then Some (Inl (Failure (''Export path already exists: '' @ p)), e)
      else map_option (\<lambda>(r, f). (r, e\<lparr>disk := f\<rparr>)) (copy_dir_recursive (store_dir e) output (disk e)))"

definition import_snapshot :: "'db crates \<Rightarrow> env \<Rightarrow> string \<Rightarrow> 'db engine \<Rightarrow> ((error + backup_result) \<times> 'db engine) option" where
  "import_snapshot C v p e =
     (let input = path_of p in
      if \<not> path_exists (disk e) input then Some (Inl (Failure (''Import path does not exist: '' @ p)), e)
      else case copy_dir_recursive input (store_dir e) (disk e) of
          None \<Rightarrow> None
        | Some (Inl x, f) \<Rightarrow> Some (Inl x, e\<lparr>disk := f\<rparr>)
        | Some (Inr u, f) \<Rightarrow>
            Some (bindS (load_snapshots (cr_index C)) (\<lambda>_.
                  readS (\<lambda>e. Inr \<lparr>br_snapshot_id = ''snap_import_'' @ uuid8 v,
                     br_files_scanned = total_snapshots (sys e), br_files_changed = 0, br_files_skipped = 0,
                     br_bytes_processed = total_size_bytes (sys e), br_chunks_deduped = 0, br_chunks_new = 0,
                     br_duration_ms = 0\<rparr>)) (e\<lparr>disk := f\<rparr>)))"

section \<open>Remote synchronisation\<close>

definition snapshot_manifest_json :: "'db index_libs \<Rightarrow> string \<Rightarrow> 'db engine \<Rightarrow> error + json" where
  "snapshot_manifest_json L i e = read_manifest L e i"

definition snapshot_files :: "'db index_libs \<Rightarrow> string \<Rightarrow> 'db engine \<Rightarrow> error + string list" where
  "snapshot_files L i e = get_snapshot_files L i (index_db e)"

definition file_chunks :: "'db index_libs \<Rightarrow> string \<Rightarrow> 'db engine \<Rightarrow> error + string list" where
  "file_chunks L p e = get_file_chunks L p (index_db e)"

definition read_object_data :: "string \<Rightarrow> 'db engine \<Rightarrow> error + bytes" where
  "read_object_data h e = read_object (obj_store e) (disk e) h"

definition on_store :: "'a store_step \<Rightarrow> ('db engine, 'a) step" where
  "on_store m e = (case m (obj_store e, disk e) of (r, (s, f)) \<Rightarrow> (r, e\<lparr>obj_store := s, disk := f\<rparr>))"

definition store_object :: "'db crates \<Rightarrow> string \<Rightarrow> bytes \<Rightarrow> ('db engine, unit) step" where
  "store_object C h data =
     bindS (readS (\<lambda>e. chunk_exists (cr_index C) h (index_db e))) (\<lambda>exists.
     bindS (on_store (write_object (cr_libs C) h data (of_nat (length data)))) (\<lambda>_.
     bindS (on_index (if exists then increment_ref (cr_index C) h
                      else insert_chunk (cr_index C) h ''<remote>'' 0 (of_nat (length data)))) (\<lambda>_.
     returnS ())))"

definition store_file_chunks :: "'db index_libs \<Rightarrow> string \<Rightarrow> string list \<Rightarrow> ('db engine, unit) step" where
  "store_file_chunks L p hs = on_index (insert_file_chunks L p hs 0 0)"

definition register_remote_snapshot :: "'db index_libs \<Rightarrow> string \<Rightarrow> json \<Rightarrow> ('db engine, unit) step" where
  "register_remote_snapshot L i manifest e =
     (let dir = snapshot_dir e in
      bindS (on_disk (create_dir_all dir)) (\<lambda>_.
      bindS (liftS (json_pretty L manifest)) (\<lambda>s.
      bindS (on_disk (fs_write (child dir (i @ ''.json'')) (bytes_of s))) (\<lambda>_.
      upd (\<lambda>e. e\<lparr>snapshots := snapshots e @ [info_of i manifest]\<rparr>)))) e)"

end
