(* ===== verification/Durability.thy ===== *)
theory Durability
  imports Object_Store
begin

text \<open>
  The object store on disk: what the files of a store say about its index, so that a process that
  opens the directory again (\<open>ObjectStore::new\<close>, \<open>load_index\<close>) finds every object where the
  process before it kept it.
\<close>

section \<open>Files outside the object store\<close>

definition outside :: "object_store \<Rightarrow> path \<Rightarrow> bool" where
  "outside s q = (\<not> below (objects_dir s) q \<and> \<not> below (packfile_dir s) q)"

lemma stored_outside:
  assumes "layout s" and "stored s f s1 f1 h loc d" and "outside s q"
  shows "fs_read f1 q = fs_read f q"
proof -
  obtain root where root: "objects_dir s = root @ [''objects'']" "packfile_dir s = root @ [''packfiles'']"
      "parity_dir s = root @ [''packfiles'', ''parity'']"
    using assms(1) by (auto simp: layout_def)
  have "q \<noteq> objects_dir s @ h # t" for t
    using assms(3) below_append [of "objects_dir s" "h # t"] by (auto simp: outside_def)
  moreover have "q \<noteq> parity_dir s @ [h]"
    using assms(3) below_append [of "packfile_dir s" "[''parity'', h]"] by (auto simp: outside_def root)
  ultimately show ?thesis using assms(2) by (simp add: stored_def)
qed

lemma seal_outside:
  assumes "store_inv s" and "maybe_seal_packfiles X (s, f) = (Inr (), (s', f'))" and "outside s q"
  shows "fs_read f' q = fs_read f q" and "objects_dir s' = objects_dir s \<and> packfile_dir s' = packfile_dir s \<and>
    parity_dir s' = parity_dir s"
proof -
  have "fs_read f' q = fs_read f q \<and> objects_dir s' = objects_dir s \<and> packfile_dir s' = packfile_dir s \<and>
    parity_dir s' = parity_dir s"
  proof (cases "(s', f') = (s, f)")
    case False
    then have "seal_packfile X (individuals f (object_index s)) (s, f) = (Inr (), (s', f'))"
      using assms(2) by (auto simp: maybe_seal_packfiles_def Let_def split: if_splits)
    from sealed_intro [OF assms(1) this] obtain ds where s: "sealed s f s' f' ds" by blast
    have "q \<noteq> pack_path s \<and> q \<noteq> idx_path s \<and> q \<notin> (\<lambda>h. objects_dir s @ [h]) ` set (loose_names s f)"
      using assms(3) by (auto simp: outside_def pack_path_def idx_path_def)
    with s show ?thesis by (simp add: sealed_def)
  qed simp
  then show "fs_read f' q = fs_read f q" and "objects_dir s' = objects_dir s \<and> packfile_dir s' = packfile_dir s \<and>
    parity_dir s' = parity_dir s" by simp_all
qed

text \<open>A write of an object leaves the files outside the store alone, and the store in its place.\<close>

lemma write_object_outside:
  assumes laws: "rs_laws X" and inv: "store_inv s" and room: "room (s, f) h d"
    and run: "write_object X h d raw (s, f) = (Inr (), (s', f'))"
  shows "(\<forall>q. outside s q \<longrightarrow> fs_read f' q = fs_read f q) \<and> objects_dir s' = objects_dir s \<and>
    packfile_dir s' = packfile_dir s \<and> parity_dir s' = parity_dir s"
proof (cases "contains s h")
  case True
  with run show ?thesis by (auto simp: write_object_def)
next
  case False
  have plain: "plain h" and len: "length d < 2 ^ 64" using room by (simp_all add: room_def)
  obtain s1 f1 where w: "(if erasure_enabled s then write_sharded_object X h d
       else write_individual_object h d) (s, f) = (Inr (), (s1, f1))"
    and seal: "maybe_seal_packfiles X (s1\<lparr>total_raw_bytes := total_raw_bytes s1 + raw\<rparr>, f1) = (Inr (), (s', f'))"
    using run False by (auto simp: write_object_def bindS_Inr_iff [of "if _ then _ else _"])
  have "\<exists>loc. stored s f s1 f1 h loc d"
  proof (cases "erasure_enabled s")
    case True
    then show ?thesis using stored_sharded [OF laws _ plain store_invD(1) [OF inv] len] w by fastforce
  next
    case False
    then show ?thesis using stored_individual(1) [OF _ plain] w by fastforce
  qed
  then obtain loc where st: "stored s f s1 f1 h loc d" by blast
  have inv1: "store_inv (s1\<lparr>total_raw_bytes := total_raw_bytes s1 + raw\<rparr>)"
    using stored_result(1) [OF inv False st] by simp
  have d: "objects_dir s1 = objects_dir s" "packfile_dir s1 = packfile_dir s" "parity_dir s1 = parity_dir s"
    using st by (auto simp: stored_def)
  have "fs_read f' q = fs_read f q" if "outside s q" for q
  proof -
    have "outside (s1\<lparr>total_raw_bytes := total_raw_bytes s1 + raw\<rparr>) q" using that by (simp add: outside_def d)
    from seal_outside(1) [OF inv1 seal this] stored_outside [OF store_invD(1) [OF inv] st that] show ?thesis by simp
  qed
  moreover have "outside (s1\<lparr>total_raw_bytes := total_raw_bytes s1 + raw\<rparr>) []"
    using store_invD(1) [OF inv] by (auto simp: outside_def layout_def below_def d)
  ultimately show ?thesis using seal_outside(2) [OF inv1 seal] by (simp add: d)
qed

section \<open>What a directory of the store holds\<close>

text \<open>A name that a loose file, a parity file and a line of an index file can carry.\<close>

definition hash_name :: "string \<Rightarrow> bool" where
  "hash_name h = (plain h \<and> line_safe h \<and> list_all (\<lambda>c. of_char c < (128 :: nat)) h)"

definition all_dirs :: "fs \<Rightarrow> path \<Rightarrow> bool" where
  "all_dirs f p = (\<forall>k. is_dir f (take k p))"

text \<open>The location that \<open>load_index\<close> gives to an entry of the objects directory.\<close>

definition loose_at :: "object_store \<Rightarrow> fs \<Rightarrow> string \<Rightarrow> object_location option" where
  "loose_at s f n =
     (let p = objects_dir s @ [n] in
      if entry_name n = [] then None
      else if is_dir f p then
        (case read_parity_header f (child (parity_dir s) n) of
           Inr (original, shard) \<Rightarrow> Some (Sharded p original) | Inl x \<Rightarrow> None)
      else if is_file f p then Some (Individual p) else None)"

text \<open>Pack \<open>k\<close> is complete and its index file lists the entries \<open>es\<close>.\<close>

definition pack_lists :: "object_store \<Rightarrow> fs \<Rightarrow> u32 \<Rightarrow> packfile_entry list \<Rightarrow> bool" where
  "pack_lists s f k es =
     (fs_read f (packfile_dir s @ [pack_name k @ ''.idx'']) = Inr (bytes_of (concat (map idx_line es))) \<and>
      fs_exists f (packfile_dir s @ [pack_name k @ ''.pack'']) \<and>
      list_all (\<lambda>e. hash_name (entry_hash e)) es \<and> k < next_pack_id s)"

definition entry_loc :: "u32 \<Rightarrow> packfile_entry \<Rightarrow> object_location" where
  "entry_loc k e = Packfile (pack_name k) (entry_offset e) (entry_size e)"

definition kept_at :: "object_store \<Rightarrow> fs \<Rightarrow> string \<Rightarrow> object_location \<Rightarrow> bool" where
  "kept_at s f h loc = (case loc of
     Packfile i off n \<Rightarrow> \<exists>k es e. pack_lists s f k es \<and> e \<in> set es \<and> entry_hash e = h \<and> entry_loc k e = loc
   | _ \<Rightarrow> loose_at s f h = Some loc)"

text \<open>A store that can be opened again: its directories are there; every indexed object is kept where
  the index says; every loose object and every line of an index file belongs to the index.\<close>

definition durable :: "object_store \<Rightarrow> fs \<Rightarrow> bool" where
  "durable s f =
     (all_dirs f (objects_dir s) \<and> all_dirs f (parity_dir s) \<and>
      objects_dir s \<notin> set (faulty f) \<and> packfile_dir s \<notin> set (faulty f) \<and>
      (\<forall>h loc. map_of (object_index s) h = Some loc \<longrightarrow> hash_name h \<and> kept_at s f h loc) \<and>
      (\<forall>n. fs_exists f (objects_dir s @ [n]) \<longrightarrow> plain n \<and> (loose_at s f n \<noteq> None \<longrightarrow> contains s n)) \<and>
      (\<forall>n. fs_exists f (packfile_dir s @ [n]) \<and> ends_with ''.idx'' (entry_name n) \<longrightarrow>
         (\<exists>k es. n = pack_name k @ ''.idx'' \<and> pack_lists s f k es \<and>
            (\<forall>e \<in> set es. map_of (object_index s) (entry_hash e) = Some (entry_loc k e)))))"

lemma durableD:
  assumes "durable s f"
  shows "all_dirs f (objects_dir s)" "all_dirs f (parity_dir s)" "objects_dir s \<notin> set (faulty f)" "packfile_dir s \<notin> set (faulty f)"
    "map_of (object_index s) h = Some loc \<Longrightarrow> hash_name h" "map_of (object_index s) h = Some loc \<Longrightarrow> kept_at s f h loc"
    "fs_exists f (objects_dir s @ [n]) \<Longrightarrow> plain n" "fs_exists f (objects_dir s @ [n]) \<Longrightarrow> loose_at s f n \<noteq> None \<Longrightarrow> contains s n"
    "fs_exists f (packfile_dir s @ [n]) \<Longrightarrow> ends_with ''.idx'' (entry_name n) \<Longrightarrow>
       \<exists>k es. n = pack_name k @ ''.idx'' \<and> pack_lists s f k es \<and>
         (\<forall>e \<in> set es. map_of (object_index s) (entry_hash e) = Some (entry_loc k e))"
  using assms unfolding durable_def by blast+

lemma hash_nameD:
  assumes "hash_name h"
  shows "plain h" "line_safe h" "utf8_valid (bytes_of h)" "entry_name h = h" "h \<noteq> []" "child d h = d @ [h]"
proof -
  show p: "plain h" "line_safe h" using assms by (simp_all add: hash_name_def)
  show u: "utf8_valid (bytes_of h)"
    using assms by (intro utf8_valid_ascii) (auto simp: hash_name_def bytes_of_def list_all_iff word_less_nat_alt unat_of_nat)
  then show "entry_name h = h" by (simp add: entry_name_def)
  show "h \<noteq> []" "child d h = d @ [h]" using p(1) by (simp_all add: plain_def child_plain)
qed

lemma entry_name_id: "entry_name n \<noteq> [] \<Longrightarrow> entry_name n = n"
  by (auto simp: entry_name_def split: if_splits)

section \<open>Reading the index files\<close>

lemma idx_text_inj:
  assumes "line_safe (entry_hash a)" "line_safe (entry_hash b)" "idx_text a = idx_text b"
  shows "a = b"
proof -
  have "split3 (idx_text a) = split3 (idx_text b)" using assms(3) by simp
  then have "entry_hash a = entry_hash b" "entry_offset a = entry_offset b" "entry_size a = entry_size b"
    using assms(1,2) by (auto simp: split3_idx show_nat_inj dest: unsigned_word_eqI)
  then show ?thesis by simp
qed

lemma pack_lists_safe: "pack_lists s f k es \<Longrightarrow> list_all (\<lambda>e. line_safe (entry_hash e)) es"
  by (auto simp: pack_lists_def list_all_iff hash_nameD)

lemma bytes_of_eq: "bytes_of a = bytes_of b \<longleftrightarrow> a = b"
  by (metis string_of_bytes_of)

lemma pack_lists_unique:
  assumes "pack_lists s f k es" "pack_lists s f k es'"
  shows "es = es'"
proof -
  have "concat (map idx_line es) = concat (map idx_line es')"
    using assms by (simp add: pack_lists_def bytes_of_eq)
  then have m: "map idx_text es = map idx_text es'"
    using lines_idx [OF pack_lists_safe [OF assms(1)]] lines_idx [OF pack_lists_safe [OF assms(2)]] by metis
  have "inj_on idx_text (set es \<union> set es')"
    using pack_lists_safe [OF assms(1)] pack_lists_safe [OF assms(2)] by (intro inj_onI idx_text_inj) (auto simp: list_all_iff)
  with m show ?thesis by (simp add: inj_on_map_eq_map)
qed

lemma idx_ascii:
  assumes "list_all (\<lambda>e. hash_name (entry_hash e)) es"
  shows "utf8_valid (bytes_of (concat (map idx_line es)))"
proof (rule utf8_valid_ascii)
  have d: "c \<in> set (show_nat n) \<Longrightarrow> of_char c < (128 :: nat)" for c n
    using show_nat_digits [of c n] by simp
  then have "of_char c < (128 :: nat)" if "e \<in> set es" "c \<in> set (idx_line e)" for e c
    using that assms by (auto simp: idx_line_def list_all_iff hash_name_def)
  then show "list_all (\<lambda>b. b < 128) (bytes_of (concat (map idx_line es)))"
    by (auto simp: bytes_of_def list_all_iff word_less_nat_alt unat_of_nat)
qed

section \<open>Opening a store again\<close>

lemma load_object_spec:
  "\<exists>a b. load_object f n s = (case loose_at s f n of
     None \<Rightarrow> s
   | Some loc \<Rightarrow> s\<lparr>total_bytes := a, total_raw_bytes := b, object_index := put n loc (object_index s)\<rparr>)"
proof (cases "entry_name n = []")
  case False
  then have n: "entry_name n = n" "n \<noteq> []" using entry_name_id [of n] by auto
  let ?p = "objects_dir s @ [n]"
  consider (sharded) r where "is_dir f ?p" "read_parity_header f (child (parity_dir s) n) = Inr r"
    | (broken) x where "is_dir f ?p" "read_parity_header f (child (parity_dir s) n) = Inl x"
    | (loose) "\<not> is_dir f ?p" "is_file f ?p" | (other) "\<not> is_dir f ?p" "\<not> is_file f ?p"
    by (cases "read_parity_header f (child (parity_dir s) n)") auto
  then show ?thesis
  proof cases
    case (sharded r)
    then show ?thesis by (cases r) (simp add: load_object_def loose_at_def n, blast)
  next
    case loose
    then show ?thesis by (simp add: load_object_def loose_at_def Let_def n) blast
  qed (simp_all add: load_object_def loose_at_def n)
qed (simp add: load_object_def loose_at_def)

lemma loose_at_dirs:
  assumes "objects_dir t = objects_dir s" "parity_dir t = parity_dir s" shows "loose_at t = loose_at s"
  by (intro ext) (simp only: loose_at_def assms)

text \<open>The directories and the settings of a store.\<close>

definition same_frame :: "object_store \<Rightarrow> object_store \<Rightarrow> bool" where
  "same_frame s t = (objects_dir t = objects_dir s \<and> packfile_dir t = packfile_dir s \<and> parity_dir t = parity_dir s)"

lemma load_objects:
  assumes "distinct (map fst (object_index s))" and "t = fold (load_object f) ns s"
  shows "same_frame s t" "next_pack_id t = next_pack_id s" "distinct (map fst (object_index t))"
    "map_of (object_index t) h = (if h \<in> set ns \<and> loose_at s f h \<noteq> None then loose_at s f h else map_of (object_index s) h)"
proof -
  have "same_frame s t \<and> next_pack_id t = next_pack_id s \<and> distinct (map fst (object_index t)) \<and>
     map_of (object_index t) h = (if h \<in> set ns \<and> loose_at s f h \<noteq> None then loose_at s f h else map_of (object_index s) h)"
    using assms(1) unfolding assms(2)
  proof (induction ns arbitrary: s)
    case (Cons n ns)
    let ?s1 = "load_object f n s"
    obtain a b where l: "?s1 = (case loose_at s f n of None \<Rightarrow> s
      | Some loc \<Rightarrow> s\<lparr>total_bytes := a, total_raw_bytes := b, object_index := put n loc (object_index s)\<rparr>)"
      using load_object_spec [of f n s] by blast
    have s1: "same_frame s ?s1 \<and> next_pack_id ?s1 = next_pack_id s \<and> distinct (map fst (object_index ?s1)) \<and>
      map_of (object_index ?s1) h = (if h = n \<and> loose_at s f h \<noteq> None then loose_at s f h else map_of (object_index s) h)"
      unfolding l using Cons.prems by (cases "h = n") (simp_all add: same_frame_def split: option.split)
    have "loose_at ?s1 = loose_at s" by (rule loose_at_dirs) (use s1 in \<open>simp_all add: same_frame_def\<close>)
    with Cons.IH [of ?s1] s1 show ?case by (auto simp: same_frame_def)
  qed (simp add: same_frame_def)
  then show "same_frame s t" "next_pack_id t = next_pack_id s" "distinct (map fst (object_index t))"
    "map_of (object_index t) h = (if h \<in> set ns \<and> loose_at s f h \<noteq> None then loose_at s f h else map_of (object_index s) h)"
    by simp_all
qed

lemma trim_pack_idx: "trim_end ''.idx'' (pack_name k @ ''.idx'') = pack_name k"
proof -
  have ne: "show_padded 5 (unat k) \<noteq> []" by (simp add: show_padded_def show_nat_ne)
  let ?r = "rev (pack_name k)"
  obtain xs c where "show_padded 5 (unat k) = xs @ [c]" using ne rev_exhaust by blast
  then obtain r where r: "?r = c # r" "c \<in> set (show_padded 5 (unat k))" by (auto simp: pack_name_def)
  have "c \<noteq> CHR ''x''" using show_padded_digits [OF r(2)] by auto
  then have "trim_start ''xdi.'' ?r = ?r" by (intro trim_start_none) (simp add: r(1))
  then have "trim_start ''xdi.'' (''xdi.'' @ ?r) = ?r" by (simp add: trim_start.simps [of "''xdi.''" "CHR ''x'' # _"])
  then show ?thesis by (simp add: trim_end_def)
qed

lemma pack_name_ascii: "entry_name (pack_name k @ ''.idx'') = pack_name k @ ''.idx''"
proof -
  have "of_char c < (128 :: nat)" if "c \<in> set (show_padded 5 (unat k))" for c
    using show_padded_digits [OF that] by simp
  then have "utf8_valid (bytes_of (pack_name k @ ''.idx''))"
    by (intro utf8_valid_ascii) (auto simp: bytes_of_def list_all_iff word_less_nat_alt unat_of_nat pack_name_def)
  then show ?thesis by (simp add: entry_name_def)
qed

lemma load_pack_spec:
  assumes "pack_lists s f k es" and "same_frame s t"
  shows "\<exists>t'. load_pack f (pack_name k @ ''.idx'') t = Inr t' \<and> same_frame s t' \<and>
     object_index t' = fold (add_entry (pack_name k)) es (object_index t) \<and> next_pack_id t' = max (next_pack_id t) (k + 1)"
proof -
  have pd: "packfile_dir t = packfile_dir s" using assms(2) by (simp add: same_frame_def)
  have r: "fs_read_to_string f (packfile_dir s @ [pack_name k @ ''.idx'']) = Inr (concat (map idx_line es))"
    and ex: "fs_exists f (packfile_dir s @ [pack_name k @ ''.pack''])"
    using assms(1) idx_ascii [of es] by (auto simp: pack_lists_def fs_read_to_string_def codec_simps)
  let ?t = "fold (load_line (pack_name k)) (str_lines (concat (map idx_line es))) t"
  have "same_frame t ?t \<and> next_pack_id ?t = next_pack_id t"
  proof -
    have "same_frame t (fold (load_line i) ls u) \<and> next_pack_id (fold (load_line i) ls u) = next_pack_id u" if "same_frame t u" for i ls u
      using that
    proof (induction ls arbitrary: u)
      case (Cons l ls)
      have "same_frame t (load_line i l u)" "next_pack_id (load_line i l u) = next_pack_id u"
        using Cons.prems by (auto simp: load_line_def same_frame_def Let_def split: option.split)
      with Cons.IH [of "load_line i l u"] show ?case by simp
    qed simp
    then show ?thesis by (simp add: same_frame_def)
  qed
  moreover have "object_index ?t = fold (add_entry (pack_name k)) es (object_index t)"
    using lines_idx [OF pack_lists_safe [OF assms(1)]] load_lines [OF pack_lists_safe [OF assms(1)]] by metis
  ultimately show ?thesis
    using assms(2) ex
    by (simp add: load_pack_def pack_name_ascii ends_with_def Let_def trim_pack_idx pd r parse_pack_seq_name same_frame_def)
qed

text \<open>The index files agree with a map \<open>m\<close>.\<close>

definition agrees :: "object_store \<Rightarrow> fs \<Rightarrow> (string \<Rightarrow> object_location option) \<Rightarrow> string \<Rightarrow> bool" where
  "agrees s f m n = (ends_with ''.idx'' (entry_name n) \<longrightarrow>
     (\<exists>k es. n = pack_name k @ ''.idx'' \<and> pack_lists s f k es \<and> (\<forall>e \<in> set es. m (entry_hash e) = Some (entry_loc k e))))"

lemma fold_agree:
  assumes "\<forall>e \<in> set es. m (entry_hash e) = Some (entry_loc k e)"
  shows "map_of (fold (add_entry (pack_name k)) es idx) h = (if h \<in> entry_hash ` set es then m h else map_of idx h)"
  using assms by (induction es arbitrary: idx) (auto simp: add_entry_def entry_loc_def)

lemma load_packs_result:
  assumes "\<forall>n \<in> set ns. agrees s f m n" and "same_frame s t" and "distinct (map fst (object_index t))"
  shows "\<exists>t'. load_packs f ns t = Inr t' \<and> same_frame s t' \<and> distinct (map fst (object_index t')) \<and>
     next_pack_id t \<le> next_pack_id t' \<and>
     (\<forall>k es. pack_lists s f k es \<longrightarrow> pack_name k @ ''.idx'' \<in> set ns \<longrightarrow> k < next_pack_id t' \<and>
        (\<forall>h \<in> entry_hash ` set es. map_of (object_index t') h = m h)) \<and>
     (\<forall>h. map_of (object_index t') h = m h \<or> map_of (object_index t') h = map_of (object_index t) h)"
  using assms
proof (induction ns arbitrary: t)
  case (Cons n ns)
  show ?case
  proof (cases "ends_with ''.idx'' (entry_name n)")
    case False
    then have "load_pack f n t = Inr t" by (simp add: load_pack_def)
    moreover have "\<forall>k. n \<noteq> pack_name k @ ''.idx''"
    proof (intro allI notI)
      fix k assume "n = pack_name k @ ''.idx''"
      with False pack_name_ascii [of k] show False by (simp add: ends_with_def)
    qed
    ultimately show ?thesis using Cons.IH [of t] Cons.prems by auto
  next
    case True
    then obtain k es where n: "n = pack_name k @ ''.idx''" and l: "pack_lists s f k es"
      and m: "\<forall>e \<in> set es. m (entry_hash e) = Some (entry_loc k e)" using Cons.prems(1) by (auto simp: agrees_def)
    obtain t1 where t1: "load_pack f n t = Inr t1" "same_frame s t1" "next_pack_id t1 = max (next_pack_id t) (k + 1)"
      and i: "object_index t1 = fold (add_entry (pack_name k)) es (object_index t)"
      using load_pack_spec [OF l Cons.prems(2)] n by auto
    have k: "k < next_pack_id s" using l by (simp add: pack_lists_def)
    then have "k \<noteq> - 1" using word_n1_ge [of "next_pack_id s"] by (metis leD)
    then have k1: "k < k + 1" using next_pack_less [of k k] by auto
    have "distinct (map fst (object_index t1))" using Cons.prems(3) by (simp add: i fold_entries_distinct)
    then obtain t' where t': "load_packs f ns t1 = Inr t'" "same_frame s t'" "distinct (map fst (object_index t'))"
      "next_pack_id t1 \<le> next_pack_id t'"
      "\<forall>k es. pack_lists s f k es \<longrightarrow> pack_name k @ ''.idx'' \<in> set ns \<longrightarrow> k < next_pack_id t' \<and>
        (\<forall>h \<in> entry_hash ` set es. map_of (object_index t') h = m h)"
      "\<forall>h. map_of (object_index t') h = m h \<or> map_of (object_index t') h = map_of (object_index t1) h"
      using Cons.IH [of t1] Cons.prems(1) t1(2) by auto
    have idx: "map_of (object_index t1) h = (if h \<in> entry_hash ` set es then m h else map_of (object_index t) h)" for h
      unfolding i by (rule fold_agree [OF m])
    have new: "k' < next_pack_id t' \<and> (\<forall>h \<in> entry_hash ` set es'. map_of (object_index t') h = m h)"
      if "pack_lists s f k' es'" "pack_name k' @ ''.idx'' = n" for k' es'
    proof -
      have e: "k' = k" using that(2) n by (simp add: pack_name_inj)
      have "es' = es" using that(1) l unfolding e by (rule pack_lists_unique)
      moreover have "k + 1 \<le> next_pack_id t'" using t'(4) t1(3) by simp
      with k1 have "k < next_pack_id t'" by (rule less_le_trans)
      moreover have "map_of (object_index t') h = m h" if "h \<in> entry_hash ` set es" for h using t'(6) idx [of h] that by metis
      ultimately show ?thesis using e by blast
    qed
    have "next_pack_id t \<le> next_pack_id t'" using t'(4) t1(3) by simp
    moreover have "k' < next_pack_id t' \<and> (\<forall>h \<in> entry_hash ` set es'. map_of (object_index t') h = m h)"
      if "pack_lists s f k' es'" "pack_name k' @ ''.idx'' \<in> set (n # ns)" for k' es'
      using new [OF that(1)] t'(5) that by auto
    moreover have "map_of (object_index t') h = m h \<or> map_of (object_index t') h = map_of (object_index t) h" for h
      using t'(6) idx by metis
    moreover have "load_packs f (n # ns) t = Inr t'" using t1(1) t'(1) by simp
    ultimately show ?thesis using t'(2,3) by blast
  qed
qed simp

text \<open>What \<open>read_dir\<close> lists is what is there.\<close>

lemma read_dir_lists:
  assumes "is_dir f p" "p \<notin> set (faulty f)" and "p \<noteq> []"
  obtains ns where "read_dir f p = Inr ns" "\<And>n. n \<in> set ns \<longleftrightarrow> fs_exists f (p @ [n])"
proof -
  let ?ns = "map (last \<circ> fst) (filter (\<lambda>(q, n). q \<noteq> [] \<and> butlast q = p) (entries f))"
  have "n \<in> set ?ns \<longleftrightarrow> fs_exists f (p @ [n])" for n
  proof -
    have "n \<in> set ?ns \<longleftrightarrow> p @ [n] \<in> fst ` set (entries f)"
      by (force simp: image_iff intro: append_butlast_last_id [symmetric])
    also have "\<dots> \<longleftrightarrow> map_of (entries f) (p @ [n]) \<noteq> None" by (simp add: map_of_eq_None_iff)
    also have "\<dots> \<longleftrightarrow> fs_exists f (p @ [n])" using assms(3) by (cases p) (auto simp: fs_exists_def fs_node_def)
    finally show ?thesis .
  qed
  moreover have "read_dir f p = Inr ?ns" using assms by (simp add: read_dir_def)
  ultimately show ?thesis using that by blast
qed

lemma loose_at_exists: "loose_at s f h = Some loc \<Longrightarrow> fs_exists f (objects_dir s @ [h])"
  by (auto simp: loose_at_def Let_def fs_exists_def is_dir_def is_file_def split: if_splits option.splits)

text \<open>A store as \<open>ObjectStore::new\<close> makes it before it loads the index.\<close>

definition blank :: "object_store \<Rightarrow> object_store \<Rightarrow> bool" where
  "blank s t = (same_frame s t \<and> object_index t = [] \<and> next_pack_id t = 1)"

text \<open>Two stores that keep the same objects at the same places.\<close>

definition same_objects :: "object_store \<Rightarrow> object_store \<Rightarrow> bool" where
  "same_objects s t = (same_frame s t \<and> (\<forall>h. map_of (object_index t) h = map_of (object_index s) h))"

lemma same_objectsD:
  assumes "same_objects s t"
  shows "contains t = contains s" "read_object t f = read_object s f" "same_frame s t"
    "map_of (object_index t) h = map_of (object_index s) h"
proof -
  show "map_of (object_index t) h = map_of (object_index s) h" for h using assms by (simp add: same_objects_def)
  then show "contains t = contains s" by (simp add: contains_def fun_eq_iff)
  show "same_frame s t" using assms by (simp add: same_objects_def)
  show "read_object t f = read_object s f"
    by (rule ext, rule read_object_cong) (use assms in \<open>auto simp: same_objects_def same_frame_def\<close>)
qed

lemma dir_paths:
  assumes "layout s"
  shows "objects_dir s \<noteq> []" "packfile_dir s \<noteq> []" "objects_dir s \<noteq> packfile_dir s"
    "\<exists>p. parity_dir s = packfile_dir s @ [p]"
  using assms by (auto simp: layout_def)

lemma all_dirs_prefix: "all_dirs f (p @ q) \<Longrightarrow> all_dirs f p"
proof -
  assume d: "all_dirs f (p @ q)"
  have "take k p = take (min k (length p)) (p @ q)" for k by (cases "k \<le> length p") auto
  then have "is_dir f (take k p)" for k using d by (metis all_dirs_def)
  then show "all_dirs f p" by (simp add: all_dirs_def)
qed

lemma durable_packdir: "layout s \<Longrightarrow> durable s f \<Longrightarrow> all_dirs f (packfile_dir s)"
  using dir_paths(4) [of s] durableD(2) [of s f] all_dirs_prefix [of f "packfile_dir s"] by auto

lemma all_dirs_self: "all_dirs f p \<Longrightarrow> is_dir f p"
  unfolding all_dirs_def by (metis order_refl take_all)

lemma durable_agrees: "durable s f \<Longrightarrow> fs_exists f (packfile_dir s @ [n]) \<Longrightarrow> agrees s f (map_of (object_index s)) n"
  using durableD(9) [of s f n] by (simp add: agrees_def)

text \<open>Opening the directory of a durable store finds every object at its place.\<close>

lemma load_index_durable:
  assumes d: "durable s f" and inv: "store_inv s" and blank: "blank s t"
  shows "\<exists>t'. load_index f t = Inr t' \<and> same_objects s t' \<and> store_inv t' \<and> (\<forall>k es. pack_lists s f k es \<longrightarrow> k < next_pack_id t')"
proof -
  let ?m = "map_of (object_index s)"
  note l = store_invD(1) [OF inv] and t = blank [unfolded blank_def same_frame_def]
  have od: "is_dir f (objects_dir s)" by (rule all_dirs_self) (rule durableD(1) [OF d])
  have pd: "is_dir f (packfile_dir s)" by (rule all_dirs_self) (rule durable_packdir [OF l d])
  obtain ns where ns: "read_dir f (objects_dir s) = Inr ns" "\<And>n. n \<in> set ns \<longleftrightarrow> fs_exists f (objects_dir s @ [n])"
    using read_dir_lists [OF od durableD(3) [OF d] dir_paths(1) [OF l]] by blast
  obtain ps where ps: "read_dir f (packfile_dir s) = Inr ps" "\<And>n. n \<in> set ps \<longleftrightarrow> fs_exists f (packfile_dir s @ [n])"
    using read_dir_lists [OF pd durableD(4) [OF d] dir_paths(2) [OF l]] by blast
  define t1 where "t1 = fold (load_object f) ns t"
  note o1 = load_objects [OF _ t1_def]
  have dt: "distinct (map fst (object_index t))" using t by simp
  have la: "loose_at t = loose_at s" by (rule loose_at_dirs) (use t in simp_all)
  have t1: "same_frame s t1" "next_pack_id t1 = 1" "distinct (map fst (object_index t1))"
    "map_of (object_index t1) h = (if h \<in> set ns then loose_at s f h else None)" for h
    using o1(1-4) [OF dt] t by (auto simp: same_frame_def la)
  have "\<forall>n \<in> set ps. agrees s f ?m n" using durable_agrees [OF d] ps(2) by blast
  from load_packs_result [OF this t1(1,3)] obtain t' where
    t': "load_packs f ps t1 = Inr t'" "same_frame s t'" "distinct (map fst (object_index t'))"
      "\<And>k es. pack_lists s f k es \<Longrightarrow> pack_name k @ ''.idx'' \<in> set ps \<Longrightarrow> k < next_pack_id t' \<and>
        (\<forall>h \<in> entry_hash ` set es. map_of (object_index t') h = ?m h)"
      "\<And>h. map_of (object_index t') h = ?m h \<or> map_of (object_index t') h = map_of (object_index t1) h" by auto
  have listed: "pack_name k @ ''.idx'' \<in> set ps" if "pack_lists s f k es" for k es
    using that fs_read_InrD by (fastforce simp: ps(2) pack_lists_def fs_exists_def)
  have same: "map_of (object_index t') h = ?m h" for h
  proof (cases "?m h")
    case None
    have "loose_at s f h = None" if "h \<in> set ns"
      using that durableD(8) [OF d, of h] None by (cases "loose_at s f h") (auto simp: ns(2) contains_def)
    then show ?thesis using t'(5) [of h] None by (auto simp: t1(4))
  next
    case (Some loc)
    note k = durableD(6) [OF d Some]
    show ?thesis
    proof (cases loc)
      case (Packfile i off n)
      then obtain k es e where "pack_lists s f k es" "e \<in> set es" "entry_hash e = h" using k by (auto simp: kept_at_def)
      with t'(4) listed show ?thesis by blast
    next
      case (Individual p)
      then have lo: "loose_at s f h = Some loc" using k by (simp add: kept_at_def)
      then have "h \<in> set ns" by (simp add: ns(2) loose_at_exists)
      with lo Some t'(5) [of h] show ?thesis by (auto simp: t1(4))
    next
      case (Sharded p n)
      then have lo: "loose_at s f h = Some loc" using k by (simp add: kept_at_def)
      then have "h \<in> set ns" by (simp add: ns(2) loose_at_exists)
      with lo Some t'(5) [of h] show ?thesis by (auto simp: t1(4))
    qed
  qed
  have obj: "same_objects s t'" using same t'(2) by (simp add: same_objects_def)
  have "loc_ok t' h loc" if "?m h = Some loc" for h loc
  proof -
    have "loc_ok s h loc" using store_invD(3) [OF inv that] .
    moreover have "\<exists>k < next_pack_id t'. i = pack_name k" if p: "loc = Packfile i off n" for i off n
    proof -
      obtain k es e where "pack_lists s f k es" "entry_loc k e = loc"
        using durableD(6) [OF d \<open>?m h = Some loc\<close>] p by (auto simp: kept_at_def)
      then show ?thesis using t'(4) listed p by (auto simp: entry_loc_def)
    qed
    ultimately show ?thesis using t'(2) by (auto simp: loc_ok_def same_frame_def split: object_location.splits)
  qed
  then have "store_inv t'"
    using inv t'(2,3) same by (simp add: store_inv_def layout_def same_frame_def)
  moreover have "load_index f t = Inr t'"
    using t t1(1) od pd by (simp add: load_index_def ns(1) ps(1) t'(1) t1_def [symmetric] same_frame_def fs_exists_def is_dir_def)
  ultimately show ?thesis using obj t'(4) listed by blast
qed

section \<open>What keeps a store durable\<close>

lemma fs_read_same: "fs_node g q = fs_node f q \<Longrightarrow> faulty g = faulty f \<Longrightarrow> fs_read g q = fs_read f q"
  by (simp add: fs_read_def split: option.split node.split)

lemma pack_lists_change:
  assumes "pack_lists s f k es" and "packfile_dir t = packfile_dir s" and "k < next_pack_id t"
    and "fs_read g (packfile_dir s @ [pack_name k @ ''.idx'']) = fs_read f (packfile_dir s @ [pack_name k @ ''.idx''])"
    and "fs_exists f (packfile_dir s @ [pack_name k @ ''.pack'']) \<Longrightarrow> fs_exists g (packfile_dir s @ [pack_name k @ ''.pack''])"
  shows "pack_lists t g k es"
  using assms by (simp add: pack_lists_def)

text \<open>Durability looks at the directories of the store, the entries of the objects directory with
  their parity files, and the packs.\<close>

lemma durable_change:
  assumes d: "durable s f" and frame: "same_frame s t"
    and dirs: "\<And>q. is_dir f q \<Longrightarrow> is_dir g q" and faulty: "faulty g = faulty f"
    and loose: "\<And>n. fs_exists g (objects_dir s @ [n]) \<Longrightarrow> plain n \<and> (loose_at t g n \<noteq> None \<longrightarrow> contains t n)"
    and kept: "\<And>h loc. map_of (object_index t) h = Some loc \<Longrightarrow> hash_name h \<and> kept_at t g h loc"
    and packs: "\<And>n. fs_exists g (packfile_dir s @ [n]) \<Longrightarrow> ends_with ''.idx'' (entry_name n) \<Longrightarrow>
         \<exists>k es. n = pack_name k @ ''.idx'' \<and> pack_lists t g k es \<and>
            (\<forall>e \<in> set es. map_of (object_index t) (entry_hash e) = Some (entry_loc k e))"
  shows "durable t g"
proof -
  have fr: "objects_dir t = objects_dir s" "packfile_dir t = packfile_dir s" "parity_dir t = parity_dir s"
    using frame by (simp_all add: same_frame_def)
  have "all_dirs g p" if "all_dirs f p" for p using that dirs by (simp add: all_dirs_def)
  then show ?thesis
    using durableD(1-4) [OF d] kept packs loose by (simp add: durable_def fr faulty)
qed

lemma kept_at_mono:
  assumes "kept_at s f h loc" and "\<And>k es. pack_lists s f k es \<Longrightarrow> pack_lists t g k es"
    and "loose_at s f h = Some loc \<Longrightarrow> loose_at t g h = Some loc"
  shows "kept_at t g h loc"
proof (cases loc)
  case (Packfile i off n)
  with assms(1) obtain k es e where "pack_lists s f k es" "e \<in> set es" "entry_hash e = h" "entry_loc k e = loc"
    by (auto simp: kept_at_def)
  with assms(2) Packfile show ?thesis by (auto simp: kept_at_def)
qed (use assms in \<open>auto simp: kept_at_def\<close>)

lemma durable_same:
  assumes "durable s f" and "same_objects s t" and "\<And>k es. pack_lists s f k es \<Longrightarrow> k < next_pack_id t"
  shows "durable t f"
proof (rule durable_change [OF assms(1)])
  show fr: "same_frame s t" by (rule same_objectsD [OF assms(2)])
  have la: "loose_at t = loose_at s" by (rule loose_at_dirs) (use fr in \<open>simp_all add: same_frame_def\<close>)
  show "plain n \<and> (loose_at t f n \<noteq> None \<longrightarrow> contains t n)" if "fs_exists f (objects_dir s @ [n])" for n
    using durableD(7,8) [OF assms(1) that] by (simp add: la same_objectsD(1) [OF assms(2)])
  have pl: "pack_lists t f k es" if "pack_lists s f k es" for k es
    by (rule pack_lists_change [OF that]) (use that assms(3) fr in \<open>auto simp: same_frame_def\<close>)
  have m: "map_of (object_index t) h = map_of (object_index s) h" for h by (rule same_objectsD [OF assms(2)])
  show "hash_name h \<and> kept_at t f h loc" if "map_of (object_index t) h = Some loc" for h loc
    using durableD(5) [OF assms(1)] kept_at_mono [OF durableD(6) [OF assms(1)] pl] that by (simp add: m la)
  show "\<exists>k es. n = pack_name k @ ''.idx'' \<and> pack_lists t f k es \<and>
      (\<forall>e \<in> set es. map_of (object_index t) (entry_hash e) = Some (entry_loc k e))"
    if "fs_exists f (packfile_dir s @ [n])" "ends_with ''.idx'' (entry_name n)" for n
    using durableD(9) [OF assms(1) that] pl by (fastforce simp: m)
qed simp_all

text \<open>Changes elsewhere on the disk.\<close>

lemma durable_elsewhere:
  assumes d: "durable s f" and "layout s" and dirs: "\<And>q. is_dir f q \<Longrightarrow> is_dir g q" and "faulty g = faulty f"
    and eq: "\<And>q. below (objects_dir s) q \<or> below (packfile_dir s) q \<Longrightarrow> fs_node g q = fs_node f q"
  shows "durable s g"
proof -
  obtain p where par: "parity_dir s = packfile_dir s @ [p]" using dir_paths(4) [OF assms(2)] by blast
  have n: "fs_node g (objects_dir s @ t) = fs_node f (objects_dir s @ t)" "fs_node g (packfile_dir s @ t) = fs_node f (packfile_dir s @ t)" for t
    by (intro eq; simp)+
  have r: "fs_read g (packfile_dir s @ t) = fs_read f (packfile_dir s @ t)" for t
    by (rule fs_read_same) (simp_all add: n assms(4))
  have la: "loose_at s g h = loose_at s f h" if "plain h" for h
  proof -
    have "child (parity_dir s) h = packfile_dir s @ [p, h]" using that par by (simp add: child_plain)
    then have "read_parity_header g (child (parity_dir s) h) = read_parity_header f (child (parity_dir s) h)"
      by (simp add: read_parity_header_def r)
    moreover have "is_dir g (objects_dir s @ [h]) = is_dir f (objects_dir s @ [h])"
      "is_file g (objects_dir s @ [h]) = is_file f (objects_dir s @ [h])" by (simp_all add: is_dir_def is_file_def n)
    ultimately show ?thesis by (simp add: loose_at_def Let_def)
  qed
  have pl: "pack_lists s g k es" if "pack_lists s f k es" for k es
    by (rule pack_lists_change [OF that]) (use that in \<open>simp_all add: r fs_exists_def n pack_lists_def\<close>)
  show ?thesis
  proof (rule durable_change [OF d _ dirs assms(4)])
    show "hash_name h \<and> kept_at s g h loc" if "map_of (object_index s) h = Some loc" for h loc
      using durableD(5) [OF d that] kept_at_mono [OF durableD(6) [OF d that] pl] hash_nameD(1) [of h] by (simp add: la)
    show "\<exists>k es. n = pack_name k @ ''.idx'' \<and> pack_lists s g k es \<and>
        (\<forall>e \<in> set es. map_of (object_index s) (entry_hash e) = Some (entry_loc k e))"
      if "fs_exists g (packfile_dir s @ [n])" "ends_with ''.idx'' (entry_name n)" for n
      using durableD(9) [OF d _ that(2)] that(1) pl by (fastforce simp: fs_exists_def n)
    show "plain m \<and> (loose_at s g m \<noteq> None \<longrightarrow> contains s m)" if "fs_exists g (objects_dir s @ [m])" for m
      using durableD(7,8) [OF d, of m] that la [of m] by (simp add: fs_exists_def n)
  qed (simp_all add: same_frame_def)
qed

text \<open>One more loose object.\<close>

lemma durable_add:
  assumes d: "durable s f" and inv: "store_inv s" and new: "\<not> contains s h" and name: "hash_name h"
    and t: "t = s\<lparr>total_bytes := b, object_index := put h loc (object_index s)\<rparr>"
    and at: "loose_at t g h = Some loc"
    and eq: "\<And>q. (\<And>t. q \<noteq> objects_dir s @ h # t) \<Longrightarrow> q \<noteq> parity_dir s @ [h] \<Longrightarrow> fs_node g q = fs_node f q"
    and dirs: "\<And>q. is_dir f q \<Longrightarrow> is_dir g q" and faulty: "faulty g = faulty f"
  shows "durable t g"
proof -
  obtain root where root: "objects_dir s = root @ [''objects'']" "packfile_dir s = root @ [''packfiles'']"
      "parity_dir s = root @ [''packfiles'', ''parity'']"
    using store_invD(1) [OF inv] by (auto simp: layout_def)
  have fr: "same_frame s t" "next_pack_id t = next_pack_id s" "packfile_dir t = packfile_dir s" by (simp_all add: t same_frame_def)
  have la: "loose_at t = loose_at s" by (rule loose_at_dirs) (simp_all add: t)
  have n: "fs_node g (objects_dir s @ [n]) = fs_node f (objects_dir s @ [n])" if "n \<noteq> h" for n
    by (rule eq) (use that in \<open>simp_all add: root\<close>)
  have p: "fs_node g (packfile_dir s @ [n]) = fs_node f (packfile_dir s @ [n])" for n
    by (rule eq) (simp_all add: root)
  have par: "read_parity_header g (parity_dir s @ [n]) = read_parity_header f (parity_dir s @ [n])" if "n \<noteq> h" for n
  proof -
    have "fs_node g (parity_dir s @ [n]) = fs_node f (parity_dir s @ [n])" by (rule eq) (use that in \<open>simp_all add: root\<close>)
    then show ?thesis using fs_read_same [OF _ faulty] by (simp add: read_parity_header_def)
  qed
  have lo: "loose_at s g n = loose_at s f n" if "n \<noteq> h" "plain n" for n
  proof -
    have "child (parity_dir s) n = parity_dir s @ [n]" using that by (simp add: child_plain)
    with n [OF that(1)] par [OF that(1)] show ?thesis by (simp add: loose_at_def Let_def is_dir_def is_file_def)
  qed
  have pl: "pack_lists t g k es" if "pack_lists s f k es" for k es
    by (rule pack_lists_change [OF that fr(3)])
      (use that fs_read_same [OF p faulty] in \<open>simp_all add: fr(2) pack_lists_def fs_exists_def p\<close>)
  show ?thesis
  proof (rule durable_change [OF d fr(1) dirs faulty])
    show "plain n \<and> (loose_at t g n \<noteq> None \<longrightarrow> contains t n)" if "fs_exists g (objects_dir s @ [n])" for n
    proof (cases "n = h")
      case True
      then show ?thesis using name by (simp add: hash_nameD contains_def t)
    next
      case False
      then have "fs_exists f (objects_dir s @ [n])" using that n by (simp add: fs_exists_def)
      from durableD(7,8) [OF d this] show ?thesis using lo [OF False] by (auto simp: la) (simp add: contains_def t)
    qed
    show "hash_name x \<and> kept_at t g x l" if "map_of (object_index t) x = Some l" for x l
    proof (cases "x = h")
      case True
      then have "l = loc" using that by (simp add: t)
      moreover have "kept_at t g h loc" using at
        by (auto simp: kept_at_def loose_at_def Let_def split: object_location.split if_splits sum.splits)
      ultimately show ?thesis using name True by simp
    next
      case False
      then have x: "map_of (object_index s) x = Some l" using that by (simp add: t)
      have "hash_name x" by (rule durableD(5) [OF d x])
      moreover have "loose_at t g x = loose_at s f x" using lo [OF False hash_nameD(1) [OF \<open>hash_name x\<close>]] by (simp add: la)
      then have "kept_at t g x l" by (intro kept_at_mono [OF durableD(6) [OF d x] pl]) simp_all
      ultimately show ?thesis by blast
    qed
    show "\<exists>k es. n = pack_name k @ ''.idx'' \<and> pack_lists t g k es \<and>
        (\<forall>e \<in> set es. map_of (object_index t) (entry_hash e) = Some (entry_loc k e))"
      if ex: "fs_exists g (packfile_dir s @ [n])" and nm: "ends_with ''.idx'' (entry_name n)" for n
    proof -
      obtain k es where k: "n = pack_name k @ ''.idx''" "pack_lists s f k es"
        "\<forall>e \<in> set es. map_of (object_index s) (entry_hash e) = Some (entry_loc k e)"
        using durableD(9) [OF d _ nm] ex by (auto simp: fs_exists_def p)
      then have "map_of (object_index t) (entry_hash e) = Some (entry_loc k e)" if "e \<in> set es" for e
        using new that by (auto simp: t contains_def)
      with k pl show ?thesis by blast
    qed
  qed
qed

lemma durable_raw_bytes [simp]: "durable (s\<lparr>total_raw_bytes := n\<rparr>) f = durable s f"
proof -
  have la: "loose_at (s\<lparr>total_raw_bytes := n\<rparr>) = loose_at s" by (rule loose_at_dirs) simp_all
  moreover have pl: "pack_lists (s\<lparr>total_raw_bytes := n\<rparr>) = pack_lists s" by (simp add: pack_lists_def fun_eq_iff)
  ultimately have "kept_at (s\<lparr>total_raw_bytes := n\<rparr>) f h loc = kept_at s f h loc" for h loc
    by (cases loc) (simp_all add: kept_at_def)
  then show ?thesis by (simp add: durable_def la pl)
qed

section \<open>The steps of a write\<close>

text \<open>Only files at the paths \<open>P\<close> have changed.\<close>

definition only_files :: "path set \<Rightarrow> fs \<Rightarrow> fs \<Rightarrow> bool" where
  "only_files P f g = ((\<forall>q. q \<notin> P \<longrightarrow> fs_node g q = fs_node f q) \<and> faulty g = faulty f \<and> (\<forall>q. is_dir g q = is_dir f q))"

lemma only_files_refl [simp]: "only_files P f f"
  by (simp add: only_files_def)

lemma only_files_trans: "only_files P f g \<Longrightarrow> only_files P g h \<Longrightarrow> only_files P f h"
  by (simp add: only_files_def)

lemma only_files_mono: "only_files P f g \<Longrightarrow> P \<subseteq> Q \<Longrightarrow> only_files Q f g"
  by (auto simp: only_files_def)

lemma only_files_write: "fs_write p b f = (Inr (), g) \<Longrightarrow> only_files {p} f g"
  using fs_write_frame [of p b f "Inr ()" g] by (simp add: only_files_def fs_node_write is_dir_write)

lemma only_files_append: "fs_append p b f = (Inr (), g) \<Longrightarrow> only_files {p} f g"
proof -
  assume "fs_append p b f = (Inr (), g)"
  then obtain old where r: "fs_read f p = Inr old" and g: "g = set_node p (File (old @ b)) f"
    by (auto simp: fs_append_def split: sum.splits)
  have n: "fs_node f p = Some (File old)" using fs_read_InrD [OF r] by simp
  then have "fs_node g q = (if q = p then Some (File (old @ b)) else fs_node f q)" for q
    using fs_node_root [of q f] by (auto simp: g)
  then show "only_files {p} f g" using n by (auto simp: only_files_def is_dir_def g faulty_set_node)
qed

lemma only_files_remove: "only_files {p} f (snd (remove_file p f))"
proof (cases "fst (remove_file p f)")
  case (Inr u)
  then have r: "remove_file p f = (Inr (), snd (remove_file p f))" by (simp add: prod_eq_iff)
  have "is_file f p" using Inr by (auto simp: remove_file_def split: if_splits)
  then have "\<not> is_dir f p" by (auto simp: is_file_def is_dir_def)
  then show ?thesis using remove_file_frame [OF r] fs_node_remove_file [OF r] by (auto simp: only_files_def is_dir_def)
qed (auto simp: remove_file_def split: if_splits)

lemma only_files_loose: "only_files ((\<lambda>(h, p, n). p) ` set objs) f (remove_loose objs f)"
proof (induction objs f rule: remove_loose.induct)
  case (2 h p n objs f)
  let ?P = "(\<lambda>(h, p, n). p) ` set ((h, p, n) # objs)"
  have "only_files ?P f (snd (remove_file p f))" by (rule only_files_mono [OF only_files_remove]) simp
  moreover have "only_files ?P (snd (remove_file p f)) (remove_loose objs (snd (remove_file p f)))"
    by (rule only_files_mono [OF 2]) (simp add: subset_insertI)
  ultimately show ?case using only_files_trans by fastforce
qed simp

lemma only_files_shards:
  "write_shards dir i bs f = (Inr (), g) \<Longrightarrow> only_files {dir @ [shard_name j] | j. True} f g"
proof (induction bs arbitrary: i f)
  case (Cons b bs)
  then obtain f1 where 1: "fs_write (dir @ [shard_name i]) b f = (Inr (), f1)" "write_shards dir (Suc i) bs f1 = (Inr (), g)"
    by (auto simp: bindS_Inr_iff)
  have "only_files {dir @ [shard_name j] | j. True} f f1" by (rule only_files_mono [OF only_files_write [OF 1(1)]]) auto
  with Cons.IH [OF 1(2)] show ?case by (rule only_files_trans [rotated])
qed simp

lemma only_files_pack: "pack_objects X objs w f = (Inr w', g) \<Longrightarrow> only_files {writer_path w} f g"
proof (induction X objs w arbitrary: f rule: pack_objects.induct)
  case (2 X h p n objs w)
  from "2.prems" obtain d w1 f1 where w1: "writer_write_object X w h d f = (Inr w1, f1)"
    and rest: "pack_objects X objs w1 f1 = (Inr w', g)" by (auto simp: bindS_Inr_iff)
  from w1 have "fs_append (writer_path w) d f = (Inr (), f1)" "writer_path w1 = writer_path w"
    by (auto simp: writer_write_object_def bindS_Inr_iff)
  then show ?case using only_files_append "2.IH" [OF rest] only_files_trans by metis
qed simp

lemma durable_individual:
  assumes d: "durable s f" and inv: "store_inv s" and new: "\<not> contains s h" and name: "hash_name h"
    and run: "write_individual_object h b (s, f) = (Inr (), (t, g))"
  shows "durable t g"
proof -
  have w: "fs_write (objects_dir s @ [h]) b f = (Inr (), g)"
    and t: "t = s\<lparr>total_bytes := total_bytes s + of_nat (length b),
         object_index := put h (Individual (objects_dir s @ [h])) (object_index s)\<rparr>"
    using run by (auto simp: write_individual_object_def Let_def on_fs_Inr hash_nameD(6) [OF name] modify_def)
  note n = fs_node_write [OF w]
  have "is_file g (objects_dir s @ [h])" "\<not> is_dir g (objects_dir s @ [h])" by (simp_all add: is_file_def is_dir_def n)
  then have at: "loose_at t g h = Some (Individual (objects_dir s @ [h]))"
    by (simp add: loose_at_def t hash_nameD(4,5) [OF name])
  show ?thesis
    by (rule durable_add [OF d inv new name t at]) (use n is_dir_write [OF w] fs_write_frame [OF w] in auto)
qed

lemma durable_sharded:
  assumes d: "durable s f" and inv: "store_inv s" and new: "\<not> contains s h" and name: "hash_name h"
    and laws: "rs_laws X" "hash_laws X"
    and run: "write_sharded_object X h b (s, f) = (Inr (), (t, g))"
  shows "durable t g"
proof -
  let ?dir = "objects_dir s @ [h]"
  from write_sharded_steps [OF run hash_nameD(1) [OF name]] obtain enc g1 g2 n where
    enc: "encode X b = Inr enc" and 1: "create_dir_all ?dir f = (Inr (), g1)" and
    2: "write_shards ?dir 0 (data_shards enc) g1 = (Inr (), g2)" and
    3: "fs_write (parity_dir s @ [h]) (parity_body X enc) g2 = (Inr (), g)" and
    t: "t = s\<lparr>total_bytes := n, object_index := put h (Sharded ?dir (of_nat (original_size enc))) (object_index s)\<rparr>" .
  note c = create_dir_all_frame [OF 1] and s2 = only_files_shards [OF 2, unfolded only_files_def] and s3 = only_files_write [OF 3, unfolded only_files_def]
  have n1: "fs_node g1 q = fs_node f q" if "q \<noteq> ?dir" for q
  proof (cases "below q ?dir")
    case True
    then have q: "q = take (length q) ?dir" by (simp add: below_def)
    then have "length q \<le> length ?dir" by (metis length_take min.cobounded2 min.commute)
    then have "length q \<le> length (objects_dir s)" using q that by (cases "length q = length ?dir") auto
    then have "q = take (length q) (objects_dir s)" using q by simp
    then have "is_dir f q" using durableD(1) [OF d] unfolding all_dirs_def by metis
    then show ?thesis using c by (metis is_dir_def)
  qed (use create_dir_all_node [OF 1] in blast)
  have eq: "fs_node g q = fs_node f q" if "\<And>t. q \<noteq> objects_dir s @ h # t" "q \<noteq> parity_dir s @ [h]" for q
    using that(1) [of "[]"] that(1) [of "[shard_name _]"] that(2) n1 [of q] s2 s3 by auto
  have "b \<noteq> []" using enc by (auto simp: encode_def div_ceil_def)
  from encode_shards [OF laws(1) this] enc have ds: "length (data_shards enc) = 8" "length (parity_shards enc) = 2"
    by (auto simp: shards_ok_def)
  have "length (concat (map (blake3 X) (data_shards enc @ parity_shards enc))) = 320"
    using laws(2) ds by (simp add: length_concat hash_laws_def comp_def sum_list_triv del: map_append)
  then have len: "PARITY_HEADER_LEN \<le> length (parity_body X enc)"
    by (simp add: parity_body_def PARITY_HEADER_LEN_def)
  have "fs_read g (parity_dir s @ [h]) = Inr (parity_body X enc)" by (simp add: fs_read_write [OF 3])
  then have "\<exists>sz. read_parity_header g (parity_dir s @ [h]) = Inr (of_nat (original_size enc), sz)"
    using len by (simp add: read_parity_header_def) (simp add: parity_body_def codec_simps)
  moreover have "is_dir g ?dir" using create_dir_all_dir [OF 1] s2 s3 by simp
  ultimately have at: "loose_at t g h = Some (Sharded ?dir (of_nat (original_size enc)))"
    by (auto simp: loose_at_def t hash_nameD [OF name])
  show ?thesis
    by (rule durable_add [OF d inv new name t at eq]) (use c s2 s3 in auto)
qed

text \<open>The stages of a seal, and what it leaves on disk.\<close>

lemma seal_stages:
  assumes inv: "store_inv s"
    and run: "seal_packfile X (individuals f (object_index s)) (s, f) = (Inr (), (t, g))"
  obtains f1 w w' f2 f2' f3 ds where
    "PackfileWriter_new (packfile_dir s) (pack_name (next_pack_id s)) (max_packfile_size_mb s) f = (Inr w, f1)"
    "fs_write (pack_path s) [] f = (Inr (), f1)" "writer_path w = pack_path s"
    "pack_objects X (individuals f (object_index s)) w f1 = (Inr w', f2)"
    "fs_append (writer_path w') (u32_to_le (crc w')) f2 = (Inr (), f2')"
    "writer_path w' = pack_path s" "writer_index w' = entries_of 0 (loose_names s f) ds"
    "child (packfile_dir s) (writer_pack_id w' @ ''.idx'') = idx_path s"
    "fs_write (idx_path s) (bytes_of (concat (map idx_line (entries_of 0 (loose_names s f) ds)))) f2' = (Inr (), f3)"
    "list_all2 (\<lambda>h d. fs_read f (objects_dir s @ [h]) = Inr d) (loose_names s f) ds"
    "fs_read f2' (pack_path s) = Inr (concat ds @ u32_to_le (crc w'))"
    "t = s\<lparr>next_pack_id := next_pack_id s + 1, object_index :=
        fold (add_entry (pack_name (next_pack_id s))) (entries_of 0 (loose_names s f) ds) (object_index s)\<rparr>"
    "g = remove_loose (individuals f (object_index s)) f3"
proof -
  let ?objs = "individuals f (object_index s)" and ?P = "pack_path s" and ?I = "idx_path s"
  obtain root where root: "objects_dir s = root @ [''objects'']" "packfile_dir s = root @ [''packfiles'']"
    using store_invD(1) [OF inv] by (auto simp: layout_def)
  from run obtain f1 w w' f2 f2' f3 where
    1: "fs_write ?P [] f = (Inr (), f1)" and
    w: "w = \<lparr>writer_pack_id = pack_name (next_pack_id s), writer_path = ?P, bytes_written = 0,
          writer_max_size = max_packfile_size_mb s * 1024 * 1024, writer_index = [], crc = 0\<rparr>" and
    2: "pack_objects X ?objs w f1 = (Inr w', f2)" and
    3: "fs_append (writer_path w') (u32_to_le (crc w')) f2 = (Inr (), f2')" and
    4: "fs_write (child (packfile_dir s) (writer_pack_id w' @ ''.idx''))
       (bytes_of (concat (map idx_line (writer_index w')))) f2' = (Inr (), f3)" and
    t: "t = add_entries (pack_name (next_pack_id s)) (writer_index w') (s\<lparr>next_pack_id := next_pack_id s + 1\<rparr>)" and
    g: "g = remove_loose ?objs f3"
    unfolding pack_path_def by (rule seal_packfile_steps)
  have new: "PackfileWriter_new (packfile_dir s) (pack_name (next_pack_id s)) (max_packfile_size_mb s) f = (Inr w, f1)"
    using 1 by (simp add: PackfileWriter_new_def Let_def bindS_def returnS_def pack_path_def w)
  have paths: "(h, p, n) \<in> set ?objs \<Longrightarrow> p = objects_dir s @ [h]" for h p n by (rule individuals_of(1) [OF inv])
  have apart: "objects_dir s @ [h] \<noteq> ?P" for h by (simp add: pack_path_def root)
  have "fs_read f1 (writer_path w) = Inr []" "bytes_written w = of_nat (length ([] :: bytes))"
    by (simp_all add: w fs_read_write [OF 1])
  moreover have "p \<noteq> writer_path w" if "(h, p, n) \<in> set ?objs" for h p n
    using paths [OF that] apart by (simp add: w)
  ultimately obtain ds where
    ds: "list_all2 (\<lambda>(h, p, n) d. fs_read f1 p = Inr d) ?objs ds" "fs_read f2 ?P = Inr (concat ds)"
    "writer_index w' = entries_of 0 (loose_names s f) ds" "writer_path w' = ?P" "writer_pack_id w' = pack_name (next_pack_id s)"
    using pack_objects_result [OF 2, of "[]"] by (auto simp: w loose_names_def)
  have "fs_read f1 (objects_dir s @ [h]) = fs_read f (objects_dir s @ [h])" for h
    using fs_read_write [OF 1] apart by simp
  then have "list_all2 (\<lambda>x d. fs_read f (objects_dir s @ [fst x]) = Inr d) ?objs ds"
    by (intro list.rel_mono_strong [OF ds(1)]) (use paths in fastforce)
  then have r: "list_all2 (\<lambda>h d. fs_read f (objects_dir s @ [h]) = Inr d) (loose_names s f) ds"
    by (simp add: loose_names_def list_all2_map1)
  have i: "child (packfile_dir s) (writer_pack_id w' @ ''.idx'') = ?I" by (simp add: ds(5) idx_path_def)
  have P: "fs_read f2' ?P = Inr (concat ds @ u32_to_le (crc w'))"
    by (rule fs_read_append [OF 3]) (use ds(2,4) in simp)
  have t': "t = s\<lparr>next_pack_id := next_pack_id s + 1, object_index :=
        fold (add_entry (pack_name (next_pack_id s))) (entries_of 0 (loose_names s f) ds) (object_index s)\<rparr>"
    by (simp add: t add_entries_def ds(3) add_entry_def [abs_def])
  show ?thesis
    by (rule that [OF new 1 _ 2 3 ds(4,3) i _ r P t' g]) (use 4 in \<open>simp_all add: w i ds(3)\<close>)
qed

lemma seal_on_disk:
  assumes inv: "store_inv s"
    and run: "seal_packfile X (individuals f (object_index s)) (s, f) = (Inr (), (t, g))"
  obtains ds where "length ds = length (loose_names s f)"
    "t = s\<lparr>next_pack_id := next_pack_id s + 1, object_index :=
        fold (add_entry (pack_name (next_pack_id s))) (entries_of 0 (loose_names s f) ds) (object_index s)\<rparr>"
    "only_files ({pack_path s, idx_path s} \<union> (\<lambda>h. objects_dir s @ [h]) ` set (loose_names s f)) f g"
    "fs_read g (idx_path s) = Inr (bytes_of (concat (map idx_line (entries_of 0 (loose_names s f) ds))))"
    "fs_exists g (pack_path s)"
proof -
  let ?objs = "individuals f (object_index s)" and ?P = "pack_path s" and ?I = "idx_path s"
  let ?L = "(\<lambda>h. objects_dir s @ [h]) ` set (loose_names s f)"
  obtain root where root: "objects_dir s = root @ [''objects'']" "packfile_dir s = root @ [''packfiles'']"
    using store_invD(1) [OF inv] by (auto simp: layout_def)
  obtain f1 w w' f2 f2' f3 ds where 1: "fs_write ?P [] f = (Inr (), f1)" and w: "writer_path w = ?P" and
    2: "pack_objects X ?objs w f1 = (Inr w', f2)" and
    3: "fs_append (writer_path w') (u32_to_le (crc w')) f2 = (Inr (), f2')" and w': "writer_path w' = ?P" and
    4: "fs_write ?I (bytes_of (concat (map idx_line (entries_of 0 (loose_names s f) ds)))) f2' = (Inr (), f3)" and
    r: "list_all2 (\<lambda>h d. fs_read f (objects_dir s @ [h]) = Inr d) (loose_names s f) ds" and
    P: "fs_read f2' ?P = Inr (concat ds @ u32_to_le (crc w'))" and
    t: "t = s\<lparr>next_pack_id := next_pack_id s + 1, object_index :=
        fold (add_entry (pack_name (next_pack_id s))) (entries_of 0 (loose_names s f) ds) (object_index s)\<rparr>" and
    g: "g = remove_loose ?objs f3"
    by (rule seal_stages [OF inv run])
  have L: "(\<lambda>(h, p, n). p) ` set ?objs = ?L"
    using individuals_of(1) [OF inv] by (force simp: loose_names_def image_image)
  have apart: "?P \<notin> ?L" "?I \<notin> ?L" "?P \<noteq> ?I" by (auto simp: pack_path_def idx_path_def root)
  have o1: "only_files {?P} f f2'"
    using only_files_write [OF 1] only_files_pack [OF 2] only_files_append [OF 3]
    by (simp add: w w') (metis only_files_trans)
  have o3: "only_files {?P, ?I} f f3"
    by (rule only_files_trans [OF only_files_mono [OF o1] only_files_mono [OF only_files_write [OF 4]]]) auto
  have o4: "only_files ?L f3 g" unfolding g L [symmetric] by (rule only_files_loose)
  have oo: "only_files ({?P, ?I} \<union> ?L) f g"
    by (rule only_files_trans [OF only_files_mono [OF o3] only_files_mono [OF o4]]) auto
  have ri: "fs_read g ?I = Inr (bytes_of (concat (map idx_line (entries_of 0 (loose_names s f) ds))))"
  proof -
    have "fs_read g ?I = fs_read f3 ?I" by (rule fs_read_same) (use o4 apart(2) in \<open>simp_all add: only_files_def\<close>)
    then show ?thesis by (simp add: fs_read_write [OF 4])
  qed
  have "fs_exists f2' ?P" using fs_read_InrD [OF P] by (simp add: fs_exists_def)
  then have "fs_exists g ?P"
    using o4 apart only_files_write [OF 4] by (simp add: only_files_def fs_exists_def)
  moreover have "length ds = length (loose_names s f)" using list_all2_lengthD [OF r] by simp
  ultimately show ?thesis using that t oo ri by blast
qed

lemma entries_hashes: "length hs = length ds \<Longrightarrow> entry_hash ` set (entries_of off hs ds) = set hs"
  by (induction off hs ds rule: entries_of.induct) auto

lemma entries_located:
  "distinct hs \<Longrightarrow> length hs = length ds \<Longrightarrow> e \<in> set (entries_of off hs ds) \<Longrightarrow>
   map_of (fold (add_entry (pack_name k)) (entries_of off hs ds) idx) (entry_hash e) = Some (entry_loc k e)"
proof (induction off hs ds arbitrary: idx rule: entries_of.induct)
  case (1 off h hs d ds)
  show ?case
  proof (cases "e \<in> set (entries_of (off + length d) hs ds)")
    case False
    with 1 show ?thesis by (simp add: fold_entries_other) (simp add: add_entry_def entry_loc_def)
  qed (use 1 in simp)
qed simp_all

text \<open>A pack on disk whose index file lists some of the loose objects, of which some are gone.\<close>

text \<open>A change of the next packfile, its index file and some loose files leaves the rest of the store.\<close>

lemma packed_files:
  assumes lay: "layout s" and oo: "only_files ({pack_path s, idx_path s} \<union> (\<lambda>h. objects_dir s @ [h]) ` H) f g"
  shows "h \<notin> H \<Longrightarrow> fs_node g (objects_dir s @ [h]) = fs_node f (objects_dir s @ [h])"
    and "m \<noteq> pack_name (next_pack_id s) @ ''.pack'' \<Longrightarrow> m \<noteq> pack_name (next_pack_id s) @ ''.idx'' \<Longrightarrow>
      fs_node g (packfile_dir s @ [m]) = fs_node f (packfile_dir s @ [m])"
    and "h \<notin> H \<Longrightarrow> plain h \<Longrightarrow> loose_at s g h = loose_at s f h"
    and "pack_lists s f j es \<Longrightarrow> packfile_dir t = packfile_dir s \<Longrightarrow> j < next_pack_id t \<Longrightarrow> pack_lists t g j es"
proof -
  obtain root where root: "objects_dir s = root @ [''objects'']" "packfile_dir s = root @ [''packfiles'']"
      "parity_dir s = root @ [''packfiles'', ''parity'']"
    using lay by (auto simp: layout_def)
  have faulty: "faulty g = faulty f" using oo by (simp add: only_files_def)
  have node: "fs_node g q = fs_node f q" if "q \<noteq> pack_path s" "q \<noteq> idx_path s" "\<And>h. h \<in> H \<Longrightarrow> q \<noteq> objects_dir s @ [h]" for q
    using oo that unfolding only_files_def by blast
  show n: "fs_node g (objects_dir s @ [h]) = fs_node f (objects_dir s @ [h])" if "h \<notin> H" for h
    by (rule node) (use that in \<open>auto simp: pack_path_def idx_path_def root\<close>)
  show p: "fs_node g (packfile_dir s @ [m]) = fs_node f (packfile_dir s @ [m])"
    if "m \<noteq> pack_name (next_pack_id s) @ ''.pack''" "m \<noteq> pack_name (next_pack_id s) @ ''.idx''" for m
    by (rule node) (use that in \<open>auto simp: pack_path_def idx_path_def root\<close>)
  have "fs_node g (parity_dir s @ [h]) = fs_node f (parity_dir s @ [h])" for h
    by (rule node) (auto simp: pack_path_def idx_path_def root)
  then have par: "read_parity_header g (parity_dir s @ [h]) = read_parity_header f (parity_dir s @ [h])" for h
    using fs_read_same [OF _ faulty] by (simp add: read_parity_header_def)
  show "loose_at s g h = loose_at s f h" if "h \<notin> H" "plain h"
  proof -
    have "child (parity_dir s) h = parity_dir s @ [h]" using that by (simp add: child_plain)
    with n [OF that(1)] par [of h] show ?thesis by (simp add: loose_at_def Let_def is_dir_def is_file_def)
  qed
  show "pack_lists t g j es" if l: "pack_lists s f j es" and t: "packfile_dir t = packfile_dir s" "j < next_pack_id t"
  proof -
    have j: "j \<noteq> next_pack_id s" using l by (auto simp: pack_lists_def)
    show ?thesis
      by (rule pack_lists_change [OF l t])
        (use j p fs_read_same [OF p faulty] in \<open>simp_all add: t(1) pack_name_inj fs_exists_def\<close>)
  qed
qed

lemma durable_packed:
  assumes d: "durable s f" and inv: "store_inv s" and room: "next_pack_id s \<noteq> - 1"
    and t: "t = s\<lparr>next_pack_id := next_pack_id s + 1, object_index := idx\<rparr>"
    and at': "\<And>e. e \<in> set es \<Longrightarrow> map_of idx (entry_hash e) = Some (entry_loc (next_pack_id s) e)"
    and old': "\<And>h. h \<notin> entry_hash ` set es \<Longrightarrow> map_of idx h = map_of (object_index s) h"
    and sub: "entry_hash ` set es \<subseteq> set (loose_names s f)"
    and oo: "only_files ({pack_path s, idx_path s} \<union> (\<lambda>h. objects_dir s @ [h]) ` (entry_hash ` set es)) f g"
    and ri: "fs_read g (idx_path s) = Inr (bytes_of (concat (map idx_line es)))" and rp: "fs_exists g (pack_path s)"
  shows "durable t g"
proof -
  let ?k = "next_pack_id s" and ?hs = "entry_hash ` set es"
  have lay: "layout s" by (rule store_invD(1) [OF inv])
  note n = packed_files(1) [OF lay oo] and p = packed_files(2) [OF lay oo] and lo = packed_files(3) [OF lay oo]
  have faulty: "faulty g = faulty f" and dirs: "is_dir g q = is_dir f q" for q using oo by (simp_all add: only_files_def)
  have loose: "map_of (object_index s) h = Some (Individual (objects_dir s @ [h]))" if "h \<in> ?hs" for h
    using subsetD [OF sub that] loose_names_iff [OF inv] by blast
  have at: "map_of (object_index t) (entry_hash e) = Some (entry_loc ?k e)" if "e \<in> set es" for e
    using at' [OF that] by (simp add: t)
  have old: "map_of (object_index t) h = map_of (object_index s) h" if "h \<notin> ?hs" for h
    using old' [OF that] by (simp add: t)
  have k1: "j < ?k + 1" if "j \<le> ?k" for j by (rule next_pack_less [OF room that])
  have hn: "hash_name h" if "h \<in> ?hs" for h by (rule durableD(5) [OF d loose [OF that]])
  have es: "pack_lists t g ?k es"
    using ri rp k1 [of ?k] hn by (auto simp: pack_lists_def t idx_path_def pack_path_def list_all_iff)
  have la: "loose_at t = loose_at s" by (rule loose_at_dirs) (simp_all add: t)
  have pl: "pack_lists t g j es'" if l: "pack_lists s f j es'" for j es'
  proof -
    have "j < ?k" using l by (simp add: pack_lists_def)
    then have "j < next_pack_id t" using k1 [of j] by (auto simp: t)
    then show ?thesis by (intro packed_files(4) [OF lay oo l]) (simp_all add: t)
  qed
  show ?thesis
  proof (rule durable_change [OF d _ _ faulty])
    show "plain m \<and> (loose_at t g m \<noteq> None \<longrightarrow> contains t m)" if "fs_exists g (objects_dir s @ [m])" for m
    proof (cases "m \<in> ?hs")
      case True
      then obtain e where "e \<in> set es" "entry_hash e = m" by blast
      with at hn [OF True] show ?thesis by (auto simp: contains_def hash_nameD)
    next
      case False
      then have "fs_exists f (objects_dir s @ [m])" using that n by (simp add: fs_exists_def)
      from durableD(7,8) [OF d this] show ?thesis using lo [OF False] old [OF False] by (auto simp: la contains_def)
    qed
    show "hash_name h \<and> kept_at t g h loc" if h: "map_of (object_index t) h = Some loc" for h loc
    proof (cases "h \<in> ?hs")
      case True
      then obtain e where "e \<in> set es" "entry_hash e = h" by blast
      with at h have e: "e \<in> set es" "entry_hash e = h" "entry_loc ?k e = loc" by auto
      then have "kept_at t g h loc" using es unfolding kept_at_def entry_loc_def by (cases loc) auto
      with hn [OF True] show ?thesis by blast
    next
      case False
      then have x: "map_of (object_index s) h = Some loc" using h old by simp
      note hx = durableD(5) [OF d x]
      have "loose_at t g h = loose_at s f h" using lo [OF False hash_nameD(1) [OF hx]] by (simp add: la)
      then have "kept_at t g h loc" by (intro kept_at_mono [OF durableD(6) [OF d x] pl]) simp_all
      with hx show ?thesis by blast
    qed
    show "\<exists>j es'. m = pack_name j @ ''.idx'' \<and> pack_lists t g j es' \<and>
        (\<forall>e \<in> set es'. map_of (object_index t) (entry_hash e) = Some (entry_loc j e))"
      if ex: "fs_exists g (packfile_dir s @ [m])" and nm: "ends_with ''.idx'' (entry_name m)" for m
    proof (cases "m = pack_name ?k @ ''.idx''")
      case True
      with es at show ?thesis by blast
    next
      case False
      have "m \<noteq> pack_name ?k @ ''.pack''"
      proof
        assume m: "m = pack_name ?k @ ''.pack''"
        have "entry_name m \<noteq> []" using nm by (auto simp: ends_with_def)
        then have "entry_name m = m" by (rule entry_name_id)
        with nm show False by (simp add: m ends_with_def)
      qed
      then have "fs_exists f (packfile_dir s @ [m])" using ex p False by (simp add: fs_exists_def)
      from durableD(9) [OF d this nm] obtain j es' where j: "m = pack_name j @ ''.idx''" "pack_lists s f j es'"
        "\<forall>e \<in> set es'. map_of (object_index s) (entry_hash e) = Some (entry_loc j e)" by blast
      have "map_of (object_index t) (entry_hash e) = Some (entry_loc j e)" if "e \<in> set es'" for e
      proof -
        have "entry_hash e \<notin> ?hs" using j(3) that loose [of "entry_hash e"] by (auto simp: entry_loc_def)
        then show ?thesis using old j(3) that by simp
      qed
      with j pl show ?thesis by blast
    qed
  qed (simp_all add: same_frame_def t dirs)
qed

lemma durable_seal:
  assumes d: "durable s f" and inv: "store_inv s" and room: "next_pack_id s \<noteq> - 1"
    and run: "seal_packfile X (individuals f (object_index s)) (s, f) = (Inr (), (t, g))"
  shows "durable t g"
proof -
  let ?k = "next_pack_id s" and ?hs = "loose_names s f"
  obtain ds where len: "length ds = length ?hs" and
    t: "t = s\<lparr>next_pack_id := ?k + 1, object_index :=
        fold (add_entry (pack_name ?k)) (entries_of 0 ?hs ds) (object_index s)\<rparr>" and
    oo: "only_files ({pack_path s, idx_path s} \<union> (\<lambda>h. objects_dir s @ [h]) ` set ?hs) f g" and
    ri: "fs_read g (idx_path s) = Inr (bytes_of (concat (map idx_line (entries_of 0 ?hs ds))))" and
    rp: "fs_exists g (pack_path s)" by (rule seal_on_disk [OF inv run])
  have dist: "distinct ?hs" unfolding loose_names_def by (rule individuals_names) (rule store_invD [OF inv])
  have names: "entry_hash ` set (entries_of 0 ?hs ds) = set ?hs" by (rule entries_hashes) (simp add: len)
  show ?thesis
    by (rule durable_packed [OF d inv room t _ _ _ _ ri rp])
      (use entries_located [OF dist len [symmetric]] oo in \<open>simp_all add: names fold_entries_other\<close>)
qed

text \<open>A write keeps the store durable.\<close>

lemma durable_write:
  assumes d: "durable s f" and inv: "store_inv s" and room: "room (s, f) h b" and name: "hash_name h"
    and laws: "rs_laws X" "hash_laws X" and run: "write_object X h b raw (s, f) = (Inr (), (t, g))"
  shows "durable t g"
proof (cases "contains s h")
  case True
  then show ?thesis using write_object_dup [OF True, of X b raw f] run d by auto
next
  case False
  obtain s1 f1 where w: "(if erasure_enabled s then write_sharded_object X h b
       else write_individual_object h b) (s, f) = (Inr (), (s1, f1))"
    and seal: "maybe_seal_packfiles X (s1\<lparr>total_raw_bytes := total_raw_bytes s1 + raw\<rparr>, f1) = (Inr (), (t, g))"
    using run False by (auto simp: write_object_def bindS_Inr_iff [of "if _ then _ else _"])
  have r: "plain h" "loose_bytes s f + length b < 2 ^ 64" "next_pack_id s \<noteq> - 1" using room by (simp_all add: room_def)
  have "durable s1 f1 \<and> store_inv s1 \<and> next_pack_id s1 \<noteq> - 1"
  proof (cases "erasure_enabled s")
    case True
    then have w': "write_sharded_object X h b (s, f) = (Inr (), (s1, f1))" using w by simp
    have b: "length b < 2 ^ 64" using r(2) by linarith
    obtain n where st: "stored s f s1 f1 h (Sharded (objects_dir s @ [h]) n) b"
      using stored_sharded [OF laws(1) w' r(1) store_invD(1) [OF inv] b] by blast
    show ?thesis using durable_sharded [OF d inv False name laws w'] stored_result(1) [OF inv False st] st r(3)
      by (auto simp: stored_def)
  next
    case False
    then have w': "write_individual_object h b (s, f) = (Inr (), (s1, f1))" using w by simp
    note st = stored_individual(1) [OF w' r(1)]
    show ?thesis using durable_individual [OF d inv \<open>\<not> contains s h\<close> name w'] stored_result(1) [OF inv \<open>\<not> contains s h\<close> st] st r(3)
      by (auto simp: stored_def)
  qed
  then show ?thesis
    using seal durable_seal [of "s1\<lparr>total_raw_bytes := total_raw_bytes s1 + raw\<rparr>" f1 X t g]
    by (auto simp: maybe_seal_packfiles_def Let_def split: if_splits)
qed

text \<open>No write takes a directory away.\<close>

definition grows :: "fs \<Rightarrow> fs \<Rightarrow> bool" where
  "grows f g = (faulty g = faulty f \<and> (\<forall>q. is_dir f q \<longrightarrow> is_dir g q))"

lemma grows_refl [simp]: "grows f f"
  by (simp add: grows_def)

lemma grows_trans: "grows f g \<Longrightarrow> grows g h \<Longrightarrow> grows f h"
  by (simp add: grows_def)

lemma only_files_grows: "only_files P f g \<Longrightarrow> grows f g"
  by (simp add: only_files_def grows_def)

lemma create_dir_all_grows: "create_dir_all p f = (r, g) \<Longrightarrow> grows f g"
  using create_dir_all_frame [of p f r g] by (simp add: grows_def)

lemma fs_write_grows: "fs_write p b f = (Inr (), g) \<Longrightarrow> grows f g"
  by (rule only_files_grows [OF only_files_write])

lemma grows_all_dirs: "grows f g \<Longrightarrow> all_dirs f p \<Longrightarrow> all_dirs g p"
  by (simp add: grows_def all_dirs_def)

lemma seal_grows: "seal_packfile X objs (s, f) = (Inr (), (t, g)) \<Longrightarrow> grows f g"
proof -
  assume "seal_packfile X objs (s, f) = (Inr (), (t, g))"
  then obtain p f1 w w' f2 b f2' i c f3 where 1: "fs_write p [] f = (Inr (), f1)" and 2: "pack_objects X objs w f1 = (Inr w', f2)"
    and 3: "fs_append (writer_path w') b f2 = (Inr (), f2')" and 4: "fs_write i c f2' = (Inr (), f3)" and g: "g = remove_loose objs f3"
    by (rule seal_packfile_steps) blast
  note steps = fs_write_grows [OF 1] only_files_grows [OF only_files_pack [OF 2]] only_files_grows [OF only_files_append [OF 3]]
    fs_write_grows [OF 4] only_files_grows [OF only_files_loose [of objs f3]]
  show "grows f g" unfolding g by (rule grows_trans [OF steps(1) grows_trans [OF steps(2) grows_trans [OF steps(3) grows_trans [OF steps(4,5)]]]])
qed

lemma write_object_grows:
  assumes run: "write_object X h b raw (s, f) = (Inr (), (t, g))" and plain: "plain h"
  shows "grows f g"
proof (cases "contains s h")
  case True
  then show ?thesis using write_object_dup [OF True, of X b raw f] run by simp
next
  case False
  obtain s1 f1 where w: "(if erasure_enabled s then write_sharded_object X h b
       else write_individual_object h b) (s, f) = (Inr (), (s1, f1))"
    and seal: "maybe_seal_packfiles X (s1\<lparr>total_raw_bytes := total_raw_bytes s1 + raw\<rparr>, f1) = (Inr (), (t, g))"
    using run False by (auto simp: write_object_def bindS_Inr_iff [of "if _ then _ else _"])
  have "grows f f1"
  proof (cases "erasure_enabled s")
    case True
    then have "write_sharded_object X h b (s, f) = (Inr (), (s1, f1))" using w by simp
    from write_sharded_steps [OF this plain] obtain enc g1 g2 where 1: "create_dir_all (objects_dir s @ [h]) f = (Inr (), g1)"
      "write_shards (objects_dir s @ [h]) 0 (data_shards enc) g1 = (Inr (), g2)"
      "fs_write (parity_dir s @ [h]) (parity_body X enc) g2 = (Inr (), f1)" by metis
    show ?thesis
      by (rule grows_trans [OF create_dir_all_grows [OF 1(1)] grows_trans [OF only_files_grows [OF only_files_shards [OF 1(2)]] fs_write_grows [OF 1(3)]]])
  next
    case False
    then have "fs_write (objects_dir s @ [h]) b f = (Inr (), f1)"
      using w by (auto simp: write_individual_object_def Let_def on_fs_Inr child_plain [OF plain] modify_def)
    then show ?thesis by (rule fs_write_grows)
  qed
  moreover have "grows f1 g"
    using seal seal_grows by (auto simp: maybe_seal_packfiles_def Let_def split: if_splits)
  ultimately show ?thesis by (rule grows_trans)
qed

section \<open>Opening the directory\<close>

lemma create_dir_all_there: "all_dirs f p \<Longrightarrow> create_dir_all p f = (Inr (), f)"
proof -
  have "mkdirs p cs f = (Inr (), f)" if "\<And>k. is_dir f (p @ take k cs)" for p cs
    using that
  proof (induction cs arbitrary: p)
    case (Cons c cs)
    have "is_dir f (p @ [c])" using Cons.prems [of 1] by simp
    moreover have "is_dir f ((p @ [c]) @ take k cs)" for k using Cons.prems [of "Suc k"] by simp
    then have "mkdirs (p @ [c]) cs f = (Inr (), f)" by (rule Cons.IH)
    ultimately show ?case by (simp add: is_dir_def)
  qed simp
  then show "all_dirs f p \<Longrightarrow> create_dir_all p f = (Inr (), f)" by (simp add: create_dir_all_def all_dirs_def)
qed

lemma store_names:
  "child root ''objects'' = root @ [''objects'']" "child root ''packfiles'' = root @ [''packfiles'']"
  "child root ''parity'' = root @ [''parity'']"
  by (simp_all add: child_plain plain_def)

text \<open>A new process finds the store of the process before it: the same objects at the same places.\<close>

lemma reopen_durable:
  assumes d: "durable s f" and inv: "store_inv s" and root: "objects_dir s = root @ [''objects'']"
  obtains t where "ObjectStore_new root ec mb f = (Inr t, f)" "same_objects s t" "store_inv t" "durable t f"
proof -
  have dirs: "packfile_dir s = root @ [''packfiles'']" "parity_dir s = root @ [''packfiles'', ''parity'']"
    using store_invD(1) [OF inv] root by (auto simp: layout_def)
  let ?t = "\<lparr>objects_dir = objects_dir s, packfile_dir = packfile_dir s, parity_dir = parity_dir s,
        erasure_enabled = ec, max_packfile_size_mb = mb, object_index = [], next_pack_id = 1,
        total_bytes = 0, total_raw_bytes = 0\<rparr>"
  have "blank s ?t" by (simp add: blank_def same_frame_def)
  from load_index_durable [OF d inv this] obtain t where
    t: "load_index f ?t = Inr t" "same_objects s t" "store_inv t" "\<And>k es. pack_lists s f k es \<Longrightarrow> k < next_pack_id t" by blast
  have c: "create_dir_all (objects_dir s) f = (Inr (), f)" "create_dir_all (packfile_dir s) f = (Inr (), f)"
    "create_dir_all (parity_dir s) f = (Inr (), f)"
    using durableD(1,2) [OF d] durable_packdir [OF store_invD(1) [OF inv] d] by (simp_all add: create_dir_all_there)
  have "ObjectStore_new root ec mb f = (Inr t, f)"
    using c t(1) by (simp add: ObjectStore_new_def Let_def store_names bindS_def readS_def dirs root)
  moreover have "durable t f" by (rule durable_same [OF d t(2,4)])
  ultimately show ?thesis using t(2,3) that by blast
qed

end
