(* ===== verification/Backup_Correct.thy ===== *)
theory Backup_Correct
  imports Maintenance Durability
begin

text \<open>
  What a backup achieves: every file that a file task has read is in the index with a list of
  chunks, and reading those chunks from the object store gives the file back.  The proof follows
  the code: one chunk (\<open>record_chunk\<close>), the chunks of one file (\<open>backup_file\<close>), the files of a
  run (\<open>run_tasks\<close>), and the whole of \<open>run_backup\<close> with its commit.

  The invariant \<open>engine_inv\<close> ties the two halves of the state together: each object in the store
  has the content its name stands for, and each chunk the index knows is in the store.
\<close>

section \<open>One chunk\<close>

text \<open>The two halves of the engine's data agree.\<close>

definition data_inv :: "'db index_libs \<Rightarrow> (string \<Rightarrow> bytes) \<Rightarrow> 'db \<Rightarrow> object_store \<Rightarrow> fs \<Rightarrow> bool" where
  "data_inv L content db s f =
     (index_ok L db \<and> faithful content s f \<and> (\<forall>h. st_known (abs_index L db) h \<longrightarrow> contains s h))"

text \<open>The chunk can be stored: it is known already, or there is room and the write succeeds.\<close>

definition chunk_fits :: "libs \<Rightarrow> 'db index_libs \<Rightarrow> 'db chunk_ctx \<Rightarrow> chunk \<Rightarrow> bool" where
  "chunk_fits X L cx ck =
     (chunk_exists L (ck_hash ck) (cx_db cx) = Inr True \<or>
      room (cx_store cx, cx_disk cx) (ck_hash ck) (ck_data ck) \<and>
      fst (write_object X (ck_hash ck) (ck_data ck) (of_nat (ck_size ck)) (cx_store cx, cx_disk cx)) = Inr ())"

text \<open>What processing the chunks with the hashes \<open>hs\<close> does.\<close>

definition ctx_step :: "libs \<Rightarrow> 'db index_libs \<Rightarrow> (string \<Rightarrow> bytes) \<Rightarrow> string list \<Rightarrow> 'db chunk_ctx \<Rightarrow> 'db chunk_ctx \<Rightarrow> bool" where
  "ctx_step X L content hs cx cx' =
     (data_inv L content (cx_db cx') (cx_store cx') (cx_disk cx') \<and>
      cx_hashes cx' = cx_hashes cx @ hs \<and>
      (\<forall>h. contains (cx_store cx') h \<longleftrightarrow> contains (cx_store cx) h \<or> h \<in> set hs) \<and>
      st_refs (abs_index L (cx_db cx')) = (\<lambda>h. st_refs (abs_index L (cx_db cx)) h + of_nat (count_list hs h)) \<and>
      st_files (abs_index L (cx_db cx')) = st_files (abs_index L (cx_db cx)) \<and>
      st_snaps (abs_index L (cx_db cx')) = st_snaps (abs_index L (cx_db cx)) \<and>
      cx_deduped cx' + cx_new cx' = cx_deduped cx + cx_new cx + of_nat (length hs) \<and>
      (\<forall>q. outside (cx_store cx) q \<longrightarrow> fs_read (cx_disk cx') q = fs_read (cx_disk cx) q) \<and>
      objects_dir (cx_store cx') = objects_dir (cx_store cx) \<and>
      packfile_dir (cx_store cx') = packfile_dir (cx_store cx))"

lemma record_known:
  assumes "data_inv L content (cx_db cx) (cx_store cx) (cx_disk cx)"
    and "chunk_exists L (ck_hash ck) (cx_db cx) = Inr True"
  shows "\<exists>cx'. record_chunk X L rel ck cx = (Inr (), cx') \<and> ctx_step X L content [ck_hash ck] cx cx'"
proof -
  have ok: "index_ok L (cx_db cx)" using assms(1) by (simp add: data_inv_def)
  from refinesE [OF increment_ref_refines [OF ok, of "ck_hash ck"]] obtain db' where
    db': "increment_ref L (ck_hash ck) (cx_db cx) = (Inr (), db')" "index_ok L db'"
    "abs_index L db' = bump (ck_hash ck) (abs_index L (cx_db cx))" by metis
  have "st_known (abs_index L (cx_db cx)) (ck_hash ck)"
    using assms(2) chunk_exists_ok [OF ok] by simp
  then have k: "contains (cx_store cx) (ck_hash ck)" using assms(1) by (simp add: data_inv_def)
  have "record_chunk X L rel ck cx = (Inr (), cx\<lparr>cx_hashes := cx_hashes cx @ [ck_hash ck],
      cx_deduped := cx_deduped cx + 1, cx_db := db'\<rparr>)"
    by (simp add: record_chunk_def assms(2) db'(1) Let_def)
  moreover have "ctx_step X L content [ck_hash ck] cx (cx\<lparr>cx_hashes := cx_hashes cx @ [ck_hash ck],
      cx_deduped := cx_deduped cx + 1, cx_db := db'\<rparr>)"
    using assms(1) db'(2,3) k by (auto simp: ctx_step_def data_inv_def bump_def fun_eq_iff)
  ultimately show ?thesis by blast
qed

lemma record_new:
  assumes laws: "rs_laws X" and inv: "data_inv L content (cx_db cx) (cx_store cx) (cx_disk cx)"
    and unknown: "chunk_exists L (ck_hash ck) (cx_db cx) \<noteq> Inr True"
    and fits: "chunk_fits X L cx ck" and content: "content (ck_hash ck) = ck_data ck"
  shows "\<exists>cx'. record_chunk X L rel ck cx = (Inr (), cx') \<and> ctx_step X L content [ck_hash ck] cx cx'"
proof -
  let ?h = "ck_hash ck"
  have ok: "index_ok L (cx_db cx)" and f: "faithful content (cx_store cx) (cx_disk cx)"
    using inv by (simp_all add: data_inv_def)
  have ex: "chunk_exists L ?h (cx_db cx) = Inr False" using unknown chunk_exists_ok [OF ok] by simp
  have room: "room (cx_store cx, cx_disk cx) ?h (content ?h)" using fits unknown content by (simp add: chunk_fits_def)
  obtain s f' where w: "write_object X ?h (content ?h) (of_nat (ck_size ck)) (cx_store cx, cx_disk cx) = (Inr (), (s, f'))"
    using fits unknown content by (metis chunk_fits_def prod.collapse)
  have "object_store.sound X content (cx_store cx, cx_disk cx)"
    unfolding sound_faithful using laws f by blast
  note st = object_store.store_sound [OF this room w]
  from st(1) have sf: "faithful content s f'" unfolding sound_faithful by blast
  from st(2) have c: "contains s = (contains (cx_store cx))(?h := True)" by simp
  note out = write_object_outside [OF laws _ room w]
  from refinesE [OF insert_chunk_refines [OF ok, of ?h rel "of_nat (ck_offset ck)" "of_nat (ck_size ck)"]]
  obtain db' where db': "insert_chunk L ?h rel (of_nat (ck_offset ck)) (of_nat (ck_size ck)) (cx_db cx) = (Inr (), db')"
    "index_ok L db'" "abs_index L db' = bump ?h (abs_index L (cx_db cx))" by metis
  define cx' where "cx' = cx\<lparr>cx_hashes := cx_hashes cx @ [?h], cx_new := cx_new cx + 1, cx_store := s, cx_disk := f',
      cx_transients := cx_transients cx @ [\<lparr>chunk_hash = ?h, object_path = object_path_of ?h\<rparr>], cx_db := db'\<rparr>"
  have "record_chunk X L rel ck cx = (Inr (), cx')"
    using w db'(1) by (simp add: record_chunk_def ex content Let_def cx'_def)
  moreover have "ctx_step X L content [?h] cx cx'"
    unfolding ctx_step_def
  proof (intro conjI)
    show "data_inv L content (cx_db cx') (cx_store cx') (cx_disk cx')"
      using inv db'(2,3) sf c by (auto simp: data_inv_def cx'_def bump_def)
    show "\<forall>q. outside (cx_store cx) q \<longrightarrow> fs_read (cx_disk cx') q = fs_read (cx_disk cx) q"
      using out f by (simp add: cx'_def faithful_def)
  qed (use out f db'(3) c in \<open>auto simp: cx'_def bump_def fun_eq_iff faithful_def\<close>)
  ultimately show ?thesis by blast
qed

lemma record_chunk_step:
  assumes "rs_laws X" and "data_inv L content (cx_db cx) (cx_store cx) (cx_disk cx)"
    and "chunk_fits X L cx ck" and "content (ck_hash ck) = ck_data ck"
  shows "\<exists>cx'. record_chunk X L rel ck cx = (Inr (), cx') \<and> ctx_step X L content [ck_hash ck] cx cx'"
  using record_known [OF assms(2)] record_new [OF assms(1,2) _ assms(3,4)] by blast

section \<open>One file\<close>

text \<open>The chunks that streaming cuts a file into.\<close>

definition file_chunk_list :: "libs \<Rightarrow> reader \<Rightarrow> chunk list" where
  "file_chunk_list X r = (case chunk_reader (content_hash X) ChunkEngine_new r collect [] of
     Some (Inr u, cks) \<Rightarrow> cks | _ \<Rightarrow> [])"

lemma chunk_reader_file:
  assumes "reader_ok r"
  shows "chunk_reader (content_hash X) ChunkEngine_new r f s = Some (deliver f (file_chunk_list X r) s)"
    and "concat (map ck_data (file_chunk_list X r)) = reader_bytes r"
    and "ck \<in> set (file_chunk_list X r) \<Longrightarrow> ck_hash ck = content_hash X (ck_data ck)"
proof -
  have sizes: "0 < min_size ChunkEngine_new" "min_size ChunkEngine_new < max_size ChunkEngine_new" by simp_all
  from chunk_reader_loop_cuts [OF sizes assms, of False "[]"] obtain ds where
    st: "streams ChunkEngine_new [] False r ds" and cat: "concat ds = reader_bytes r" by auto
  have mx: "0 < max_size ChunkEngine_new" by simp
  have l: "file_chunk_list X r = label (content_hash X) 0 ds"
    by (simp add: file_chunk_list_def chunk_reader_def streams_deliver [OF st mx] deliver_collect)
  show "chunk_reader (content_hash X) ChunkEngine_new r f s = Some (deliver f (file_chunk_list X r) s)"
    by (simp add: l chunk_reader_def streams_deliver [OF st mx])
  show "concat (map ck_data (file_chunk_list X r)) = reader_bytes r" by (simp add: l cat)
  show "ck \<in> set (file_chunk_list X r) \<Longrightarrow> ck_hash ck = content_hash X (ck_data ck)"
    using label_props [of ck "content_hash X" 0 ds] by (simp add: l)
qed

lemma ctx_step_trans:
  assumes "ctx_step X L content hs cx cx1" and "ctx_step X L content hs' cx1 cx2"
  shows "ctx_step X L content (hs @ hs') cx cx2"
proof -
  have "outside (cx_store cx1) q = outside (cx_store cx) q" for q
    using assms(1) by (simp add: ctx_step_def outside_def)
  with assms show ?thesis unfolding ctx_step_def by (auto simp: fun_eq_iff)
qed

lemma ctx_step_refl: "data_inv L content (cx_db cx) (cx_store cx) (cx_disk cx) \<Longrightarrow> ctx_step X L content [] cx cx"
  by (simp add: ctx_step_def)

lemma deliver_chunks:
  assumes laws: "rs_laws X"
    and "data_inv L content (cx_db cx) (cx_store cx) (cx_disk cx)"
    and "all_along (chunk_fits X L) (record_chunk X L rel) cks cx"
    and "\<forall>ck \<in> set cks. content (ck_hash ck) = ck_data ck"
  shows "\<exists>cx'. deliver (record_chunk X L rel) cks cx = (Inr (), cx') \<and> ctx_step X L content (map ck_hash cks) cx cx'"
  using assms(2-)
proof (induction cks arbitrary: cx)
  case Nil
  then show ?case using ctx_step_refl by auto
next
  case (Cons ck cks)
  have "chunk_fits X L cx ck" "content (ck_hash ck) = ck_data ck" using Cons.prems(2,3) by simp_all
  from record_chunk_step [OF laws Cons.prems(1) this] obtain cx1 where
    1: "record_chunk X L rel ck cx = (Inr (), cx1)" "ctx_step X L content [ck_hash ck] cx cx1" by blast
  have "data_inv L content (cx_db cx1) (cx_store cx1) (cx_disk cx1)" using 1(2) by (simp add: ctx_step_def)
  moreover have "all_along (chunk_fits X L) (record_chunk X L rel) cks cx1" using Cons.prems(2) 1(1) by simp
  ultimately obtain cx2 where "deliver (record_chunk X L rel) cks cx1 = (Inr (), cx2)"
    "ctx_step X L content (map ck_hash cks) cx1 cx2"
    using Cons.IH Cons.prems(3) by fastforce
  then show ?case using ctx_step_trans [OF 1(2)] 1(1) by simp
qed

text \<open>Reading chunks back.\<close>

lemma gather_faithful:
  "faithful content s f \<Longrightarrow> \<forall>h \<in> set hs. contains s h \<Longrightarrow> gather s f hs = (concat (map content hs), False)"
  by (induction hs) (simp_all add: faithful_def)

lemma gather_complete:
  "gather s f hs = (b, False) \<Longrightarrow> h \<in> set hs \<Longrightarrow> contains s h"
proof (induction hs arbitrary: b)
  case (Cons k hs)
  then show ?case
    by (cases "read_object s f k")
      (auto simp: read_object_def contains_def split: prod.splits option.splits)
qed simp

lemma gather_keep:
  assumes "faithful content s f" and "faithful content s' f'" and "\<And>h. contains s h \<Longrightarrow> contains s' h"
    and "gather s f hs = (b, False)"
  shows "gather s' f' hs = (b, False)"
proof -
  have c: "\<forall>h \<in> set hs. contains s h" using gather_complete [OF assms(4)] by blast
  with gather_faithful [OF assms(1) this] gather_faithful [OF assms(2), of hs] assms(3,4) show ?thesis by simp
qed

text \<open>A file that the index and the store together hold.\<close>

definition recoverable :: "'db crates \<Rightarrow> 'db engine \<Rightarrow> string \<Rightarrow> bytes \<Rightarrow> bool" where
  "recoverable C e p b = (case get_file_chunks (cr_index C) p (index_db e) of
     Inl x \<Rightarrow> False | Inr hs \<Rightarrow> gather (obj_store e) (disk e) hs = (b, False))"

definition engine_inv :: "'db crates \<Rightarrow> (string \<Rightarrow> bytes) \<Rightarrow> 'db engine \<Rightarrow> bool" where
  "engine_inv C content e = data_inv (cr_index C) content (index_db e) (obj_store e) (disk e)"

text \<open>A file task that nothing stops: the file can be read, the reader delivers its bytes, no two
  of its chunks clash in their hash with other content, and each chunk fits in the store.\<close>

definition file_ok :: "'db crates \<Rightarrow> env \<Rightarrow> (string \<Rightarrow> bytes) \<Rightarrow> file_entry \<Rightarrow> 'db engine \<Rightarrow> bool" where
  "file_ok C v content fe e = (case fs_read (disk e) (fe_path fe) of
     Inl x \<Rightarrow> False
   | Inr b \<Rightarrow>
       let cks = file_chunk_list (cr_libs C) (reads v b) in
       reader_ok (reads v b) \<and> reader_bytes (reads v b) = b \<and>
       list_all (\<lambda>ck. content (ck_hash ck) = ck_data ck) cks \<and>
       all_along (chunk_fits (cr_libs C) (cr_index C)) (record_chunk (cr_libs C) (cr_index C) (rel_of e fe)) cks (open_ctx e))"

text \<open>What storing the files \<open>ch\<close>, given by path and content, does to the engine.\<close>

definition files_stored :: "'db crates \<Rightarrow> (string \<Rightarrow> bytes) \<Rightarrow> (string \<times> bytes) list \<Rightarrow> 'db engine \<Rightarrow> 'db engine \<Rightarrow> bool" where
  "files_stored C content ch e e' =
     (engine_inv C content e' \<and>
      (\<forall>(p, b) \<in> set ch. recoverable C e' p b) \<and>
      (\<forall>p b. p \<notin> fst ` set ch \<longrightarrow> recoverable C e p b \<longrightarrow> recoverable C e' p b) \<and>
      st_snaps (abs_index (cr_index C) (index_db e')) = st_snaps (abs_index (cr_index C) (index_db e)) \<and>
      (\<forall>q. outside (obj_store e) q \<longrightarrow> fs_read (disk e') q = fs_read (disk e) q) \<and>
      objects_dir (obj_store e') = objects_dir (obj_store e) \<and>
      packfile_dir (obj_store e') = packfile_dir (obj_store e) \<and>
      (\<exists>db s f tr. e' = e\<lparr>index_db := db, obj_store := s, disk := f, transients := tr\<rparr>))"

text \<open>The engine after a file task, with the hashes \<open>hs\<close> of the file.\<close>

lemma backup_file_run:
  assumes laws: "rs_laws (cr_libs C)" and inv: "engine_inv C content e"
    and ok: "file_ok C v content fe e" and read: "fs_read (disk e) (fe_path fe) = Inr b"
  defines "hs \<equiv> map ck_hash (file_chunk_list (cr_libs C) (reads v b))"
  shows "\<exists>dd nw cx db'. backup_file C v fe e = Some (Inr (rel_of e fe, fe_size fe, dd, nw), (close_ctx cx e)\<lparr>index_db := db'\<rparr>) \<and>
     dd + nw = of_nat (length hs) \<and> concat (map content hs) = b \<and>
     ctx_step (cr_libs C) (cr_index C) content hs (open_ctx e) cx \<and> index_ok (cr_index C) db' \<and>
     abs_index (cr_index C) db' = set_file (rel_of e fe) hs (fe_size fe) (abs_index (cr_index C) (cx_db cx))"
proof -
  let ?X = "cr_libs C" and ?L = "cr_index C" and ?rel = "rel_of e fe"
  define cks where "cks = file_chunk_list ?X (reads v b)"
  have r: "reader_ok (reads v b)" "reader_bytes (reads v b) = b"
    and cont: "\<forall>ck \<in> set cks. content (ck_hash ck) = ck_data ck"
    and fits: "all_along (chunk_fits ?X ?L) (record_chunk ?X ?L ?rel) cks (open_ctx e)"
    using ok read by (simp_all add: file_ok_def Let_def cks_def list_all_iff)
  have "data_inv ?L content (cx_db (open_ctx e)) (cx_store (open_ctx e)) (cx_disk (open_ctx e))"
    using inv by (simp add: engine_inv_def open_ctx_def)
  from deliver_chunks [OF laws this fits cont] obtain cx where
    cx: "deliver (record_chunk ?X ?L ?rel) cks (open_ctx e) = (Inr (), cx)"
    "ctx_step ?X ?L content hs (open_ctx e) cx"
    unfolding hs_def cks_def [symmetric] by blast
  have idx: "index_ok ?L (cx_db cx)" using cx(2) by (simp add: ctx_step_def data_inv_def)
  have hashes: "cx_hashes cx = hs" using cx(2) by (simp add: ctx_step_def open_ctx_def)
  from refinesE [OF insert_file_chunks_refines [OF idx, of ?rel hs "fe_size fe" "fe_modified fe"]] obtain db' where
    db': "insert_file_chunks ?L ?rel hs (fe_size fe) (fe_modified fe) (cx_db cx) = (Inr (), db')"
    "index_ok ?L db'" "abs_index ?L db' = set_file ?rel hs (fe_size fe) (abs_index ?L (cx_db cx))" by metis
  have run: "backup_file C v fe e = Some (Inr (?rel, fe_size fe, cx_deduped cx, cx_new cx), (close_ctx cx e)\<lparr>index_db := db'\<rparr>)"
    by (simp add: backup_file_def Let_def read chunk_reader_file(1) [OF r(1)] cx(1) [unfolded cks_def] hashes db'(1) close_ctx_def)
  have "cx_deduped cx + cx_new cx = of_nat (length hs)"
    using cx(2) by (simp add: ctx_step_def open_ctx_def)
  moreover have "concat (map content hs) = b"
  proof -
    have "map content hs = map ck_data cks" using cont by (simp add: hs_def cks_def)
    then show ?thesis using chunk_reader_file(2) [OF r(1), of ?X] r(2) by (simp add: cks_def)
  qed
  ultimately show ?thesis using run cx(2) db'(2,3) by blast
qed

lemma backup_file_stores:
  assumes laws: "rs_laws (cr_libs C)" and inv: "engine_inv C content e"
    and ok: "file_ok C v content fe e" and read: "fs_read (disk e) (fe_path fe) = Inr b"
  shows "\<exists>dd nw e'. backup_file C v fe e = Some (Inr (rel_of e fe, fe_size fe, dd, nw), e') \<and>
     files_stored C content [(rel_of e fe, b)] e e'"
proof -
  let ?L = "cr_index C" and ?rel = "rel_of e fe"
  define hs where "hs = map ck_hash (file_chunk_list (cr_libs C) (reads v b))"
  from backup_file_run [OF assms] obtain dd nw cx db' where
    run: "backup_file C v fe e = Some (Inr (?rel, fe_size fe, dd, nw), (close_ctx cx e)\<lparr>index_db := db'\<rparr>)"
    and cat: "concat (map content hs) = b" and cx: "ctx_step (cr_libs C) ?L content hs (open_ctx e) cx"
    and db': "index_ok ?L db'" "abs_index ?L db' = set_file ?rel hs (fe_size fe) (abs_index ?L (cx_db cx))"
    unfolding hs_def by blast
  let ?e' = "(close_ctx cx e)\<lparr>index_db := db'\<rparr>"
  have e': "index_db ?e' = db'" "obj_store ?e' = cx_store cx" "disk ?e' = cx_disk cx" by (simp_all add: close_ctx_def)
  have d: "data_inv ?L content (cx_db cx) (cx_store cx) (cx_disk cx)" using cx by (simp add: ctx_step_def)
  have mono: "contains (obj_store e) h \<Longrightarrow> contains (cx_store cx) h"
    and there: "\<forall>h \<in> set hs. contains (cx_store cx) h" for h
    using cx by (auto simp: ctx_step_def open_ctx_def)
  have f: "faithful content (obj_store e) (disk e)" "faithful content (cx_store cx) (cx_disk cx)"
    using inv d by (simp_all add: engine_inv_def data_inv_def)
  have files: "get_file_chunks ?L p db' = (if p = ?rel then Inr hs else get_file_chunks ?L p (index_db e))" for p
    using inv cx get_file_chunks_ok [OF db'(1), of p] get_file_chunks_ok [of ?L "index_db e" p]
    by (simp add: db'(2) set_file_def ctx_step_def open_ctx_def engine_inv_def data_inv_def)
  have "files_stored C content [(?rel, b)] e ?e'"
    unfolding files_stored_def
  proof (intro conjI)
    show "engine_inv C content ?e'"
      using d db' by (simp add: engine_inv_def data_inv_def e' set_file_def)
    show "\<forall>(p, b) \<in> set [(?rel, b)]. recoverable C ?e' p b"
      using gather_faithful [OF f(2) there] cat by (simp add: recoverable_def e' files)
    show "\<forall>p c. p \<notin> fst ` set [(?rel, b)] \<longrightarrow> recoverable C e p c \<longrightarrow> recoverable C ?e' p c"
      using gather_keep [OF f mono] by (simp add: recoverable_def e' files split: sum.splits)
    show "st_snaps (abs_index ?L (index_db ?e')) = st_snaps (abs_index ?L (index_db e))"
      using cx by (simp add: e' db'(2) set_file_def ctx_step_def open_ctx_def)
    show "\<exists>db s f tr. ?e' = e\<lparr>index_db := db, obj_store := s, disk := f, transients := tr\<rparr>"
      by (intro exI [of _ db'] exI [of _ "cx_store cx"] exI [of _ "cx_disk cx"] exI [of _ "cx_transients cx"])
        (simp add: close_ctx_def)
  qed (use cx in \<open>simp_all add: e' ctx_step_def open_ctx_def\<close>)
  with run show ?thesis by blast
qed

section \<open>All files of a run\<close>

definition bytes_at :: "fs \<Rightarrow> path \<Rightarrow> bytes" where
  "bytes_at f p = (case fs_read f p of Inr b \<Rightarrow> b | Inl x \<Rightarrow> [])"

text \<open>No file task of the run is stopped.\<close>

fun tasks_ok :: "'db crates \<Rightarrow> env \<Rightarrow> (string \<Rightarrow> bytes) \<Rightarrow> (nat \<times> file_entry) list \<Rightarrow> 'db engine \<Rightarrow> bool" where
  "tasks_ok C v content [] e = True"
| "tasks_ok C v content ((i, fe) # ts) e =
     (file_ok C v content fe e \<and>
      (case backup_file C v fe e of None \<Rightarrow> False | Some (r, e1) \<Rightarrow> tasks_ok C v content ts e1))"

definition file_content :: "'db engine \<Rightarrow> file_entry \<Rightarrow> string \<times> bytes" where
  "file_content e fe = (rel_of e fe, bytes_at (disk e) (fe_path fe))"

lemma files_stored_refl: "engine_inv C content e \<Longrightarrow> files_stored C content [] e e"
  unfolding files_stored_def
  by (auto intro!: exI [of _ "index_db e"] exI [of _ "obj_store e"] exI [of _ "disk e"] exI [of _ "transients e"])

lemma files_storedD:
  assumes "files_stored C content ch e e'"
  shows "(p, b) \<in> set ch \<Longrightarrow> recoverable C e' p b"
    and "p \<notin> fst ` set ch \<Longrightarrow> recoverable C e p b \<Longrightarrow> recoverable C e' p b"
    and "st_snaps (abs_index (cr_index C) (index_db e')) = st_snaps (abs_index (cr_index C) (index_db e))"
    and "outside (obj_store e) q \<Longrightarrow> fs_read (disk e') q = fs_read (disk e) q"
    and "objects_dir (obj_store e') = objects_dir (obj_store e)"
    and "packfile_dir (obj_store e') = packfile_dir (obj_store e)"
    and "engine_inv C content e'"
  using assms unfolding files_stored_def by blast+

lemma files_stored_trans:
  assumes 1: "files_stored C content ch e e1" and 2: "files_stored C content ch' e1 e2"
    and disj: "fst ` set ch \<inter> fst ` set ch' = {}"
  shows "files_stored C content (ch @ ch') e e2"
proof -
  have out: "outside (obj_store e1) q = outside (obj_store e) q" for q
    using 1 by (simp add: files_stored_def outside_def)
  obtain db s f tr where e1: "e1 = e\<lparr>index_db := db, obj_store := s, disk := f, transients := tr\<rparr>"
    using 1 by (auto simp: files_stored_def)
  obtain db' s' f' tr' where e2: "e2 = e1\<lparr>index_db := db', obj_store := s', disk := f', transients := tr'\<rparr>"
    using 2 by (auto simp: files_stored_def)
  have "\<exists>db s f tr. e2 = e\<lparr>index_db := db, obj_store := s, disk := f, transients := tr\<rparr>"
    by (intro exI [of _ db'] exI [of _ s'] exI [of _ f'] exI [of _ tr']) (simp add: e2 e1)
  moreover have "\<forall>(p, b) \<in> set (ch @ ch'). recoverable C e2 p b"
  proof clarify
    fix p b assume a: "(p, b) \<in> set (ch @ ch')"
    show "recoverable C e2 p b"
    proof (cases "(p, b) \<in> set ch'")
      case True
      then show ?thesis by (rule files_storedD(1) [OF 2])
    next
      case False
      then have ch: "(p, b) \<in> set ch" using a by simp
      then have "p \<notin> fst ` set ch'" using disj by force
      then show ?thesis using files_storedD(1) [OF 1 ch] files_storedD(2) [OF 2] by blast
    qed
  qed
  moreover have "recoverable C e2 p b" if "p \<notin> fst ` set (ch @ ch')" "recoverable C e p b" for p b
    using files_storedD(2) [OF 2, of p b] files_storedD(2) [OF 1, of p b] that by (simp add: image_Un)
  moreover have "fs_read (disk e2) q = fs_read (disk e) q" if "outside (obj_store e) q" for q
    using files_storedD(4) [OF 2, of q] files_storedD(4) [OF 1, of q] that by (simp add: out)
  ultimately show ?thesis
    using files_storedD(3,5,6,7) [OF 1] files_storedD(3,5,6,7) [OF 2] unfolding files_stored_def by simp
qed

lemma file_ok_read: "file_ok C v content fe e \<Longrightarrow> \<exists>b. fs_read (disk e) (fe_path fe) = Inr b"
  by (simp add: file_ok_def split: sum.splits)

lemma run_tasks_stores:
  assumes laws: "rs_laws (cr_libs C)" and "engine_inv C content e" and "tasks_ok C v content ts e"
    and "distinct (map (\<lambda>(i, fe). rel_of e fe) ts)"
    and "\<forall>(i, fe) \<in> set ts. outside (obj_store e) (fe_path fe)"
  shows "\<exists>rs e'. run_tasks C v ts e = Some (rs, e') \<and>
     files_stored C content (map (\<lambda>(i, fe). file_content e fe) ts) e e' \<and>
     list_all2 (\<lambda>(i, fe) (j, r). j = i \<and> (\<exists>dd nw. r = Inr (rel_of e fe, fe_size fe, dd, nw))) ts rs"
  using assms(2-)
proof (induction ts arbitrary: e)
  case Nil
  then show ?case by (simp add: files_stored_refl)
next
  case (Cons t ts)
  obtain i fe where t: "t = (i, fe)" by fastforce
  have ok: "file_ok C v content fe e" using Cons.prems(2) by (simp add: t)
  then obtain b where b: "fs_read (disk e) (fe_path fe) = Inr b" using file_ok_read by blast
  from backup_file_stores [OF laws Cons.prems(1) ok b] obtain dd nw e1 where
    1: "backup_file C v fe e = Some (Inr (rel_of e fe, fe_size fe, dd, nw), e1)"
    and st: "files_stored C content [(rel_of e fe, b)] e e1" by blast
  have ts: "tasks_ok C v content ts e1" using Cons.prems(2) by (simp add: t 1)
  have same: "rel_of e1 = rel_of e" "outside (obj_store e1) = outside (obj_store e)"
    using st by (auto simp: files_stored_def rel_of_def outside_def fun_eq_iff)
  have cont: "file_content e1 g = file_content e g" if "outside (obj_store e) (fe_path g)" for g
    using st that by (simp add: file_content_def same files_stored_def bytes_at_def)
  have inv1: "engine_inv C content e1" using st by (simp add: files_stored_def)
  from Cons.IH [OF inv1 ts] Cons.prems(3,4) obtain rs e2 where
    2: "run_tasks C v ts e1 = Some (rs, e2)"
    "files_stored C content (map (\<lambda>(i, fe). file_content e1 fe) ts) e1 e2"
    "list_all2 (\<lambda>(i, fe) (j, r). j = i \<and> (\<exists>dd nw. r = Inr (rel_of e fe, fe_size fe, dd, nw))) ts rs"
    by (auto simp: same)
  have "map (\<lambda>(i, fe). file_content e1 fe) ts = map (\<lambda>(i, fe). file_content e fe) ts"
    using Cons.prems(4) cont by auto
  with 2(2) have "files_stored C content (map (\<lambda>(i, fe). file_content e fe) ts) e1 e2" by simp
  moreover have "fst ` set [(rel_of e fe, b)] \<inter> fst ` set (map (\<lambda>(i, fe). file_content e fe) ts) = {}"
    using Cons.prems(3) by (force simp: t file_content_def)
  ultimately have "files_stored C content ([(rel_of e fe, b)] @ map (\<lambda>(i, fe). file_content e fe) ts) e e2"
    using files_stored_trans [OF st] by blast
  then have "files_stored C content (map (\<lambda>(i, fe). file_content e fe) (t # ts)) e e2"
    by (simp add: t file_content_def bytes_at_def b)
  moreover have "run_tasks C v (t # ts) e = Some ((i, Inr (rel_of e fe, fe_size fe, dd, nw)) # rs, e2)"
    by (simp add: t 1 2(1))
  ultimately show ?case using 2(3) by (auto simp: t)
qed

section \<open>Collecting the results\<close>

text \<open>What the tally counts: the files stored, in the order of the list, and the skipped ones.\<close>

definition stored_paths :: "file_outcome list \<Rightarrow> string list" where
  "stored_paths rs = List.map_filter (\<lambda>r. case r of Inr (p, n, dd, nw) \<Rightarrow> Some p | Inl p \<Rightarrow> None) rs"

lemma fold_tally:
  "all_file_paths (fold tally_one rs t) = all_file_paths t @ stored_paths rs \<and>
   t_changed (fold tally_one rs t) = t_changed t + of_nat (length (stored_paths rs)) \<and>
   t_skipped (fold tally_one rs t) + t_changed (fold tally_one rs t) = t_skipped t + t_changed t + of_nat (length rs) \<and>
   t_bytes (fold tally_one rs t) = t_bytes t + sum_list (map (\<lambda>r. case r of Inr (p, n, dd, nw) \<Rightarrow> n | Inl p \<Rightarrow> 0) rs) \<and>
   t_chunks (fold tally_one rs t) - (t_deduped (fold tally_one rs t) + t_new (fold tally_one rs t)) =
     t_chunks t - (t_deduped t + t_new t)"
proof (induction rs arbitrary: t)
  case Nil
  show ?case by (simp add: stored_paths_def)
next
  case (Cons r rs)
  show ?case using Cons [of "tally_one r t"]
    by (auto simp: stored_paths_def tally_one_def List.map_filter_simps split: sum.splits)
qed

text \<open>The tasks of a backup: every file once, in the order of the scheduler.\<close>

definition task_list :: "env \<Rightarrow> file_entry list \<Rightarrow> (nat \<times> file_entry) list" where
  "task_list v files = map (\<lambda>i. (i, files ! i)) (order v (length files))"

definition fair :: "env \<Rightarrow> nat \<Rightarrow> bool" where
  "fair v n = (distinct (order v n) \<and> set (order v n) = {..<n})"

lemma map_filter_total: "\<forall>x \<in> set xs. g x \<noteq> None \<Longrightarrow> List.map_filter g xs = map (\<lambda>x. the (g x)) xs"
  by (induction xs) (auto simp: List.map_filter_simps)

lemma results_in_order:
  assumes "list_all2 (\<lambda>(i, fe) (j, r). j = i \<and> P fe r) ts rs" and "distinct (map fst ts)" and "(i, fe) \<in> set ts"
  shows "\<exists>r. map_of rs i = Some r \<and> P fe r"
  using assms
proof (induction rule: list_all2_induct)
  case (Cons t ts r rs)
  then show ?case by (cases t; cases r) (force simp: image_iff)
qed simp

lemma stored_paths_all:
  "list_all2 (\<lambda>fe r. \<exists>n dd nw. r = Inr (g fe, n, dd, nw)) files rs \<Longrightarrow> stored_paths rs = map g files"
  by (induction rule: list_all2_induct) (auto simp: stored_paths_def List.map_filter_simps)

lemma process_files_stores:
  assumes laws: "rs_laws (cr_libs C)" and inv: "engine_inv C content e"
    and run: "cancelled v = None" "fair v (length files)"
    and ok: "tasks_ok C v content (task_list v files) e"
    and dist: "distinct (map (rel_of e) files)"
    and out: "\<forall>fe \<in> set files. outside (obj_store e) (fe_path fe)"
  shows "\<exists>rs e'. process_files C v files e = Some (rs, e') \<and> stored_paths rs = map (rel_of e) files \<and>
     length rs = length files \<and> files_stored C content (map (\<lambda>(i, fe). file_content e fe) (task_list v files)) e e'"
proof -
  let ?ts = "task_list v files"
  have o: "distinct (order v (length files))" "\<And>i. i \<in> set (order v (length files)) \<longleftrightarrow> i < length files"
    using run(2) by (simp_all add: fair_def)
  have "inj_on (\<lambda>i. rel_of e (files ! i)) (set (order v (length files)))"
    using dist o(2) by (auto simp: inj_on_def distinct_conv_nth)
  then have d: "distinct (map (\<lambda>(i, fe). rel_of e fe) ?ts)"
    using o(1) by (simp add: task_list_def comp_def distinct_map)
  have "\<forall>(i, fe) \<in> set ?ts. outside (obj_store e) (fe_path fe)"
    using out o(2) by (auto simp: task_list_def)
  from run_tasks_stores [OF laws inv ok d this] obtain rs e' where
    1: "run_tasks C v ?ts e = Some (rs, e')" and st: "files_stored C content (map (\<lambda>(i, fe). file_content e fe) ?ts) e e'"
    and all: "list_all2 (\<lambda>(i, fe) (j, r). j = i \<and> (\<exists>dd nw. r = Inr (rel_of e fe, fe_size fe, dd, nw))) ?ts rs"
    by blast
  have fst_ts: "map fst ?ts = order v (length files)" by (simp add: task_list_def comp_def)
  have res: "\<exists>n dd nw. map_of rs i = Some (Inr (rel_of e (files ! i), n, dd, nw))" if "i < length files" for i
  proof -
    have "(i, files ! i) \<in> set ?ts" using that o(2) by (simp add: task_list_def)
    from results_in_order [OF all _ this] o(1) show ?thesis by (auto simp: fst_ts)
  qed
  let ?rs = "map (\<lambda>i. the (map_of rs i)) [0..<length files]"
  have "List.map_filter (map_of rs) [0..<length files] = ?rs"
    by (rule map_filter_total) (use res in fastforce)
  then have "process_files C v files e = Some (?rs, e')"
    by (simp add: process_files_def run(1) 1 flip: task_list_def)
  moreover have "list_all2 (\<lambda>fe r. \<exists>n dd nw. r = Inr (rel_of e fe, n, dd, nw)) files ?rs"
    unfolding list_all2_conv_all_nth using res by fastforce
  then have "stored_paths ?rs = map (rel_of e) files" by (rule stored_paths_all)
  ultimately show ?thesis using st by (intro exI [of _ ?rs] exI [of _ e']) simp
qed

section \<open>The whole backup\<close>

text \<open>Where \<open>main\<close> puts the object store: in \<open>.obsidian/store\<close> of the server directory.\<close>

definition placed :: "'db engine \<Rightarrow> bool" where
  "placed e = (objects_dir (obj_store e) = server_root e @ [''.obsidian'', ''store'', ''objects''] \<and>
     packfile_dir (obj_store e) = server_root e @ [''.obsidian'', ''store'', ''packfiles''])"

lemma snapshot_dir_path: "snapshot_dir e = server_root e @ [''.obsidian'', ''store'', ''snapshots'']"
  by (simp add: snapshot_dir_def child_def join_def path_of_def is_absolute_def)

lemma outside_root:
  assumes "placed e" and "n \<noteq> ''.obsidian''"
  shows "outside (obj_store e) (server_root e @ n # t)"
  using assms by (simp add: outside_def placed_def below_def)

lemma outside_snapshots: "placed e \<Longrightarrow> outside (obj_store e) (snapshot_dir e @ t)"
  by (simp add: outside_def placed_def below_def snapshot_dir_path)

text \<open>The worlds of a scan lie beside \<open>.obsidian\<close>.\<close>

lemma scan_outside:
  assumes "scan_world_directory r m ig (server_root e) since f = Some out" and "fe \<in> set out" and "placed e"
  shows "outside (obj_store e) (fe_path fe)"
proof -
  obtain fs where fs: "scan_dirs r m ig (server_root e) since f (find_world_directories (server_root e) f) = Some fs"
    and out: "out = sort_by_path fs"
    using assms(1) by (auto simp: scan_world_directory_def)
  have "fe \<in> set fs"
    using assms(2) arg_cong [OF sort_by_path_props(1) [of fs], of set_mset] by (simp add: out)
  then obtain d where d: "d \<in> set (find_world_directories (server_root e) f)" "below d (fe_path fe)"
    by (auto simp: scan_dirs_set [OF fs] walk_set)
  have cand: "n \<in> set candidates \<Longrightarrow> join (server_root e) [n] = server_root e @ [n] \<and> n \<noteq> ''.obsidian''" for n
    by (auto simp: candidates_def join_def is_absolute_def)
  have "\<not> substring ''world'' ''.obsidian''" by (simp add: substring_def upt_rec)
  then have other: "substring ''world'' n \<Longrightarrow> n \<noteq> ''.obsidian''" for n by blast
  from d(1) consider n where "n \<in> set candidates" "d = join (server_root e) [n]"
    | n where "substring ''world'' n" "d = server_root e @ [n]"
    unfolding find_world_directories_def by (force split: sum.splits)
  then obtain n where n: "d = server_root e @ [n]" "n \<noteq> ''.obsidian''" using cand other by cases auto
  then obtain t where "fe_path fe = server_root e @ n # t"
    using d(2) by (metis append.assoc append_Cons append_Nil append_take_drop_id below_def)
  then show ?thesis using outside_root [OF assms(3) n(2)] by simp
qed

section \<open>The commit\<close>

text \<open>What a file system change outside the store leaves alone.\<close>

lemma read_object_inside:
  assumes "store_inv s" and "\<And>q. \<not> outside s q \<Longrightarrow> fs_read f' q = fs_read f q"
  shows "read_object s f' = read_object s f"
proof (rule ext, rule read_object_cong)
  fix h loc p assume a: "map_of (object_index s) h = Some loc" "p \<in> files_of s loc"
  have "\<not> outside s p"
    using store_invD(3) [OF assms(1) a(1)] a(2) by (cases rule: files_of_cases) (auto simp: outside_def)
  then show "fs_read f' p = fs_read f p" by (rule assms(2))
qed simp_all

lemma gather_inside:
  "(\<And>h. read_object s f' h = read_object s f h) \<Longrightarrow> gather s f' hs = gather s f hs"
  by (induction hs) simp_all

lemma engine_keeps:
  assumes inv: "engine_inv C content e" and db: "index_ok (cr_index C) (index_db e')"
    and files: "st_files (abs_index (cr_index C) (index_db e')) = st_files (abs_index (cr_index C) (index_db e))"
    and known: "\<And>h. st_known (abs_index (cr_index C) (index_db e')) h \<Longrightarrow> st_known (abs_index (cr_index C) (index_db e)) h"
    and store: "obj_store e' = obj_store e"
    and disk: "\<And>q. \<not> outside (obj_store e) q \<Longrightarrow> fs_read (disk e') q = fs_read (disk e) q"
  shows "engine_inv C content e'" and "recoverable C e' p b = recoverable C e p b"
proof -
  have s: "store_inv (obj_store e)" and ok: "index_ok (cr_index C) (index_db e)"
    using inv by (simp_all add: engine_inv_def data_inv_def faithful_def)
  note r = read_object_inside [OF s disk]
  show "engine_inv C content e'"
    using inv db by (simp add: engine_inv_def data_inv_def faithful_def store r known)
  show "recoverable C e' p b = recoverable C e p b"
    using gather_inside [of "obj_store e" "disk e'" "disk e"]
    by (cases "st_files (abs_index (cr_index C) (index_db e)) p")
      (simp_all add: recoverable_def store r get_file_chunks_ok [OF ok] get_file_chunks_ok [OF db] files)
qed

text \<open>The steps of a commit that succeeds.\<close>

definition manifest_path :: "'db engine \<Rightarrow> string \<Rightarrow> path" where
  "manifest_path e i = child (snapshot_dir e) (i @ ''.json'')"

definition sig_path :: "'db engine \<Rightarrow> string \<Rightarrow> path" where
  "sig_path e i = child (snapshot_dir e) (i @ ''.sig'')"

lemma on_disk_Inr: "on_disk m e = (Inr x, e') \<longleftrightarrow> (\<exists>f. m (disk e) = (Inr x, f) \<and> e' = e\<lparr>disk := f\<rparr>)"
  by (auto simp: on_disk_def split: prod.splits)

lemma on_index_Inr: "on_index m e = (Inr x, e') \<longleftrightarrow> (\<exists>db. m (index_db e) = (Inr x, db) \<and> e' = e\<lparr>index_db := db\<rparr>)"
  by (auto simp: on_index_def split: prod.splits)

lemma upd_Inr: "upd g e = (Inr x, e') \<longleftrightarrow> e' = g e"
  by (auto simp: upd_def)

lemma commit_backup_steps:
  assumes "commit_backup C v tx tag n t e = (Inr r, e')"
  obtains f1 s f2 f3 db1 db2 where
    "create_dir_all (snapshot_dir e) (disk e) = (Inr (), f1)"
    "json_pretty (cr_index C) (manifest_of e v tag n t) = Inr s"
    "fs_write (manifest_path e (''snap_'' @ uuid8 v)) (bytes_of s) f1 = (Inr (), f2)"
    "case signer e of None \<Rightarrow> f3 = f2
     | Some sg \<Rightarrow> fs_write (sig_path e (''snap_'' @ uuid8 v)) (bytes_of (sign (cr_sign C) sg (bytes_of s))) f2 = (Inr (), f3)"
    "insert_snapshot_files (cr_index C) (''snap_'' @ uuid8 v) (all_file_paths t) (index_db e) = (Inr (), db1)"
    "flush_wal (cr_index C) db1 = (Inr (), db2)"
    "r = result_of v n t" "index_db e' = db2" "disk e' = f3" "obj_store e' = obj_store e" "transients e' = []"
    "server_root e' = server_root e" "signer e' = signer e" "config e' = config e" "mtimes e' = mtimes e"
    "active_transaction e' = active_transaction e"
    "state_name (sys e') = ''idle''" "running (sys e') = False" "current_tx (sys e') = None"
    "snapshots e' = snapshots e @ [\<lparr>si_id = ''snap_'' @ uuid8 v, si_timestamp = now v, si_tag = tag,
               si_files_scanned = of_nat n, si_bytes_processed = t_bytes t,
               si_chunks_total = t_chunks t, si_chunks_deduped = t_deduped t\<rparr>]"
proof -
  let ?q = "update_queues 0 0 0 0 0 e"
  have q: "snapshot_dir ?q = snapshot_dir e" "signer ?q = signer e" "disk ?q = disk e" "index_db ?q = index_db e"
    "manifest_of ?q v tag n t = manifest_of e v tag n t"
    by (simp_all add: update_queues_def snapshot_dir_def manifest_of_def)
  from assms obtain e1 s e2 e3 e4 e5 where
    1: "on_disk (create_dir_all (snapshot_dir e)) ?q = (Inr (), e1)"
    "json_pretty (cr_index C) (manifest_of e v tag n t) = Inr s"
    "on_disk (fs_write (child (snapshot_dir e) ((''snap_'' @ uuid8 v) @ ''.json'')) (bytes_of s)) e1 = (Inr (), e2)"
    and sg: "(case signer e of None \<Rightarrow> returnS ()
             | Some sg \<Rightarrow> on_disk (fs_write (child (snapshot_dir e) ((''snap_'' @ uuid8 v) @ ''.sig''))
                            (bytes_of (sign (cr_sign C) sg (bytes_of s))))) e2 = (Inr (), e3)"
    and 2: "on_index (insert_snapshot_files (cr_index C) (''snap_'' @ uuid8 v) (all_file_paths t)) e3 = (Inr (), e4)"
    "on_tx (commit (cr_index C) True tx) e4 = (Inr (), e5)"
    "r = result_of v n t"
    "e' = update_storage_stats (set_state ''idle'' None (e5\<lparr>snapshots := snapshots e5 @ [\<lparr>si_id = ''snap_'' @ uuid8 v, si_timestamp = now v, si_tag = tag,
               si_files_scanned = of_nat n, si_bytes_processed = t_bytes t,
               si_chunks_total = t_chunks t, si_chunks_deduped = t_deduped t\<rparr>]\<rparr>))"
    unfolding commit_backup_def Let_def q bindS_Inr_iff returnS_apply liftS_apply upd_def
    by (auto simp: q)
  obtain f1 where f1: "create_dir_all (snapshot_dir e) (disk e) = (Inr (), f1)" "e1 = ?q\<lparr>disk := f1\<rparr>"
    using 1(1) by (auto simp: on_disk_Inr q)
  obtain f2 where f2: "fs_write (manifest_path e (''snap_'' @ uuid8 v)) (bytes_of s) f1 = (Inr (), f2)"
    "e2 = e1\<lparr>disk := f2\<rparr>"
    using 1(3) by (auto simp: on_disk_Inr f1(2) manifest_path_def)
  obtain f3 where f3: "case signer e of None \<Rightarrow> f3 = f2
     | Some sg \<Rightarrow> fs_write (sig_path e (''snap_'' @ uuid8 v)) (bytes_of (sign (cr_sign C) sg (bytes_of s))) f2 = (Inr (), f3)"
    "e3 = e1\<lparr>disk := f3\<rparr>"
    using sg by (cases "signer e") (auto simp: on_disk_Inr f2(2) sig_path_def)
  obtain db1 where db1: "insert_snapshot_files (cr_index C) (''snap_'' @ uuid8 v) (all_file_paths t) (index_db e) = (Inr (), db1)"
    "e4 = e3\<lparr>index_db := db1\<rparr>"
    using 2(1) by (auto simp: on_index_Inr f3(2) f1(2) q)
  obtain db2 where db2: "flush_wal (cr_index C) db1 = (Inr (), db2)" "e5 = e4\<lparr>index_db := db2, transients := []\<rparr>"
    using 2(2) by (auto simp: on_tx_def commit_def clear_transients_def db1(2) split: prod.splits sum.splits)
  note fields = 2(4) db2(2) db1(2) f3(2) f1(2) update_queues_def set_state_def update_storage_stats_def
  show ?thesis
    by (rule that [OF f1(1) 1(2) f2(1) f3(1) db1(1) db2(1) 2(3)]) (simp_all add: fields)
qed

lemma commit_backup_ok:
  assumes "index_ok (cr_index C) (index_db e)"
    and "create_dir_all (snapshot_dir e) (disk e) = (Inr (), f1)"
    and "json_pretty (cr_index C) (manifest_of e v tag n t) = Inr s"
    and "fs_write (manifest_path e (''snap_'' @ uuid8 v)) (bytes_of s) f1 = (Inr (), f2)"
    and "\<And>sg. signer e = Some sg \<Longrightarrow>
       \<exists>f3. fs_write (sig_path e (''snap_'' @ uuid8 v)) (bytes_of (sign (cr_sign C) sg (bytes_of s))) f2 = (Inr (), f3)"
  shows "\<exists>r e'. commit_backup C v tx tag n t e = (Inr r, e')"
proof -
  let ?q = "update_queues 0 0 0 0 0 e"
  have q: "snapshot_dir ?q = snapshot_dir e" "signer ?q = signer e" "disk ?q = disk e" "index_db ?q = index_db e"
    "manifest_of ?q v tag n t = manifest_of e v tag n t"
    by (simp_all add: update_queues_def snapshot_dir_def manifest_of_def)
  define e2 where "e2 = ?q\<lparr>disk := f2\<rparr>"
  obtain f3 where sg: "(case signer e of None \<Rightarrow> returnS ()
             | Some sg \<Rightarrow> on_disk (fs_write (child (snapshot_dir e) ((''snap_'' @ uuid8 v) @ ''.sig''))
                            (bytes_of (sign (cr_sign C) sg (bytes_of s))))) e2 = (Inr (), e2\<lparr>disk := f3\<rparr>)"
  proof (cases "signer e")
    case None
    then show ?thesis using that [of f2] by (simp add: e2_def)
  next
    case (Some sg)
    from assms(5) [OF this] obtain f3 where
      "fs_write (sig_path e (''snap_'' @ uuid8 v)) (bytes_of (sign (cr_sign C) sg (bytes_of s))) f2 = (Inr (), f3)" by blast
    then show ?thesis using that [of f3] unfolding Some option.case sig_path_def by (simp add: on_disk_def e2_def)
  qed
  from refinesE [OF insert_snapshot_files_refines [OF assms(1), of "''snap_'' @ uuid8 v" "all_file_paths t"]] obtain d1 where
    d1: "insert_snapshot_files (cr_index C) (''snap_'' @ uuid8 v) (all_file_paths t) (index_db e) = (Inr (), d1)"
    "index_ok (cr_index C) d1" by metis
  from refinesE [OF flush_wal_refines [OF d1(2)]] obtain d2 where d2: "flush_wal (cr_index C) d1 = (Inr (), d2)" by metis
  let ?e4 = "e2\<lparr>disk := f3, index_db := d1\<rparr>"
  have 1: "on_disk (create_dir_all (snapshot_dir e)) ?q = (Inr (), ?q\<lparr>disk := f1\<rparr>)"
    by (simp add: on_disk_def q assms(2))
  have 2: "on_disk (fs_write (child (snapshot_dir e) ((''snap_'' @ uuid8 v) @ ''.json'')) (bytes_of s)) (?q\<lparr>disk := f1\<rparr>) = (Inr (), e2)"
    using assms(4) unfolding manifest_path_def by (simp add: on_disk_def e2_def)
  have 3: "on_index (insert_snapshot_files (cr_index C) (''snap_'' @ uuid8 v) (all_file_paths t)) (e2\<lparr>disk := f3\<rparr>) = (Inr (), ?e4)"
    using d1(1) by (simp add: on_index_def e2_def q)
  have 4: "on_tx (commit (cr_index C) True tx) ?e4 = (Inr (), ?e4\<lparr>index_db := d2, transients := []\<rparr>)"
    by (simp add: on_tx_def commit_def clear_transients_def d2)
  show ?thesis
    unfolding commit_backup_def Let_def q bindS_Inr [of "on_disk (create_dir_all (snapshot_dir e))", OF 1] liftS_def assms(3)
    by (subst bindS_Inr, rule refl, subst bindS_Inr, rule 2, subst bindS_Inr, rule sg, subst bindS_Inr, rule 3,
        subst bindS_Inr, rule 4) (simp add: bindS_def upd_def)
qed

text \<open>Names in the snapshot directory.\<close>

lemma child_name: "CHR ''/'' \<notin> set n \<Longrightarrow> 1 < length n \<Longrightarrow> child dir n = dir @ [n]"
  by (rule child_plain) (auto simp: plain_def)

lemma snapshot_paths:
  assumes "CHR ''/'' \<notin> set i"
  shows "manifest_path e i = snapshot_dir e @ [i @ ''.json'']" "sig_path e i = snapshot_dir e @ [i @ ''.sig'']"
  using assms by (simp_all add: manifest_path_def sig_path_def child_name)

lemma commit_backup_effect:
  assumes run: "commit_backup C v tx tag n t e = (Inr r, e')" and inv: "engine_inv C content e"
    and placed: "placed e" and uuid: "CHR ''/'' \<notin> set (uuid8 v)"
  shows "engine_inv C content e'" and "recoverable C e' p b = recoverable C e p b"
    and "get_snapshot_files (cr_index C) (br_snapshot_id r) (index_db e') = Inr (all_file_paths t)"
    and "\<exists>s. json_pretty (cr_index C) (manifest_of e v tag n t) = Inr s \<and>
      fs_read (disk e') (manifest_path e' (br_snapshot_id r)) = Inr (bytes_of s) \<and>
      (\<forall>sg. signer e' = Some sg \<longrightarrow> fs_read (disk e') (sig_path e' (br_snapshot_id r)) =
         Inr (bytes_of (sign (cr_sign C) sg (bytes_of s))))"
proof -
  let ?i = "''snap_'' @ uuid8 v" and ?L = "cr_index C"
  obtain f1 s f2 f3 db1 db2 where
    f1: "create_dir_all (snapshot_dir e) (disk e) = (Inr (), f1)" and s: "json_pretty ?L (manifest_of e v tag n t) = Inr s"
    and f2: "fs_write (manifest_path e ?i) (bytes_of s) f1 = (Inr (), f2)"
    and f3: "case signer e of None \<Rightarrow> f3 = f2
     | Some sg \<Rightarrow> fs_write (sig_path e ?i) (bytes_of (sign (cr_sign C) sg (bytes_of s))) f2 = (Inr (), f3)"
    and db: "insert_snapshot_files ?L ?i (all_file_paths t) (index_db e) = (Inr (), db1)" "flush_wal ?L db1 = (Inr (), db2)"
    and e': "r = result_of v n t" "index_db e' = db2" "disk e' = f3" "obj_store e' = obj_store e"
      "server_root e' = server_root e" "signer e' = signer e"
    by (rule commit_backup_steps [OF run])
  have ni: "CHR ''/'' \<notin> set ?i" using uuid by simp
  note paths = snapshot_paths [OF ni]
  have sd: "snapshot_dir e' = snapshot_dir e" by (simp add: snapshot_dir_def e'(5))
  have ok: "index_ok ?L (index_db e)" using inv by (simp add: engine_inv_def data_inv_def)
  have d1: "index_ok ?L db1 \<and> abs_index ?L db1 = set_snap ?i (all_file_paths t) (abs_index ?L (index_db e))"
    using insert_snapshot_files_refines [OF ok, of ?i "all_file_paths t"] db(1) by (auto simp: refines_def)
  then have d2: "index_ok ?L db2 \<and> abs_index ?L db2 = abs_index ?L db1"
    using flush_wal_refines [of ?L db1] db(2) by (auto simp: refines_def)
  have r3: "fs_read f3 q = (case signer e of Some sg \<Rightarrow>
       if q = sig_path e ?i then Inr (bytes_of (sign (cr_sign C) sg (bytes_of s))) else fs_read f2 q | None \<Rightarrow> fs_read f2 q)" for q
    using f3 by (cases "signer e") (simp_all add: fs_read_write)
  have read: "fs_read (disk e') q = fs_read (disk e) q" if "q \<noteq> manifest_path e ?i" "q \<noteq> sig_path e ?i" for q
    using r3 [of q] fs_read_write [OF f2, of q] f1 that
    by (simp add: e'(3) create_dir_all_def fs_read_mkdirs split: option.split)
  have "outside (obj_store e) (manifest_path e ?i)" "outside (obj_store e) (sig_path e ?i)"
    by (simp_all only: paths outside_snapshots [OF placed])
  then have inside: "fs_read (disk e') q = fs_read (disk e) q" if "\<not> outside (obj_store e) q" for q
    using read that by metis
  have files: "st_files (abs_index ?L (index_db e')) = st_files (abs_index ?L (index_db e))"
    "st_known (abs_index ?L (index_db e')) = st_known (abs_index ?L (index_db e))"
    "index_ok ?L (index_db e')"
    using d1 d2 by (simp_all add: e'(2) set_snap_def)
  show "engine_inv C content e'" "recoverable C e' p b = recoverable C e p b"
    using engine_keeps [OF inv files(3,1) _ e'(4) inside] by (simp_all add: files(2))
  show "get_snapshot_files ?L (br_snapshot_id r) (index_db e') = Inr (all_file_paths t)"
    using get_snapshot_files_ok [OF files(3)] d1 d2 by (simp add: e'(1,2) result_of_def set_snap_def)
  have "manifest_path e ?i \<noteq> sig_path e ?i" unfolding paths by simp
  then have "fs_read f3 (manifest_path e ?i) = Inr (bytes_of s)"
    using r3 [of "manifest_path e ?i"] fs_read_write [OF f2, of "manifest_path e ?i"] by (simp split: option.split)
  moreover have "manifest_path e' (br_snapshot_id r) = manifest_path e ?i" "sig_path e' (br_snapshot_id r) = sig_path e ?i"
    by (simp_all add: manifest_path_def sig_path_def sd e'(1) result_of_def)
  ultimately show "\<exists>s. json_pretty ?L (manifest_of e v tag n t) = Inr s \<and>
      fs_read (disk e') (manifest_path e' (br_snapshot_id r)) = Inr (bytes_of s) \<and>
      (\<forall>sg. signer e' = Some sg \<longrightarrow> fs_read (disk e') (sig_path e' (br_snapshot_id r)) =
         Inr (bytes_of (sign (cr_sign C) sg (bytes_of s))))"
    using s r3 [of "sig_path e ?i"] by (simp add: e'(3,6))
qed

section \<open>From start to end\<close>

text \<open>The files a backup is about to store, and the engine when the file tasks start.\<close>

definition files_to_back_up :: "'db crates \<Rightarrow> bool \<Rightarrow> 'db engine \<Rightarrow> file_entry list option" where
  "files_to_back_up C incremental e =
     scan_world_directory (\<lambda>t. map_option (\<lambda>ns. ns div 10 ^ 9) (cr_rfc3339 C t)) (mtimes e) (cfg_ignores (config e))
       (server_root e) (last_snapshot_time incremental e) (disk e)"

definition processing :: "env \<Rightarrow> 'db engine \<Rightarrow> 'db engine" where
  "processing v e = update_queues 0 1 0 0 0 (snd (start_backup v e))"

definition begun :: "env \<Rightarrow> transaction" where
  "begun v = \<lparr>tx_id = uuid8 v, tx_state = Active, created_at = now v, completed_at = None,
     files_processed = 0, bytes_processed = 0, chunks_total = 0\<rparr>"

lemma start_backup_run: "start_backup v e = (Inr (begun v), snd (start_backup v e))"
  by (simp add: start_backup_def on_tx_def begin_tx_def upd_def begun_def Let_def bindS_def)

lemma started [simp]:
  "index_db (snd (start_backup v e)) = index_db e" "obj_store (snd (start_backup v e)) = obj_store e"
  "disk (snd (start_backup v e)) = disk e" "server_root (snd (start_backup v e)) = server_root e"
  "mtimes (snd (start_backup v e)) = mtimes e" "snapshots (snd (start_backup v e)) = snapshots e"
  "signer (snd (start_backup v e)) = signer e" "config (snd (start_backup v e)) = config e"
  "transients (snd (start_backup v e)) = []" "active_transaction (snd (start_backup v e)) = Some (begun v)"
  by (simp_all add: start_backup_def on_tx_def begin_tx_def upd_def set_state_def update_queues_def begun_def bindS_def)

lemma update_queues_fields [simp]:
  "index_db (update_queues a b c d u e) = index_db e" "obj_store (update_queues a b c d u e) = obj_store e"
  "disk (update_queues a b c d u e) = disk e" "server_root (update_queues a b c d u e) = server_root e"
  "snapshots (update_queues a b c d u e) = snapshots e" "active_transaction (update_queues a b c d u e) = active_transaction e"
  "transients (update_queues a b c d u e) = transients e" "signer (update_queues a b c d u e) = signer e"
  by (simp_all add: update_queues_def)

lemma run_backup_unfold:
  "run_backup C v tag incremental e =
     (case files_to_back_up C incremental e of
        None \<Rightarrow> None
      | Some files \<Rightarrow>
          if files = [] then Some (finish_empty C v (begun v) (snd (start_backup v e)))
          else case process_files C v files (processing v e) of
              None \<Rightarrow> None
            | Some (rs, e1) \<Rightarrow>
                if is_aborted e1 then Some (abort_backup C (begun v) e1)
                else Some (commit_backup C v (begun v) tag (length files) (tally_all rs) e1))"
  unfolding run_backup_def files_to_back_up_def processing_def last_snapshot_time_def
  by (subst start_backup_run) simp

lemma tally_all_stored:
  "all_file_paths (tally_all rs) = stored_paths rs" "t_changed (tally_all rs) = of_nat (length (stored_paths rs))"
  "t_skipped (tally_all rs) + t_changed (tally_all rs) = of_nat (length rs)"
proof -
  note f = fold_tally [of rs "\<lparr>all_file_paths = [], t_changed = 0, t_skipped = 0, t_bytes = 0,
     t_chunks = 0, t_deduped = 0, t_new = 0\<rparr>", folded tally_all_def]
  show "all_file_paths (tally_all rs) = stored_paths rs" "t_changed (tally_all rs) = of_nat (length (stored_paths rs))"
    using f by simp_all
  show "t_skipped (tally_all rs) + t_changed (tally_all rs) = of_nat (length rs)"
    using f [THEN conjunct2, THEN conjunct2, THEN conjunct1] by simp
qed

text \<open>The engine when the commit starts.\<close>

lemma backup_reaches_commit:
  assumes laws: "rs_laws (cr_libs C)" and inv: "engine_inv C content e" and placed: "placed e"
    and files: "files_to_back_up C incremental e = Some files" "files \<noteq> []"
    and sched: "cancelled v = None" "fair v (length files)"
    and dist: "distinct (map (rel_of e) files)"
    and tasks: "tasks_ok C v content (task_list v files) (processing v e)"
  shows "\<exists>rs e1. run_backup C v tag incremental e = Some (commit_backup C v (begun v) tag (length files) (tally_all rs) e1) \<and>
     process_files C v files (processing v e) = Some (rs, e1) \<and>
     all_file_paths (tally_all rs) = map (rel_of e) files \<and> length rs = length files \<and>
     files_stored C content (map (\<lambda>(i, fe). file_content (processing v e) fe) (task_list v files)) (processing v e) e1 \<and>
     placed e1"
proof -
  let ?p = "processing v e"
  have same: "index_db ?p = index_db e" "obj_store ?p = obj_store e" "disk ?p = disk e" "server_root ?p = server_root e"
    "active_transaction ?p = Some (begun v)"
    by (simp_all add: processing_def)
  have rel: "rel_of ?p = rel_of e" by (simp add: fun_eq_iff rel_of_def same)
  have invp: "engine_inv C content ?p" using inv by (simp add: engine_inv_def same)
  have out: "\<forall>fe \<in> set files. outside (obj_store ?p) (fe_path fe)"
    using scan_outside [OF files(1) [unfolded files_to_back_up_def] _ placed] by (simp add: same)
  have "distinct (map (rel_of ?p) files)" using dist by (simp add: rel)
  from process_files_stores [OF laws invp sched tasks this out] obtain rs e1 where
    p: "process_files C v files ?p = Some (rs, e1)" "stored_paths rs = map (rel_of ?p) files" "length rs = length files"
    "files_stored C content (map (\<lambda>(i, fe). file_content ?p fe) (task_list v files)) ?p e1" by blast
  have ex: "\<exists>db s f tr. e1 = ?p\<lparr>index_db := db, obj_store := s, disk := f, transients := tr\<rparr>"
    using p(4) unfolding files_stored_def by blast
  then have "\<not> is_aborted e1" by (auto simp: is_aborted_def same begun_def)
  then have "run_backup C v tag incremental e = Some (commit_backup C v (begun v) tag (length files) (tally_all rs) e1)"
    by (simp add: run_backup_unfold files p(1))
  moreover have "placed e1"
    using files_storedD(5,6) [OF p(4)] ex placed by (auto simp: placed_def same)
  ultimately show ?thesis using p by (auto simp: tally_all_stored rel)
qed

text \<open>What a backup that succeeds leaves: the engine \<open>e1\<close> when the commit starts, and the files.\<close>

lemma backup_outcome:
  assumes "rs_laws (cr_libs C)" and "engine_inv C content e" and "placed e"
    and "files_to_back_up C incremental e = Some files" and "files \<noteq> []"
    and "cancelled v = None" and "fair v (length files)" and "distinct (map (rel_of e) files)"
    and "tasks_ok C v content (task_list v files) (processing v e)" and "CHR ''/'' \<notin> set (uuid8 v)"
    and "run_backup C v tag incremental e = Some (Inr r, e')"
  obtains rs e1 where
    "commit_backup C v (begun v) tag (length files) (tally_all rs) e1 = (Inr r, e')"
    "process_files C v files (processing v e) = Some (rs, e1)"
    "all_file_paths (tally_all rs) = map (rel_of e) files" "length rs = length files"
    "engine_inv C content e1" "placed e1" "server_root e' = server_root e"
    "\<forall>fe \<in> set files. recoverable C e' (rel_of e fe) (bytes_at (disk e) (fe_path fe))"
    "\<forall>p b. p \<notin> rel_of e ` set files \<longrightarrow> recoverable C e p b \<longrightarrow> recoverable C e' p b"
    "get_snapshot_files (cr_index C) (br_snapshot_id r) (index_db e') = Inr (map (rel_of e) files)"
    "engine_inv C content e'"
proof -
  let ?p = "processing v e"
  define ch where "ch = map (\<lambda>(i, fe). file_content ?p fe) (task_list v files)"
  from backup_reaches_commit [OF assms(1-9), of tag] obtain rs e1 where
    run: "run_backup C v tag incremental e = Some (commit_backup C v (begun v) tag (length files) (tally_all rs) e1)"
    and tasks: "process_files C v files ?p = Some (rs, e1)"
    and paths: "all_file_paths (tally_all rs) = map (rel_of e) files" and len: "length rs = length files"
    and st: "files_stored C content ch ?p e1" and pl: "placed e1" unfolding ch_def by blast
  have commit: "commit_backup C v (begun v) tag (length files) (tally_all rs) e1 = (Inr r, e')"
    using run assms(11) by simp
  have inv1: "engine_inv C content e1" by (rule files_storedD(7) [OF st])
  note eff = commit_backup_effect [OF commit inv1 pl assms(10)]
  have same: "disk ?p = disk e" "index_db ?p = index_db e" "obj_store ?p = obj_store e" "server_root ?p = server_root e"
    by (simp_all add: processing_def)
  have fc: "file_content ?p fe = (rel_of e fe, bytes_at (disk e) (fe_path fe))" for fe
    by (simp add: file_content_def same rel_of_def)
  have chs: "set ch = (\<lambda>fe. (rel_of e fe, bytes_at (disk e) (fe_path fe))) ` set files"
  proof -
    have "(\<lambda>i. files ! i) ` {..<length files} = set files" by (auto simp: set_conv_nth)
    moreover have "set ch = (\<lambda>i. (rel_of e (files ! i), bytes_at (disk e) (fe_path (files ! i)))) ` {..<length files}"
      using assms(7) by (simp add: ch_def fc task_list_def fair_def image_image)
    ultimately show ?thesis by (metis (no_types, lifting) image_cong image_image)
  qed
  have "\<exists>db s f tr. e1 = ?p\<lparr>index_db := db, obj_store := s, disk := f, transients := tr\<rparr>"
    using st unfolding files_stored_def by blast
  then have "server_root e1 = server_root e" by (auto simp: same)
  moreover have "server_root e' = server_root e1" by (rule commit_backup_steps [OF commit])
  ultimately have root: "server_root e' = server_root e" by simp
  have "recoverable C ?p = recoverable C e" unfolding fun_eq_iff recoverable_def same by simp
  have 1: "recoverable C e' (rel_of e fe) (bytes_at (disk e) (fe_path fe))" if "fe \<in> set files" for fe
    using files_storedD(1) [OF st, of "rel_of e fe"] that by (simp add: eff(2) chs image_iff) blast
  have "fst ` set ch = rel_of e ` set files" unfolding chs by (simp add: image_image)
  then have 2: "recoverable C e' p b" if "p \<notin> rel_of e ` set files" "recoverable C e p b" for p b
    using files_storedD(2) [OF st, of p b] that by (simp add: eff(2) \<open>recoverable C ?p = recoverable C e\<close>)
  have 3: "get_snapshot_files (cr_index C) (br_snapshot_id r) (index_db e') = Inr (map (rel_of e) files)"
    using eff(3) paths by simp
  show ?thesis by (rule that [OF commit tasks paths len inv1 pl root _ _ 3 eff(1)]) (use 1 2 in blast)+
qed


end
