(* ===== verification/Restore_Correct.thy ===== *)
theory Restore_Correct
  imports Backup_Correct
begin

text \<open>
  What a restore achieves and what it leaves alone: the sandbox it works in, the single file, the
  whole world with its swap, and the check of the manifest's signature.
\<close>

section \<open>The swap\<close>

text \<open>After the swap the world directory holds what the sandbox held, and nothing else has changed
  but the sandbox and the directory for the old world.\<close>

lemma below_append_iff [simp]: "below (p @ a) (p @ b) \<longleftrightarrow> below a b"
  by (auto simp: below_iff)

lemma atomic_swap_effect:
  assumes run: "atomic_swap root sb f = (Inr (), f')" and sb: "sb = root @ ''.obsidian'' # s"
  shows "fs_node f' (root @ ''world'' # t) = fs_node f (sb @ t)"
    and "\<not> below (root @ [''world'']) q \<Longrightarrow> \<not> below (root @ [''world_old_tmp'']) q \<Longrightarrow> \<not> below sb q \<Longrightarrow>
         fs_node f' q = fs_node f q"
    and "faulty f' = faulty f \<and> real_path f' = real_path f"
proof -
  let ?w = "root @ [''world'']" and ?b = "root @ [''world_old_tmp'']"
  have names: "child root ''world'' = ?w" "child root ''world_old_tmp'' = ?b" by (simp_all add: child_name)
  have ok: "proper ?w" "proper ?b" "proper sb"
    by (cases root; simp add: sb proper_def)+
  have apart: "\<not> below ?b ?w" "\<not> below ?w sb" "\<not> below ?b (sb @ u)" "\<not> below ?w (sb @ u)" "\<not> below ?b (?w @ u)" for u
    by (simp_all add: sb, simp_all add: below_def)
  define f1 where "f1 = (if fs_exists f ?w then snd (rename ?w ?b f) else f)"
  have r1: "fs_exists f ?w \<Longrightarrow> rename ?w ?b f = (Inr (), f1)" and r2: "\<exists>f2. rename sb ?w f1 = (Inr (), f2) \<and>
      f' = (if fs_exists f2 ?b then snd (remove_dir_all ?b f2) else f2)"
    using run by (auto simp: atomic_swap_def Let_def names bindS_Inr_iff f1_def split: if_splits)
  then obtain f2 where f2: "rename sb ?w f1 = (Inr (), f2)"
    and f': "f' = (if fs_exists f2 ?b then snd (remove_dir_all ?b f2) else f2)" by blast
  note n2 = rename_node [OF f2 apart(2) ok(3,1)]
  have n1: "\<not> below ?b q \<Longrightarrow> \<not> below ?w q \<Longrightarrow> fs_node f1 q = fs_node f q" for q
    using rename_node(2) [OF r1 apart(1) ok(1,2)] by (auto simp: f1_def)
  have fr1: "faulty f1 = faulty f \<and> real_path f1 = real_path f"
    using rename_node(3,4) [OF r1 apart(1) ok(1,2)] by (auto simp: f1_def)
  have last: "\<not> below ?b q \<Longrightarrow> fs_node f' q = fs_node f2 q" for q
    by (simp add: f' remove_dir_all_node)
  show "fs_node f' (root @ ''world'' # t) = fs_node f (sb @ t)"
    using last [OF apart(5), of t] n2(1) [of t] n1 [OF apart(3,4), of t] by simp
  show "fs_node f' q = fs_node f q" if "\<not> below ?w q" "\<not> below ?b q" "\<not> below sb q"
    using last [OF that(2)] n2(2) [OF that(1)] n1 [OF that(2,1)] that(3) by simp
  show "faulty f' = faulty f \<and> real_path f' = real_path f" using n2(3,4) fr1 by (simp add: f')
qed

section \<open>Before a restore\<close>

text \<open>The sandbox of a call, in the directory of sandboxes.\<close>

definition sandbox_dir :: "'db engine \<Rightarrow> path" where
  "sandbox_dir e = server_root e @ [''.obsidian'', ''sandbox'']"

definition sandbox_of :: "env \<Rightarrow> 'db engine \<Rightarrow> path" where
  "sandbox_of v e = sandbox_dir e @ [''restore_'' @ uuid8 v]"

lemma sandbox_names:
  "child (server_root e) ''.obsidian/sandbox'' = sandbox_dir e"
  "CHR ''/'' \<notin> set (uuid8 v) \<Longrightarrow> child (sandbox_dir e) (''restore_'' @ uuid8 v) = sandbox_of v e"
proof -
  show "child (server_root e) ''.obsidian/sandbox'' = sandbox_dir e"
    by (simp add: child_def join_def path_of_def is_absolute_def sandbox_dir_def)
  show "child (sandbox_dir e) (''restore_'' @ uuid8 v) = sandbox_of v e" if "CHR ''/'' \<notin> set (uuid8 v)"
    unfolding sandbox_of_def by (rule child_name) (use that in auto)
qed

text \<open>Making the sandbox changes no file, and no entry but the directories that lead to it.\<close>

definition only_disk :: "'db engine \<Rightarrow> 'db engine \<Rightarrow> bool" where
  "only_disk e e' = (e' = e\<lparr>disk := disk e'\<rparr> \<and> faulty (disk e') = faulty (disk e) \<and> real_path (disk e') = real_path (disk e))"

lemma only_disk_trans: "only_disk e e1 \<Longrightarrow> only_disk e1 e2 \<Longrightarrow> only_disk e e2"
  unfolding only_disk_def by (cases e; cases e1; cases e2) simp

lemma only_disk_fields:
  "only_disk e e' \<Longrightarrow> index_db e' = index_db e \<and> obj_store e' = obj_store e \<and> server_root e' = server_root e \<and>
     config e' = config e \<and> snapshots e' = snapshots e \<and> signer e' = signer e \<and> sys e' = sys e \<and>
     active_transaction e' = active_transaction e \<and> transients e' = transients e"
  unfolding only_disk_def by (cases e; cases e') simp

lemma on_disk_step: "on_disk m e = (r, e') \<Longrightarrow> \<exists>f. m (disk e) = (r, f) \<and> e' = e\<lparr>disk := f\<rparr>"
  by (auto simp: on_disk_def split: prod.splits)

lemma made_dir:
  assumes "on_disk (create_dir_all p) e = (r, e')"
  shows "only_disk e e'" and "fs_read (disk e') q = fs_read (disk e) q" and "\<not> below q p \<Longrightarrow> fs_node (disk e') q = fs_node (disk e) q"
    and "r = Inr () \<Longrightarrow> is_dir (disk e') p" and "is_dir (disk e) q \<Longrightarrow> is_dir (disk e') q"
proof -
  obtain f where f: "create_dir_all p (disk e) = (r, f)" and e': "e' = e\<lparr>disk := f\<rparr>"
    using on_disk_step [OF assms] by blast
  note fr = create_dir_all_frame [OF f]
  show "only_disk e e'" using fr by (simp add: only_disk_def e')
  show "fs_read (disk e') q = fs_read (disk e) q" using fr by (simp add: e')
  show "fs_node (disk e') q = fs_node (disk e) q" if "\<not> below q p" using create_dir_all_node [OF f that] by (simp add: e')
  show "is_dir (disk e') p" if "r = Inr ()" using create_dir_all_dir [of p "disk e" f] f that by (simp add: e')
  show "is_dir (disk e') q" if "is_dir (disk e) q" using fr that by (simp add: e')
qed

text \<open>What the checks establish: the sandbox exists, no file has changed, and the signature of the
  manifest on disk is missing or right.\<close>

lemma prepare_restore_effect:
  assumes run: "prepare_restore C v i e = (r, e')" and name: "CHR ''/'' \<notin> set (uuid8 v)"
  shows "only_disk e e' \<and> (\<forall>q. fs_read (disk e') q = fs_read (disk e) q) \<and>
      (\<forall>q. \<not> below q (sandbox_of v e) \<longrightarrow> fs_node (disk e') q = fs_node (disk e) q) \<and>
      (\<forall>sb. r = Inr sb \<longrightarrow> sb = sandbox_of v e \<and> is_dir (disk e') sb \<and>
        (\<exists>m. fs_read_to_string (disk e') (manifest_path e i) = Inr m \<and>
             verify_manifest_signature (cr_sign C) e' i m = Inr ()))"
proof (cases "all_chars C ''_-'' i \<and> fs_exists (disk e) (manifest_path e i)")
  case True
  let ?sb = "sandbox_of v e"
  obtain r1 e1 where 1: "on_disk (create_dir_all (sandbox_dir e)) e = (r1, e1)" by fastforce
  obtain r2 e2 where 2: "on_disk (create_dir_all ?sb) e1 = (r2, e2)" by fastforce
  note d1 = made_dir [OF 1] and d2 = made_dir [OF 2]
  have q: "\<not> below q (sandbox_dir e)" if "\<not> below q ?sb" for q
    using that by (auto simp: below_iff sandbox_of_def)
  have c: "sandbox_of v e1 = ?sb" if "only_disk e e1" using only_disk_fields [OF that] by (simp add: sandbox_of_def sandbox_dir_def)
  have frame: "only_disk e e2" "fs_read (disk e2) q = fs_read (disk e) q"
    "\<not> below q ?sb \<Longrightarrow> fs_node (disk e2) q = fs_node (disk e) q" for q
    using only_disk_trans [OF d1(1) d2(1)] d1(2) d2(2) d1(3) [OF q] d2(3) by auto
  have frame1: "\<not> below q ?sb \<Longrightarrow> fs_node (disk e1) q = fs_node (disk e) q" for q using d1(3) [OF q] by auto
  have run': "prepare_restore C v i e = bindS (on_disk (create_dir_all (sandbox_dir e))) (\<lambda>_.
          bindS (on_disk (create_dir_all ?sb)) (\<lambda>_.
          bindS (readS (\<lambda>e0. fs_read_to_string (disk e0) (manifest_path e i))) (\<lambda>manifest_str.
          bindS (readS (\<lambda>e. verify_manifest_signature (cr_sign C) e i manifest_str)) (\<lambda>_.
          bindS (liftS (json_parse (cr_index C) (bytes_of manifest_str))) (\<lambda>_.
          returnS ?sb))))) e"
    unfolding prepare_restore_def Let_def sandbox_names(1) sandbox_names(2) [OF name]
    using True by (simp add: manifest_path_def)
  show ?thesis
  proof (cases r1)
    case Inl
    then have "r = Inl (projl r1) \<and> e' = e1" using run run' 1 by simp
    then show ?thesis using d1(1,2) frame1 by auto
  next
    case (Inr u1)
    show ?thesis
    proof (cases r2)
      case Inl
      then have "r = Inl (projl r2) \<and> e' = e2" using run run' 1 2 Inr by simp
      then show ?thesis using frame by auto
    next
      case (Inr u2)
      have e': "e' = e2" and ok: "r = Inr sb \<Longrightarrow> sb = ?sb \<and>
          (\<exists>m. fs_read_to_string (disk e2) (manifest_path e i) = Inr m \<and> verify_manifest_signature (cr_sign C) e2 i m = Inr ())" for sb
        using run run' 1 2 \<open>r1 = Inr u1\<close> Inr
        by (auto simp: bindS_def readS_def liftS_def returnS_def split: sum.splits)
      have "is_dir (disk e2) ?sb" using d2(4) Inr by simp
      then show ?thesis using frame ok by (auto simp: e')
    qed
  qed
next
  case False
  then have "\<exists>x. prepare_restore C v i e = (Inl x, e)"
    unfolding prepare_restore_def Let_def manifest_path_def [symmetric] by auto
  then show ?thesis using run by (auto simp: only_disk_def)
qed

section \<open>Safe paths\<close>

text \<open>The components that a user's path adds to the directory it is joined to.\<close>

definition rel_comps :: "string \<Rightarrow> path" where
  "rel_comps u = filter (\<lambda>c. c \<noteq> ''.'') (path_of u)"

definition safe_name :: "string \<Rightarrow> bool" where
  "safe_name u = (u \<noteq> [] \<and> \<not> substring ''..'' u \<and> hd u \<noteq> CHR ''/'' \<and> hd u \<noteq> CHR 0x5C)"

lemma split_on_free: "x \<in> set (split_on c s) \<Longrightarrow> c \<notin> set x"
  by (induction s arbitrary: x) (auto split: if_splits list.splits)

lemma path_of_relative:
  assumes "u \<noteq> []" and "hd u \<noteq> CHR ''/''"
  shows "\<not> is_absolute (path_of u)"
proof -
  have "''/'' \<notin> set (split_on (CHR ''/'') u)" using split_on_free by fastforce
  then have "c \<noteq> ''/''" if "filter (\<lambda>c. c \<noteq> []) (split_on (CHR ''/'') u) = c # cs" for c cs
    using arg_cong [OF that, of set] by auto
  then show ?thesis using assms by (auto simp: path_of_def is_absolute_def Let_def split: list.splits)
qed

lemma validate_safe_path_Inr:
  "validate_safe_path f base u = Inr q \<Longrightarrow> safe_name u \<and> q = base @ rel_comps u"
  by (auto simp: validate_safe_path_def Let_def safe_name_def join_def rel_comps_def split: if_splits sum.splits)

text \<open>Where no symbolic link is on the way, every safe name is accepted.\<close>

lemma validate_no_links:
  assumes "\<And>q. real_path f q = q" and "safe_name u"
  shows "validate_safe_path f base u = Inr (base @ rel_comps u)"
proof -
  have "canonicalize f q = Inr q \<or> canonicalize f q = Inl IoError" for q using assms(1) by (simp add: canonicalize_def)
  then have c: "(case canonicalize f q of Inr q' \<Rightarrow> q' | Inl x \<Rightarrow> q) = q" for q by (metis sum.simps(5,6))
  have r: "\<not> is_absolute (path_of u)" using assms(2) by (intro path_of_relative) (simp_all add: safe_name_def)
  then have j: "join base (path_of u) = base @ rel_comps u" by (simp add: join_def rel_comps_def)
  then show ?thesis using assms(2) r
    unfolding validate_safe_path_def Let_def c by (simp add: safe_name_def path_starts_with_def)
qed

text \<open>Under a relative directory that exists, nothing that does not exist yet is accepted: the real
  location of the directory is absolute, the path below it stays relative.\<close>

lemma validate_relative:
  assumes "\<And>q. is_absolute (real_path f q)" and "\<not> is_absolute base" "base \<noteq> []" and "fs_exists f base"
    and "validate_safe_path f base u = Inr q"
  shows "fs_exists f q"
proof (rule ccontr)
  assume n: "\<not> fs_exists f q"
  have u: "\<not> is_absolute (path_of u)" "q = join base (path_of u)"
    using assms(5) by (auto simp: validate_safe_path_def Let_def split: if_splits sum.splits)
  have b: "canonicalize f base = Inr (real_path f base)" using assms(4) by (simp add: canonicalize_def)
  have r: "canonicalize f (join base (path_of u)) = Inl IoError" using n by (simp add: canonicalize_def u(2))
  have "path_starts_with q (real_path f base)"
    using assms(5) u(2) by (auto simp: validate_safe_path_def Let_def b r split: if_splits)
  moreover have "q = base @ rel_comps u" using validate_safe_path_Inr [OF assms(5)] by simp
  moreover obtain c cs where "real_path f base = ''/'' # cs"
    using assms(1) [of base] by (cases "real_path f base") (auto simp: is_absolute_def)
  ultimately show False using assms(2,3) by (cases base) (auto simp: path_starts_with_def is_absolute_def)
qed

section \<open>Writing into the sandbox\<close>

lemma write_dest_effect:
  assumes "on_disk (write_dest dest data) e = (r, e')"
  shows "only_disk e e'" and "fs_read (disk e') q = (if r = Inr () \<and> q = dest then Inr data else fs_read (disk e) q)"
    and "\<not> below q dest \<Longrightarrow> fs_node (disk e') q = fs_node (disk e) q"
    and "r = Inr () \<Longrightarrow> fs_node (disk e') q = Some (File b) \<longleftrightarrow> (if q = dest then b = data else fs_node (disk e) q = Some (File b))"
    and "r = Inr () \<Longrightarrow> \<not> is_dir (disk e) dest" and "is_dir (disk e) q \<Longrightarrow> is_dir (disk e') q"
proof -
  obtain f where f: "write_dest dest data (disk e) = (r, f)" and e': "e' = e\<lparr>disk := f\<rparr>"
    using on_disk_step [OF assms] by blast
  obtain r1 f1 where 1: "create_dir_all (parent dest) (disk e) = (r1, f1)" by fastforce
  note fr = create_dir_all_frame [OF 1]
  have n1: "\<not> below q dest \<Longrightarrow> fs_node f1 q = fs_node (disk e) q" for q
    using create_dir_all_node [OF 1, of q] by (auto simp: below_iff parent_def) (metis append.right_neutral append_assoc append_butlast_last_id butlast.simps(1))
  have "only_disk e e' \<and> fs_read f q = (if r = Inr () \<and> q = dest then Inr data else fs_read (disk e) q) \<and>
    (\<not> below q dest \<longrightarrow> fs_node f q = fs_node (disk e) q) \<and>
    (r = Inr () \<longrightarrow> (fs_node f q = Some (File b) \<longleftrightarrow> (if q = dest then b = data else fs_node (disk e) q = Some (File b)))) \<and>
    (r = Inr () \<longrightarrow> \<not> is_dir (disk e) dest) \<and> (is_dir (disk e) q \<longrightarrow> is_dir f q)" for q b
  proof (cases r1)
    case (Inr u)
    then have w: "fs_write dest data f1 = (r, f)" using f 1 by (simp add: write_dest_def)
    show ?thesis
    proof (cases r)
      case (Inr u)
      with w have w: "fs_write dest data f1 = (Inr (), f)" by simp
      have "below dest dest" by (simp add: below_def)
      then show ?thesis
        using fr n1 fs_write_frame [OF w] fs_write_InrD(3) [OF w] Inr
        by (auto simp: only_disk_def e' fs_read_write [OF w] fs_node_write [OF w] is_dir_write [OF w])
    next
      case (Inl x)
      then have "f = f1" using w by (auto simp: fs_write_def split: if_splits)
      then show ?thesis using Inl fr n1 by (simp add: only_disk_def e')
    qed
  next
    case (Inl x)
    then have "f = f1 \<and> r = Inl x" using f 1 by (simp add: write_dest_def)
    then show ?thesis using fr n1 by (simp add: only_disk_def e')
  qed
  then show "only_disk e e'" and "fs_read (disk e') q = (if r = Inr () \<and> q = dest then Inr data else fs_read (disk e) q)"
    and "\<not> below q dest \<Longrightarrow> fs_node (disk e') q = fs_node (disk e) q"
    and "r = Inr () \<Longrightarrow> fs_node (disk e') q = Some (File b) \<longleftrightarrow> (if q = dest then b = data else fs_node (disk e) q = Some (File b))"
    and "r = Inr () \<Longrightarrow> \<not> is_dir (disk e) dest" and "is_dir (disk e) q \<Longrightarrow> is_dir (disk e') q" by (simp_all add: e')
qed

section \<open>Restoring one file\<close>

lemma gather_same:
  "(\<And>q. fs_read f' q = fs_read f q) \<Longrightarrow> gather s f' hs = gather s f hs"
  by (rule gather_inside) (rule read_object_cong, simp_all)

lemma restore_file_effect:
  assumes run: "restore_file C sb target e = (r, e')"
  shows "only_disk e e' \<and> (\<forall>q. \<not> (r \<noteq> Inl (projl r) \<and> q = sb @ rel_comps target) \<longrightarrow> fs_read (disk e') q = fs_read (disk e) q) \<and>
    (\<forall>x. r = Inr x \<longrightarrow> (\<exists>data. recoverable C e target data \<and> fs_read (disk e') (sb @ rel_comps target) = Inr data \<and>
       rr_bytes_restored x = of_nat (length data) \<and> rr_files_restored x = 1))"
proof (cases "validate_safe_path (disk e) sb target")
  case (Inr dest)
  note dest = validate_safe_path_Inr [OF Inr]
  show ?thesis
  proof (cases "\<exists>hs data. get_file_chunks (cr_index C) target (index_db e) = Inr hs \<and> gather (obj_store e) (disk e) hs = (data, False)")
    case True
    then obtain hs data where hs: "get_file_chunks (cr_index C) target (index_db e) = Inr hs"
      and data: "gather (obj_store e) (disk e) hs = (data, False)" by blast
    obtain r1 e1 where 1: "on_disk (write_dest dest data) e = (r1, e1)" by fastforce
    note w = write_dest_effect [OF 1]
    have rec: "recoverable C e target data" by (simp add: recoverable_def hs data)
    have "e' = e1 \<and> (case r1 of Inl x \<Rightarrow> r = Inl x | Inr u \<Rightarrow> r = Inr \<lparr>rr_files_restored = 1,
        rr_bytes_restored = of_nat (length data), rr_files_missing_chunks = [], rr_sandbox_used = True\<rparr>)"
      using run 1 by (cases r1) (simp_all add: restore_file_def Inr hs data returnS_def)
    then show ?thesis using w(1,2) rec dest by (cases r1) auto
  next
    case False
    then have "(\<exists>x. r = Inl x) \<and> e' = e"
      using run by (auto simp: restore_file_def Inr split: sum.splits prod.splits bool.splits)
    then show ?thesis by (auto simp: only_disk_def)
  qed
next
  case (Inl x)
  then show ?thesis using run by (auto simp: restore_file_def only_disk_def)
qed


text \<open>A path that the index does not know has no chunks, so a restore of it writes an empty file and
  reports success.  The indexed paths start with the name of a world, so this is what a restore of
  a region by its coordinate does.\<close>

lemma unknown_path_empty:
  assumes "index_ok (cr_index C) (index_db e)" and "recoverable C e p b" and "st_files (abs_index (cr_index C) (index_db e)) p = Inr []"
  shows "b = []"
  using assms(2,3) by (simp add: recoverable_def get_file_chunks_ok [OF assms(1)])

section \<open>Restoring the world\<close>

text \<open>What the code writes for a file: the data of the chunks it can read; and whether one is lost.\<close>

definition file_data :: "'db crates \<Rightarrow> 'db engine \<Rightarrow> string \<Rightarrow> bytes" where
  "file_data C e p = (case get_file_chunks (cr_index C) p (index_db e) of
     Inl x \<Rightarrow> [] | Inr hs \<Rightarrow> fst (gather (obj_store e) (disk e) hs))"

definition file_lost :: "'db crates \<Rightarrow> 'db engine \<Rightarrow> string \<Rightarrow> bool" where
  "file_lost C e p = (case get_file_chunks (cr_index C) p (index_db e) of
     Inl x \<Rightarrow> True | Inr hs \<Rightarrow> snd (gather (obj_store e) (disk e) hs))"

lemma file_data_recoverable: "recoverable C e p b \<Longrightarrow> file_data C e p = b \<and> \<not> file_lost C e p"
  by (auto simp: recoverable_def file_data_def file_lost_def split: sum.splits)

lemma file_data_same:
  assumes "only_disk e e'" and "store_inv (obj_store e)" and "\<And>q. \<not> outside (obj_store e) q \<Longrightarrow> fs_read (disk e') q = fs_read (disk e) q"
  shows "file_data C e' p = file_data C e p" "file_lost C e' p = file_lost C e p"
  using only_disk_fields [OF assms(1)] gather_inside [OF fun_cong [OF read_object_inside [OF assms(2,3)]]]
  by (simp_all add: file_data_def file_lost_def split: sum.splits)

lemma restore_all_step:
  assumes "restore_all C sb (p # ps) r e = (Inr r', e')" and "validate_safe_path (disk e) sb p = Inr dest"
  obtains e1 where "on_disk (write_dest dest (file_data C e p)) e = (Inr (), e1)"
    and "restore_all C sb ps (r\<lparr>rr_files_missing_chunks := rr_files_missing_chunks r @ (if file_lost C e p then [p] else []),
           rr_bytes_restored := rr_bytes_restored r + of_nat (length (file_data C e p)),
           rr_files_restored := rr_files_restored r + 1\<rparr>) e1 = (Inr r', e')"
  using assms by (auto simp: file_data_def file_lost_def bindS_Inr_iff split: sum.splits prod.splits)

text \<open>The sandbox lies beside the store.\<close>

lemma sandbox_outside: "placed e \<Longrightarrow> outside (obj_store e) (sandbox_of v e @ t)"
  by (simp add: outside_def placed_def below_def sandbox_of_def sandbox_dir_def)

text \<open>The files of the sandbox after the loop: those it has written, over those that were there.\<close>

lemma restore_all_effect:
  assumes "restore_all C sb ps r e = (Inr r', e')" and "\<And>q. real_path (disk e) q = q" and "list_all safe_name ps"
    and "distinct (map rel_comps ps)" and "store_inv (obj_store e)" and "\<And>t. outside (obj_store e) (sb @ t)"
  shows "only_disk e e' \<and> (\<forall>q. \<not> below sb q \<longrightarrow> fs_read (disk e') q = fs_read (disk e) q) \<and>
    (\<forall>t b. fs_node (disk e') (sb @ t) = Some (File b) \<longleftrightarrow>
       (\<exists>p \<in> set ps. t = rel_comps p \<and> b = file_data C e p) \<or> t \<notin> rel_comps ` set ps \<and> fs_node (disk e) (sb @ t) = Some (File b)) \<and>
    rr_files_restored r' = rr_files_restored r + of_nat (length ps) \<and>
    rr_files_missing_chunks r' = rr_files_missing_chunks r @ filter (file_lost C e) ps"
  using assms
proof (induction ps arbitrary: r e)
  case Nil
  then show ?case by (simp add: only_disk_def)
next
  case (Cons p ps)
  have v: "validate_safe_path (disk e) sb p = Inr (sb @ rel_comps p)"
    using validate_no_links [of "disk e" p sb] Cons.prems(2,3) by simp
  obtain e1 where 1: "on_disk (write_dest (sb @ rel_comps p) (file_data C e p)) e = (Inr (), e1)"
    and 2: "restore_all C sb ps (r\<lparr>rr_files_missing_chunks := rr_files_missing_chunks r @ (if file_lost C e p then [p] else []),
           rr_bytes_restored := rr_bytes_restored r + of_nat (length (file_data C e p)),
           rr_files_restored := rr_files_restored r + 1\<rparr>) e1 = (Inr r', e')"
    using restore_all_step [OF Cons.prems(1) v] by blast
  note w = write_dest_effect [OF 1]
  note o1 = only_disk_fields [OF w(1)]
  have rd: "\<not> outside (obj_store e) q \<Longrightarrow> fs_read (disk e1) q = fs_read (disk e) q" for q
    using w(2) [of q] Cons.prems(6) [of "rel_comps p"] by auto
  note same = file_data_same [OF w(1) Cons.prems(5) rd]
  have rp: "real_path (disk e1) q = q" for q using w(1) Cons.prems(2) by (simp add: only_disk_def)
  have IH: "only_disk e1 e' \<and> (\<forall>q. \<not> below sb q \<longrightarrow> fs_read (disk e') q = fs_read (disk e1) q) \<and>
    (\<forall>t b. fs_node (disk e') (sb @ t) = Some (File b) \<longleftrightarrow>
       (\<exists>p \<in> set ps. t = rel_comps p \<and> b = file_data C e p) \<or> t \<notin> rel_comps ` set ps \<and> fs_node (disk e1) (sb @ t) = Some (File b)) \<and>
    rr_files_restored r' = rr_files_restored r + 1 + of_nat (length ps) \<and>
    rr_files_missing_chunks r' = rr_files_missing_chunks r @ (if file_lost C e p then [p] else []) @ filter (file_lost C e) ps"
    using Cons.IH [OF 2 rp] Cons.prems(3,4,5,6) o1 by (simp add: same)
  have new: "rel_comps p \<notin> rel_comps ` set ps" using Cons.prems(4) by auto
  have "only_disk e e'" using only_disk_trans [OF w(1)] IH by blast
  moreover have "\<not> below sb q \<Longrightarrow> fs_read (disk e') q = fs_read (disk e) q" for q
    using IH w(2) [of q] by auto
  moreover have "fs_node (disk e') (sb @ t) = Some (File b) \<longleftrightarrow>
       (\<exists>p \<in> set (p # ps). t = rel_comps p \<and> b = file_data C e p) \<or>
       t \<notin> rel_comps ` set (p # ps) \<and> fs_node (disk e) (sb @ t) = Some (File b)" for t b
    using IH w(4) [of "sb @ t" b] new by (cases "t = rel_comps p") auto
  ultimately show ?case using IH by auto
qed

lemma restore_all_only_disk: "restore_all C sb ps r e = (r', e') \<Longrightarrow> only_disk e e'"
proof (induction ps arbitrary: r e)
  case (Cons p ps)
  show ?case
  proof (cases "get_file_chunks (cr_index C) p (index_db e)")
    case (Inr hs)
    obtain data lost where g: "gather (obj_store e) (disk e) hs = (data, lost)" by fastforce
    show ?thesis
    proof (cases "validate_safe_path (disk e) sb p")
      case (Inr dest)
      obtain r1 e1 where 1: "on_disk (write_dest dest data) e = (r1, e1)" by fastforce
      have "e' = e1 \<or> (\<exists>r2. restore_all C sb ps r2 e1 = (r', e'))"
        using Cons.prems 1 by (cases r1) (auto simp: \<open>get_file_chunks _ _ _ = _\<close> g Inr)
      then show ?thesis using write_dest_effect(1) [OF 1] Cons.IH only_disk_trans by blast
    qed (use Cons in \<open>simp add: Inr g\<close>)
  qed (use Cons in \<open>simp add: only_disk_def\<close>)
qed (simp add: only_disk_def)

lemma restore_world_steps:
  assumes run: "restore C v i None None e = (Inr r, e')" and name: "CHR ''/'' \<notin> set (uuid8 v)"
    and swap: "cfg_atomic_swap (config e)" and files: "get_all_files (cr_index C) (index_db e) = Inr ps"
  obtains e1 e2 f where "prepare_restore C v i e = (Inr (sandbox_of v e), e1)"
    "restore_all C (sandbox_of v e) ps empty_restore e1 = (Inr r, e2)"
    "atomic_swap (server_root e) (sandbox_of v e) (disk e2) = (Inr (), f)" "e' = e2\<lparr>disk := f\<rparr>"
proof -
  obtain r1 e1 where 1: "prepare_restore C v i e = (r1, e1)" by fastforce
  note p = prepare_restore_effect [OF 1 name]
  have r1: "r1 = Inr (sandbox_of v e)"
    using run 1 p by (cases r1) (auto simp: restore_def)
  note o1 = only_disk_fields [of e e1]
  have f1: "get_all_files (cr_index C) (index_db e1) = Inr ps" using p o1 files by simp
  obtain r2 e2 where 2: "restore_all C (sandbox_of v e) ps empty_restore e1 = (r2, e2)" by fastforce
  have c: "config e2 = config e" "server_root e2 = server_root e"
    using only_disk_fields [OF restore_all_only_disk [OF 2]] p o1 by simp_all
  have "r2 = Inr r \<and> (\<exists>f. atomic_swap (server_root e) (sandbox_of v e) (disk e2) = (Inr (), f) \<and> e' = e2\<lparr>disk := f\<rparr>)"
    using run 1 2 f1 r1 swap
    by (cases r2) (auto simp: restore_def bindS_Inr_iff readS_def returnS_def c on_disk_def split: prod.splits)
  then show ?thesis using that 1 2 r1 by blast
qed

text \<open>C18: restoring the world.  When a full restore with the swap reports success, the files below the
  directory \<open>world\<close> are exactly the files of the index, each with the data the store holds for it,
  under the path the index has for it; the report counts them and lists those that lost a chunk.
  No other file has changed, but those of the sandbox and of the directory for the old world.

  The index has paths relative to the server directory, so the file \<open>world/level.dat\<close> ends up as
  \<open>world/world/level.dat\<close>; and the files are those of the whole index, whichever snapshot was named.\<close>

theorem full_restore_places:
  assumes run: "restore C v i None None e = (Inr r, e')" and name: "CHR ''/'' \<notin> set (uuid8 v)"
    and swap: "cfg_atomic_swap (config e)" and files: "get_all_files (cr_index C) (index_db e) = Inr ps"
    and links: "\<And>q. real_path (disk e) q = q" and safe: "list_all safe_name ps" "distinct (map rel_comps ps)"
    and inv: "engine_inv C content e" "placed e" and fresh: "\<And>t. fs_node (disk e) (sandbox_of v e @ t) = None"
  shows "(\<forall>t b. fs_node (disk e') (server_root e @ ''world'' # t) = Some (File b) \<longleftrightarrow>
       (\<exists>p \<in> set ps. t = rel_comps p \<and> b = file_data C e p)) \<and>
    rr_files_restored r = of_nat (length ps) \<and> rr_files_missing_chunks r = filter (file_lost C e) ps \<and>
    (\<forall>q. fs_read (disk e') q \<noteq> fs_read (disk e) q \<longrightarrow> below (server_root e @ [''world'']) q \<or>
       below (server_root e @ [''world_old_tmp'']) q \<or> below (sandbox_of v e) q)"
proof -
  let ?sb = "sandbox_of v e"
  obtain e1 e2 f where 1: "prepare_restore C v i e = (Inr ?sb, e1)"
    and 2: "restore_all C ?sb ps empty_restore e1 = (Inr r, e2)"
    and 3: "atomic_swap (server_root e) ?sb (disk e2) = (Inr (), f)" and e': "e' = e2\<lparr>disk := f\<rparr>"
    using restore_world_steps [OF run name swap files] by blast
  note p = prepare_restore_effect [OF 1 name]
  have o1: "obj_store e1 = obj_store e" using p only_disk_fields by blast
  have s: "store_inv (obj_store e)" using inv(1) by (simp add: engine_inv_def data_inv_def faithful_def)
  have rp: "real_path (disk e1) q = q" for q using p links by (simp add: only_disk_def)
  note same = file_data_same [of e e1 C, OF _ s]
  have same: "file_data C e1 p = file_data C e p" "file_lost C e1 p = file_lost C e p" for p
    using same [of p] p by auto
  have lost: "file_lost C e1 = file_lost C e" by (rule ext) (rule same)
  have all: "only_disk e1 e2 \<and> (\<forall>q. \<not> below ?sb q \<longrightarrow> fs_read (disk e2) q = fs_read (disk e1) q) \<and>
    (\<forall>t b. fs_node (disk e2) (?sb @ t) = Some (File b) \<longleftrightarrow>
       (\<exists>p \<in> set ps. t = rel_comps p \<and> b = file_data C e p) \<or> t \<notin> rel_comps ` set ps \<and> fs_node (disk e1) (?sb @ t) = Some (File b)) \<and>
    rr_files_restored r = of_nat (length ps) \<and> rr_files_missing_chunks r = filter (file_lost C e) ps"
    using restore_all_effect [OF 2 rp safe] sandbox_outside [OF inv(2)] s o1
    by (simp add: same lost empty_restore_def)
  have new: "fs_node (disk e1) (?sb @ t) \<noteq> Some (File b)" for t b
    using p fresh [of t] by (cases "t = []") (auto simp: is_dir_def below_iff)
  have sb: "?sb = server_root e @ ''.obsidian'' # [''sandbox'', ''restore_'' @ uuid8 v]"
    unfolding sandbox_of_def sandbox_dir_def by (simp only: append_assoc append_Cons append_Nil)
  note sw = atomic_swap_effect [OF 3 sb]
  have "below (server_root e @ [''world'']) q \<or> below (server_root e @ [''world_old_tmp'']) q \<or> below ?sb q"
    if "fs_read f q \<noteq> fs_read (disk e) q" for q
  proof (rule ccontr)
    assume "\<not> ?thesis"
    then have n: "\<not> below (server_root e @ [''world'']) q" "\<not> below (server_root e @ [''world_old_tmp'']) q" "\<not> below ?sb q" by blast+
    have "fs_read f q = fs_read (disk e2) q"
      using sw(2) [OF n] sw(3) by (simp add: fs_read_def split: option.split node.split)
    also have "\<dots> = fs_read (disk e) q" using all n(3) p by simp
    finally show False using that by simp
  qed
  moreover have "\<forall>t b. fs_node f (server_root e @ ''world'' # t) = Some (File b) \<longleftrightarrow> (\<exists>p \<in> set ps. t = rel_comps p \<and> b = file_data C e p)"
    unfolding sw(1) using all new by blast
  ultimately show ?thesis using all by (simp add: e')
qed

text \<open>C23: a relative server directory, which is the default of the daemon.  The location of the sandbox
  is absolute, the paths in it that do not exist yet stay relative, so no path passes the check; a
  full restore that reports success has then restored no file and has left an empty \<open>world\<close>.\<close>

theorem relative_root_empties_world:
  assumes run: "restore C v i None None e = (Inr r, e')" and name: "CHR ''/'' \<notin> set (uuid8 v)"
    and swap: "cfg_atomic_swap (config e)" and files: "get_all_files (cr_index C) (index_db e) = Inr ps"
    and relative: "\<not> is_absolute (server_root e)" and real: "\<And>q. is_absolute (real_path (disk e) q)"
    and fresh: "\<And>t. fs_node (disk e) (sandbox_of v e @ t) = None"
  shows "rr_files_restored r = 0 \<and> (\<forall>t b. fs_node (disk e') (server_root e @ ''world'' # t) \<noteq> Some (File b))"
proof -
  let ?sb = "sandbox_of v e"
  obtain e1 e2 f where 1: "prepare_restore C v i e = (Inr ?sb, e1)"
    and 2: "restore_all C ?sb ps empty_restore e1 = (Inr r, e2)"
    and 3: "atomic_swap (server_root e) ?sb (disk e2) = (Inr (), f)" and e': "e' = e2\<lparr>disk := f\<rparr>"
    using restore_world_steps [OF run name swap files] by blast
  note p = prepare_restore_effect [OF 1 name]
  have sbdir: "is_dir (disk e1) ?sb" and real1: "\<And>q. is_absolute (real_path (disk e1) q)"
    using p real by (simp_all add: only_disk_def)
  have new: "\<not> fs_exists (disk e1) (?sb @ t)" if "t \<noteq> []" for t
    using p fresh [of t] that by (auto simp: fs_exists_def below_iff)
  have rel: "\<not> is_absolute ?sb" "?sb \<noteq> []"
    using relative by (cases "server_root e"; simp add: sandbox_of_def sandbox_dir_def is_absolute_def)+
  have "restore_all C ?sb ps r0 e1 = (Inr r, e2) \<Longrightarrow> e2 = e1 \<and> r = r0" for r0
  proof (induction ps arbitrary: r0)
    case (Cons p ps)
    show ?case
    proof (cases "validate_safe_path (disk e1) ?sb p")
      case (Inr dest)
      have "fs_exists (disk e1) dest"
        by (rule validate_relative [OF real1 rel _ Inr]) (use sbdir in \<open>simp add: fs_exists_def is_dir_def\<close>)
      then have "dest = ?sb" using validate_safe_path_Inr [OF Inr] new by auto
      obtain e3 where "on_disk (write_dest dest (file_data C e1 p)) e1 = (Inr (), e3)"
        using restore_all_step [OF Cons.prems Inr] by blast
      from write_dest_effect(5) [OF this] sbdir \<open>dest = ?sb\<close> show ?thesis by simp
    next
      case (Inl x)
      then show ?thesis using Cons by (simp split: sum.splits prod.splits)
    qed
  qed simp
  from this [OF 2] have same: "e2 = e1" "r = empty_restore" by simp_all
  have sb: "?sb = server_root e @ ''.obsidian'' # [''sandbox'', ''restore_'' @ uuid8 v]"
    unfolding sandbox_of_def sandbox_dir_def by (simp only: append_assoc append_Cons append_Nil)
  have "fs_node (disk e1) (?sb @ t) \<noteq> Some (File b)" for t b
    using sbdir new [of t] by (cases "t = []") (auto simp: is_dir_def fs_exists_def)
  then show ?thesis using atomic_swap_effect(1) [OF 3 sb] same by (simp add: e' empty_restore_def)
qed

section \<open>Signatures\<close>

lemma manifest_wf: "json_wf (manifest_of e v tag n t)"
  by (simp add: manifest_of_def split: option.split)

lemma b64_utf8:
  assumes "list_all b64_char s" shows "utf8_valid (bytes_of s)"
proof (rule utf8_valid_ascii)
  have "(of_char c :: nat) < 128" if "b64_char c" for c using that by (auto simp: b64_char_def Let_def)
  moreover have "(of_nat k :: u8) < 128" if "k < 128" for k
    using that by (simp add: word_less_nat_alt unat_of_nat)
  ultimately show "list_all (\<lambda>b. b < 128) (bytes_of s)" using assms by (auto simp: bytes_of_def list_all_iff)
qed

lemma public_key_bytes_same:
  "only_disk e e' \<Longrightarrow> (\<And>q. fs_read (disk e') q = fs_read (disk e) q) \<Longrightarrow> public_key_bytes S e' = public_key_bytes S e"
  using only_disk_fields [of e e'] by (simp add: public_key_bytes_def split: option.split)

lemma signature_accepted:
  assumes "sign_laws S" and "signer e = Some sg"
    and "fs_read (disk e) (sig_path e i) = Inr (bytes_of (sign S sg (bytes_of m)))"
  shows "verify_manifest_signature S e i m = Inr ()"
proof -
  have "list_all b64_char (sign S sg (bytes_of m))" using assms(1) by (simp add: sign_laws_def sign_def)
  then have "fs_read_to_string (disk e) (sig_path e i) = Inr (sign S sg (bytes_of m))"
    using assms(3) b64_utf8 by (simp add: fs_read_to_string_def codec_simps)
  moreover have "verify_signature S (bytes_of m) (sign S sg (bytes_of m)) (verifying_key_bytes S sg)"
    using assms(1) by (simp add: verify_signature_def sign_def verifying_key_bytes_def sign_laws_def trim_b64
        SIGNATURE_SIZE_def KEY_SIZE_def)
  ultimately show ?thesis
    unfolding verify_manifest_signature_def Let_def sig_path_def [symmetric] by (simp add: public_key_bytes_def assms(2))
qed

text \<open>C19: what a backup signs, a restore accepts.  After a commit by an engine that signs, the manifest
  on disk can be read and its signature on disk verifies.\<close>

theorem committed_manifest_verifies:
  assumes run: "commit_backup C v tx tag n t e = (Inr r, e')" and inv: "engine_inv C content e" "placed e"
    and uuid: "CHR ''/'' \<notin> set (uuid8 v)" and laws: "sign_laws (cr_sign C)" "json_laws (cr_index C)"
    and signer: "signer e = Some sg"
  shows "\<exists>m. fs_read_to_string (disk e') (manifest_path e' (br_snapshot_id r)) = Inr m \<and>
     json_parse (cr_index C) (bytes_of m) = Inr (manifest_of e v tag n t) \<and>
     fs_exists (disk e') (sig_path e' (br_snapshot_id r)) \<and>
     verify_manifest_signature (cr_sign C) e' (br_snapshot_id r) m = Inr ()"
proof -
  let ?i = "br_snapshot_id r" and ?S = "cr_sign C"
  obtain s where s: "json_pretty (cr_index C) (manifest_of e v tag n t) = Inr s"
    and m: "fs_read (disk e') (manifest_path e' ?i) = Inr (bytes_of s)"
    and sig: "\<forall>sg. signer e' = Some sg \<longrightarrow> fs_read (disk e') (sig_path e' ?i) = Inr (bytes_of (sign ?S sg (bytes_of s)))"
    using commit_backup_effect(4) [OF run inv uuid] by blast
  have sg': "signer e' = Some sg" using signer commit_backup_steps [OF run] by metis
  have utf8: "utf8_valid (bytes_of s)" "json_parse (cr_index C) (bytes_of s) = Inr (manifest_of e v tag n t)"
    using pretty_roundtrip [OF laws(2) manifest_wf [of e v tag n t]] s by auto
  have "fs_exists (disk e') (sig_path e' ?i)"
    using sig sg' fs_read_InrD by (fastforce simp: fs_exists_def)
  moreover have "verify_manifest_signature ?S e' ?i s = Inr ()"
    by (rule signature_accepted [OF laws(1) sg']) (use sig sg' in simp)
  moreover have "fs_read_to_string (disk e') (manifest_path e' ?i) = Inr s"
    using m utf8 by (simp add: fs_read_to_string_def codec_simps)
  ultimately show ?thesis using utf8 by blast
qed

text \<open>C20: a tampered snapshot is refused.  When a snapshot has a signature file and the check of its
  manifest does not succeed, every kind of restore fails, and changes no file.\<close>

theorem tampered_restore_refused:
  assumes run: "restore C v i fp cc e = (r, e')" and name: "CHR ''/'' \<notin> set (uuid8 v)" "CHR ''/'' \<notin> set i"
    and m: "fs_read_to_string (disk e) (manifest_path e i) = Inr m"
    and bad: "verify_manifest_signature (cr_sign C) e i m \<noteq> Inr ()"
  shows "(\<exists>x. r = Inl x) \<and> only_disk e e' \<and> (\<forall>q. fs_read (disk e') q = fs_read (disk e) q)"
proof -
  obtain r1 e1 where 1: "prepare_restore C v i e = (r1, e1)" by fastforce
  note p = prepare_restore_effect [OF 1 name(1)]
  have rd: "fs_read (disk e1) q = fs_read (disk e) q" for q using p by blast
  have "\<not> below (sig_path e i) (sandbox_of v e)"
    unfolding snapshot_paths [OF name(2)] by (simp add: snapshot_dir_path sandbox_of_def sandbox_dir_def) (simp add: below_def)
  then have n: "fs_node (disk e1) (sig_path e i) = fs_node (disk e) (sig_path e i)" using p by blast
  have d: "snapshot_dir e1 = snapshot_dir e" using p only_disk_fields [of e e1] by (simp add: snapshot_dir_def)
  have pk: "public_key_bytes (cr_sign C) e1 = public_key_bytes (cr_sign C) e"
    by (rule public_key_bytes_same) (use p in auto)
  have "verify_manifest_signature (cr_sign C) e1 i m = verify_manifest_signature (cr_sign C) e i m"
    unfolding verify_manifest_signature_def Let_def d sig_path_def [symmetric] fs_exists_def fs_read_to_string_def rd n pk ..
  then have "\<exists>x. r1 = Inl x"
    using p m bad rd by (cases r1) (auto simp: fs_read_to_string_def)
  then have "(\<exists>x. r = Inl x) \<and> e' = e1" using run 1 by (auto simp: restore_def)
  then show ?thesis using p by blast
qed

end
