(* ===== verification/Maintenance_Correct.thy ===== *)
theory Maintenance_Correct
  imports Restore_Correct
begin

text \<open>
  The operations that change or inspect what has been stored: pruning keeps what it must keep and
  loses no data, verification counts exactly the damaged chunks, and a backup always ends, idle
  again when it was cancelled.
\<close>

section \<open>The order of snapshots\<close>

lemma str_less_irrefl: "\<not> str_less a a"
  by (induction a) auto

lemma str_less_total: "a \<noteq> b \<Longrightarrow> \<not> str_less a b \<Longrightarrow> str_less b a"
proof (induction a b rule: str_less.induct)
  case (1 s)
  then show ?case by (cases s) auto
next
  case (3 x xs y ys)
  have "(of_char x :: nat) = of_char y \<longleftrightarrow> x = y" by simp
  with 3 show ?case by (cases "x = y") (auto simp: not_less order_le_less)
qed auto

lemma str_le_total: "str_le a b \<or> str_le b a"
  using str_less_total [of a b] by (auto simp: str_le_def)

lemma str_le_trans: "str_le a b \<Longrightarrow> str_le b c \<Longrightarrow> str_le a c"
  using str_less_trans [of a b c] by (auto simp: str_le_def)

definition newer :: "snapshot_info \<Rightarrow> snapshot_info \<Rightarrow> bool" where
  "newer s t = str_le (si_timestamp t) (si_timestamp s)"

lemma insert_newest_props:
  "mset (insert_newest x xs) = add_mset x (mset xs) \<and> (sorted_wrt newer xs \<longrightarrow> sorted_wrt newer (insert_newest x xs))"
proof (induction xs)
  case (Cons y ys)
  have set: "set (insert_newest x ys) = insert x (set ys)"
    using arg_cong [OF conjunct1 [OF Cons], of set_mset] by simp
  show ?case
  proof (cases "str_le (si_timestamp y) (si_timestamp x)")
    case True
    then show ?thesis using str_le_trans by (auto simp: newer_def)
  next
    case False
    then have "newer y x" using str_le_total by (auto simp: newer_def)
    with False Cons set show ?thesis by auto
  qed
qed simp

lemma newest_first_props: "mset (newest_first xs) = mset xs" "sorted_wrt newer (newest_first xs)"
proof -
  have "mset (newest_first xs) = mset xs \<and> sorted_wrt newer (newest_first xs)"
    unfolding newest_first_def by (induction xs) (use insert_newest_props in auto)
  then show "mset (newest_first xs) = mset xs" "sorted_wrt newer (newest_first xs)" by simp_all
qed

text \<open>A snapshot with fewer than \<open>k\<close> others at least as new among the \<open>P\<close> is one of the first \<open>k\<close>.\<close>

lemma among_newest:
  assumes "distinct xs" and "s \<in> set xs" "P s" and "length (filter (\<lambda>t. t \<noteq> s \<and> P t \<and> newer t s) xs) < k"
  shows "s \<notin> set (drop k (filter P (newest_first xs)))"
proof
  let ?ys = "filter P (newest_first xs)"
  have set: "set (newest_first xs) = set xs" using arg_cong [OF newest_first_props(1) [of xs], of set_mset] by simp
  have dist: "distinct (newest_first xs)" using assms(1) newest_first_props(1) [of xs] mset_eq_imp_distinct_iff by blast
  assume "s \<in> set (drop k ?ys)"
  then have k: "k < length ?ys" by (metis drop_all empty_iff empty_set linorder_not_less)
  have "sorted_wrt newer ?ys" by (rule sorted_wrt_filter) (rule newest_first_props)
  then have "sorted_wrt newer (take k ?ys @ drop k ?ys)" by simp
  then have "newer t s" if "t \<in> set (take k ?ys)" for t
    using that \<open>s \<in> set (drop k ?ys)\<close> unfolding sorted_wrt_append by blast
  moreover have "t \<noteq> s" if "t \<in> set (take k ?ys)" for t
    using that \<open>s \<in> set (drop k ?ys)\<close> distinct_filter [OF dist] set_take_disj_set_drop_if_distinct [of ?ys k k] by blast
  ultimately have "set (take k ?ys) \<subseteq> set (filter (\<lambda>t. t \<noteq> s \<and> P t \<and> newer t s) xs)"
    using set set_take_subset [of k ?ys] by auto
  then have "card (set (take k ?ys)) \<le> card (set (filter (\<lambda>t. t \<noteq> s \<and> P t \<and> newer t s) xs))"
    by (rule card_mono [rotated]) simp
  moreover have "card (set (take k ?ys)) = k"
    using distinct_card [OF distinct_take [OF distinct_filter [OF dist]]] k by simp
  moreover have "card (set (filter (\<lambda>t. t \<noteq> s \<and> P t \<and> newer t s) xs)) \<le> length (filter (\<lambda>t. t \<noteq> s \<and> P t \<and> newer t s) xs)"
    by (rule card_length)
  ultimately show False using assms(4) by simp
qed

section \<open>Deleting snapshots\<close>

definition pin_path :: "'db engine \<Rightarrow> string \<Rightarrow> path" where
  "pin_path e i = child (snapshot_dir e) (i @ ''.pin'')"

definition snapshot_paths_of :: "'db engine \<Rightarrow> string \<Rightarrow> path set" where
  "snapshot_paths_of e i = {manifest_path e i, sig_path e i, pin_path e i}"

lemma snapshot_paths_of_plain:
  "CHR ''/'' \<notin> set i \<Longrightarrow> snapshot_paths_of e i = {snapshot_dir e @ [i @ ''.json''], snapshot_dir e @ [i @ ''.sig''], snapshot_dir e @ [i @ ''.pin'']}"
  by (simp add: snapshot_paths_of_def snapshot_paths pin_path_def child_name)

lemma suffixes_differ:
  "i @ ''.json'' \<noteq> j @ ''.sig''" "i @ ''.json'' \<noteq> j @ ''.pin''" "i @ ''.sig'' \<noteq> j @ ''.pin''"
proof -
  have d: "take 2 (rev s) \<noteq> take 2 (rev t) \<Longrightarrow> s \<noteq> t" for s t :: string by auto
  show "i @ ''.json'' \<noteq> j @ ''.sig''" "i @ ''.json'' \<noteq> j @ ''.pin''" "i @ ''.sig'' \<noteq> j @ ''.pin''"
    by (rule d, simp)+
qed

lemma snapshot_paths_apart:
  "CHR ''/'' \<notin> set i \<Longrightarrow> CHR ''/'' \<notin> set j \<Longrightarrow> i \<noteq> j \<Longrightarrow> snapshot_paths_of e i \<inter> snapshot_paths_of e j = {}"
  using suffixes_differ [of i j] suffixes_differ [of j i] by (auto simp: snapshot_paths_of_plain)

text \<open>What deleting the snapshots \<open>D\<close> leaves alone.\<close>

definition pruned :: "'db index_libs \<Rightarrow> string set \<Rightarrow> 'db engine \<Rightarrow> 'db engine \<Rightarrow> bool" where
  "pruned L D e e' =
     (index_ok L (index_db e') \<and> obj_store e' = obj_store e \<and> server_root e' = server_root e \<and> snapshots e' = snapshots e \<and>
      st_files (abs_index L (index_db e')) = st_files (abs_index L (index_db e)) \<and>
      (\<forall>i. i \<notin> D \<longrightarrow> st_snaps (abs_index L (index_db e')) i = st_snaps (abs_index L (index_db e)) i) \<and>
      (\<forall>h. st_known (abs_index L (index_db e')) h \<longrightarrow> st_known (abs_index L (index_db e)) h) \<and>
      only_files (\<Union>i \<in> D. snapshot_paths_of e i) (disk e) (disk e'))"

lemma pruned_refl: "index_ok L (index_db e) \<Longrightarrow> pruned L D e e"
  by (simp add: pruned_def)

lemma snapshot_paths_root: "server_root e' = server_root e \<Longrightarrow> snapshot_paths_of e' i = snapshot_paths_of e i"
  by (simp add: snapshot_paths_of_def manifest_path_def sig_path_def pin_path_def snapshot_dir_def)

lemma pruned_mono: "pruned L D e e' \<Longrightarrow> D \<subseteq> D' \<Longrightarrow> pruned L D' e e'"
  unfolding pruned_def using only_files_mono [of "\<Union>i \<in> D. snapshot_paths_of e i"] by (meson UN_mono order_refl subset_iff)

lemma pruned_trans: assumes "pruned L D e e1" and "pruned L D' e1 e2" shows "pruned L (D \<union> D') e e2"
proof -
  have "pruned L (D \<union> D') e e1" "pruned L (D \<union> D') e1 e2" using assms by (auto intro: pruned_mono)
  then show ?thesis unfolding pruned_def using snapshot_paths_root [of e1 e] only_files_trans by simp blast
qed

lemma counted_known: "st_refs (abs_index L db) h \<noteq> 0 \<Longrightarrow> st_known (abs_index L db) h"
  by (auto simp: abs_index_def count_of_def split: option.splits)

lemma release_chunks_effect:
  "index_ok L db \<Longrightarrow> index_ok L (release_chunks L hs db) \<and>
     st_files (abs_index L (release_chunks L hs db)) = st_files (abs_index L db) \<and>
     st_snaps (abs_index L (release_chunks L hs db)) = st_snaps (abs_index L db) \<and>
     (\<forall>h. st_known (abs_index L (release_chunks L hs db)) h \<longrightarrow> st_known (abs_index L db) h)"
proof (induction hs arbitrary: db)
  case (Cons h hs)
  obtain db1 where 1: "snd (decrement_ref L h db) = db1" "index_ok L db1" "abs_index L db1 = drop_ref h (abs_index L db)"
    by (rule refinesE [OF decrement_ref_refines [OF Cons.prems, of h]]) auto
  show ?case using Cons.IH [OF 1(2)] counted_known [of L db h]
    by (auto simp: 1 drop_ref_def lower_def split: if_splits)
qed simp

lemma release_files_effect:
  "release_files L ps db = (r, db') \<Longrightarrow> index_ok L db \<Longrightarrow> index_ok L db' \<and>
     st_files (abs_index L db') = st_files (abs_index L db) \<and> st_snaps (abs_index L db') = st_snaps (abs_index L db) \<and>
     (\<forall>h. st_known (abs_index L db') h \<longrightarrow> st_known (abs_index L db) h)"
proof (induction ps arbitrary: db)
  case (Cons p ps)
  show ?case
  proof (cases "get_file_chunks L p db")
    case (Inr hs)
    note c = release_chunks_effect [OF Cons.prems(2), of hs]
    have "release_files L ps (release_chunks L hs db) = (r, db')" using Cons.prems(1) Inr by simp
    from Cons.IH [OF this] c show ?thesis by auto
  qed (use Cons in simp)
qed simp

text \<open>Steps on an engine with the server directory \<open>R\<close> that stay within the snapshot \<open>i\<close>.\<close>

definition prunes :: "'db index_libs \<Rightarrow> path \<Rightarrow> string \<Rightarrow> ('db engine, 'a) step \<Rightarrow> bool" where
  "prunes L R i m = (\<forall>e. index_ok L (index_db e) \<longrightarrow> server_root e = R \<longrightarrow> pruned L {i} e (snd (m e)))"

lemma prunes_bindS:
  fixes L :: "'db index_libs"
  assumes "prunes L R i m" and "\<And>x. prunes L R i (k x)"
  shows "prunes L R i (bindS m k)"
  unfolding prunes_def
proof (intro allI impI)
  fix e :: "'db engine" assume e: "index_ok L (index_db e)" "server_root e = R"
  obtain r e1 where m: "m e = (r, e1)" by fastforce
  have p: "pruned L {i} e e1" using assms(1) [unfolded prunes_def, rule_format, OF e] m by simp
  show "pruned L {i} e (snd (bindS m k e))"
  proof (cases r)
    case (Inr x)
    have 1: "index_ok L (index_db e1)" "server_root e1 = R" using p e(2) unfolding pruned_def by blast+
    have "pruned L {i} e1 (snd (k x e1))" by (rule assms(2) [unfolded prunes_def, rule_format, OF 1])
    from pruned_trans [OF p this] m Inr show ?thesis by simp
  qed (use p m in simp)
qed

lemma prunes_read: "prunes L R i (readS g)"
  by (simp add: prunes_def readS_def pruned_refl)

lemma prunes_index:
  assumes "\<And>db. index_ok L db \<Longrightarrow> index_ok L (snd (m db)) \<and> st_files (abs_index L (snd (m db))) = st_files (abs_index L db) \<and>
      (\<forall>j. j \<noteq> i \<longrightarrow> st_snaps (abs_index L (snd (m db))) j = st_snaps (abs_index L db) j) \<and>
      (\<forall>h. st_known (abs_index L (snd (m db))) h \<longrightarrow> st_known (abs_index L db) h)"
  shows "prunes L R i (on_index m)"
  using assms by (simp add: prunes_def on_index_def split_beta pruned_def)

lemma prunes_disk:
  fixes L :: "'db index_libs"
  assumes "\<And>f. snd (m f) = f \<or> snd (m f) = snd (remove_file p f)"
    and "\<And>e :: 'db engine. server_root e = R \<Longrightarrow> p \<in> snapshot_paths_of e i"
  shows "prunes L R i (on_disk m)"
  unfolding prunes_def
proof (intro allI impI)
  fix e :: "'db engine" assume e: "index_ok L (index_db e)" "server_root e = R"
  have "only_files {p} (disk e) (snd (m (disk e)))" using assms(1) [of "disk e"] only_files_remove [of p "disk e"] by auto
  then have "only_files (snapshot_paths_of e i) (disk e) (snd (m (disk e)))"
    by (rule only_files_mono) (simp add: assms(2) [OF e(2)])
  then show "pruned L {i} e (snd (on_disk m e))"
    using e(1) by (simp add: pruned_def on_disk_def split_beta)
qed

text \<open>Deleting a snapshot touches its own three files and its own list of files; it takes references
  away, and no file's chunk list.\<close>

lemma delete_snapshot_effect:
  assumes ok: "index_ok L (index_db e)"
  shows "pruned L {i} e (snd (delete_snapshot L i e))"
proof -
  let ?d = "child (server_root e) ''.obsidian/store/snapshots''"
  have files: "index_ok L db \<Longrightarrow> index_ok L (snd (release_files L ps db)) \<and>
      st_files (abs_index L (snd (release_files L ps db))) = st_files (abs_index L db) \<and>
      st_snaps (abs_index L (snd (release_files L ps db))) = st_snaps (abs_index L db) \<and>
      (\<forall>h. st_known (abs_index L (snd (release_files L ps db))) h \<longrightarrow> st_known (abs_index L db) h)" for ps db
    using release_files_effect [of L ps db] by (metis prod.collapse)
  have snaps: "index_ok L db \<Longrightarrow> index_ok L (snd (delete_snapshot_files L i db)) \<and>
      abs_index L (snd (delete_snapshot_files L i db)) = set_snap i [] (abs_index L db)" for db
    by (rule refinesE [OF delete_snapshot_files_refines [of L db i]]) auto
  have "prunes L (server_root e) i (bindS (readS (\<lambda>e. get_snapshot_files L i (index_db e))) (\<lambda>files.
      bindS (on_index (release_files L files)) (\<lambda>_.
      bindS (on_index (delete_snapshot_files L i)) (\<lambda>_.
      bindS (on_disk (\<lambda>f. if fs_exists f (child ?d (i @ ''.json'')) then remove_file (child ?d (i @ ''.json'')) f else (Inr (), f))) (\<lambda>_.
      bindS (on_disk (ignore_errors (remove_file (child ?d (i @ ''.sig''))))) (\<lambda>_.
      on_disk (ignore_errors (remove_file (child ?d (i @ ''.pin'')))))))))) "
    by (intro prunes_bindS prunes_read prunes_index
        prunes_disk [where p = "child ?d (i @ ''.json'')"] prunes_disk [where p = "child ?d (i @ ''.sig'')"]
        prunes_disk [where p = "child ?d (i @ ''.pin'')"])
      (auto simp: files snaps set_snap_def ignore_errors_def snapshot_paths_of_def manifest_path_def sig_path_def
        pin_path_def snapshot_dir_def)
  then show ?thesis using ok unfolding prunes_def delete_snapshot_def Let_def snapshot_dir_def by blast
qed

section \<open>Pruning\<close>

definition unpinned :: "'db engine \<Rightarrow> snapshot_info \<Rightarrow> bool" where
  "unpinned e s = (\<not> is_pinned e (si_id s))"

lemma is_pinned_pruned:
  assumes "pruned L D e e'" and "CHR ''/'' \<notin> set j" and "j \<notin> D" and "\<And>i. i \<in> D \<Longrightarrow> CHR ''/'' \<notin> set i"
  shows "is_pinned e' j = is_pinned e j" and "q \<in> snapshot_paths_of e j \<Longrightarrow> fs_node (disk e') q = fs_node (disk e) q"
proof -
  have q: "fs_node (disk e') q = fs_node (disk e) q" if "q \<in> snapshot_paths_of e j" for q
  proof -
    have "q \<notin> snapshot_paths_of e i" if "i \<in> D" for i
      using snapshot_paths_apart [OF assms(2) assms(4) [OF that], of e] that assms(3) \<open>q \<in> snapshot_paths_of e j\<close> by blast
    then show ?thesis using assms(1) by (auto simp: pruned_def only_files_def)
  qed
  then show "q \<in> snapshot_paths_of e j \<Longrightarrow> fs_node (disk e') q = fs_node (disk e) q" .
  have "snapshot_dir e' = snapshot_dir e" using assms(1) by (simp add: pruned_def snapshot_dir_def)
  then show "is_pinned e' j = is_pinned e j"
    using q [of "pin_path e j"] by (simp add: is_pinned_def fs_exists_def pin_path_def snapshot_paths_of_def)
qed

text \<open>The loop deletes at most the unpinned snapshots after the first \<open>keep\<close>.\<close>

lemma prune_loop_effect:
  assumes "prune_loop L keep ss removed kept e = (n, e')" and "index_ok L (index_db e)"
    and "distinct (map si_id ss)" and "\<forall>s \<in> set ss. CHR ''/'' \<notin> set (si_id s)" and "keep < 2 ^ 64" and "unat kept \<le> keep"
  shows "pruned L (si_id ` set (drop (keep - unat kept) (filter (unpinned e) ss))) e e'"
  using assms
proof (induction ss arbitrary: removed kept e)
  case Nil
  then show ?case by (simp add: pruned_refl)
next
  case (Cons s ss)
  have k: "kept < of_nat keep \<longleftrightarrow> unat kept < keep"
    using Cons.prems(5) by (simp add: word_less_nat_alt unat_of_nat)
  consider (pin) "is_pinned e (si_id s)" | (keep) "unpinned e s" "unat kept < keep" | (del) "unpinned e s" "unat kept = keep"
    using Cons.prems(6) by (cases "unat kept = keep") (auto simp: unpinned_def)
  then show ?case
  proof cases
    case pin
    then have "prune_loop L keep ss removed kept e = (n, e')" using Cons.prems(1) by simp
    from Cons.IH [OF this Cons.prems(2)] Cons.prems pin show ?thesis by (simp add: unpinned_def)
  next
    case keep
    then have r: "prune_loop L keep ss removed (kept + 1) e = (n, e')" using Cons.prems(1) k by (simp add: unpinned_def)
    have u: "unat (kept + 1) = Suc (unat kept)"
      using keep(2) Cons.prems(5) by (simp add: unat_word_ariths)
    have "keep - unat kept = Suc (keep - Suc (unat kept))" using keep(2) by simp
    with Cons.IH [OF r Cons.prems(2)] Cons.prems keep u show ?thesis by simp
  next
    case del
    obtain r1 e1 where d: "delete_snapshot L (si_id s) e = (r1, e1)" by fastforce
    have p: "pruned L {si_id s} e e1" using delete_snapshot_effect [OF Cons.prems(2), of "si_id s"] d by simp
    have "\<exists>removed'. prune_loop L keep ss removed' kept e1 = (n, e')"
      using Cons.prems(1) del k d by (cases r1) (auto simp: unpinned_def)
    then obtain removed' where r: "prune_loop L keep ss removed' kept e1 = (n, e')" ..
    have ok: "index_ok L (index_db e1)" using p by (simp add: pruned_def)
    have "unpinned e1 t = unpinned e t" if "t \<in> set ss" for t
    proof -
      have "si_id s \<notin> si_id ` set ss" "si_id t \<in> si_id ` set ss" using Cons.prems(3) that by simp_all
      then have "si_id t \<notin> {si_id s}" by auto
      with is_pinned_pruned(1) [OF p, of "si_id t"] Cons.prems(4) that show ?thesis by (simp add: unpinned_def)
    qed
    then have f: "filter (unpinned e1) ss = filter (unpinned e) ss" by (rule filter_cong [OF refl])
    have "pruned L (si_id ` set (filter (unpinned e) ss)) e1 e'"
      using Cons.IH [OF r ok] Cons.prems del by (simp add: f)
    from pruned_trans [OF p this] del show ?thesis by simp
  qed
qed

lemma load_snapshots_keeps:
  "load_snapshots L e = (r, e') \<Longrightarrow> index_db e' = index_db e \<and> obj_store e' = obj_store e \<and> disk e' = disk e \<and> server_root e' = server_root e"
  by (auto simp: load_snapshots_def Let_def update_storage_stats_def split: if_splits sum.splits)

lemma prune_snapshots_effect:
  assumes run: "prune_snapshots L keep e = (r, e')" and ok: "index_ok L (index_db e)" and keep: "keep < 2 ^ 64"
    and ids: "distinct (map si_id (snapshots e))" "\<forall>s \<in> set (snapshots e). CHR ''/'' \<notin> set (si_id s)"
  obtains e1 where "pruned L (si_id ` set (drop keep (filter (unpinned e) (newest_first (snapshots e))))) e e1"
    and "index_db e' = index_db e1" "obj_store e' = obj_store e1" "disk e' = disk e1" "server_root e' = server_root e1"
proof -
  obtain n e1 where loop: "prune_loop L keep (newest_first (snapshots e)) 0 0 e = (n, e1)" by fastforce
  obtain r2 e2 where load: "load_snapshots L e1 = (r2, e2)" by fastforce
  have e2: "e' = e2" using run loop load by (cases r2) (auto simp: prune_snapshots_def returnS_def)
  have set: "set (newest_first (snapshots e)) = set (snapshots e)"
    using arg_cong [OF newest_first_props(1) [of "snapshots e"], of set_mset] by simp
  have "mset (map si_id (newest_first (snapshots e))) = mset (map si_id (snapshots e))"
    using newest_first_props(1) [of "snapshots e"] by (metis mset_map)
  then have d: "distinct (map si_id (newest_first (snapshots e)))" using ids(1) mset_eq_imp_distinct_iff by blast
  have "pruned L (si_id ` set (drop keep (filter (unpinned e) (newest_first (snapshots e))))) e e1"
    using prune_loop_effect [OF loop ok d _ keep] ids(2) set by simp
  with load_snapshots_keeps [OF load] that e2 show ?thesis by blast
qed

text \<open>C15: pruning keeps what it must.  A snapshot that is pinned, or that has fewer than \<open>keep\<close>
  unpinned snapshots at least as new, keeps its manifest, its signature, its pin and its list of
  files.\<close>

theorem prune_keeps:
  assumes run: "prune_snapshots L keep e = (r, e')" and ok: "index_ok L (index_db e)" and keep: "keep < 2 ^ 64"
    and ids: "distinct (map si_id (snapshots e))" "\<forall>s \<in> set (snapshots e). CHR ''/'' \<notin> set (si_id s)"
    and s: "s \<in> set (snapshots e)"
    and kept: "is_pinned e (si_id s) \<or>
       length (filter (\<lambda>t. t \<noteq> s \<and> unpinned e t \<and> newer t s) (snapshots e)) < keep"
  shows "get_snapshot_files L (si_id s) (index_db e') = get_snapshot_files L (si_id s) (index_db e) \<and>
     (\<forall>q \<in> snapshot_paths_of e (si_id s). fs_read (disk e') q = fs_read (disk e) q)"
proof -
  let ?del = "drop keep (filter (unpinned e) (newest_first (snapshots e)))"
  obtain e1 where p: "pruned L (si_id ` set ?del) e e1" and e': "index_db e' = index_db e1" "disk e' = disk e1"
    using prune_snapshots_effect [OF run ok keep ids] by metis
  have sub: "set ?del \<subseteq> set (snapshots e)"
    using set_drop_subset [of keep "filter (unpinned e) (newest_first (snapshots e))"]
      arg_cong [OF newest_first_props(1) [of "snapshots e"], of set_mset] by auto
  have "s \<notin> set ?del"
  proof (cases "is_pinned e (si_id s)")
    case True
    then show ?thesis using set_drop_subset [of keep "filter (unpinned e) (newest_first (snapshots e))"] by (auto simp: unpinned_def)
  next
    case False
    have "distinct (snapshots e)" using ids(1) by (simp add: distinct_map)
    from among_newest [OF this s, of "unpinned e" keep] kept False show ?thesis by (simp add: unpinned_def)
  qed
  then have new: "si_id s \<notin> si_id ` set ?del"
    using ids(1) s sub by (auto simp: distinct_map inj_on_def)
  have plain: "\<And>i. i \<in> si_id ` set ?del \<Longrightarrow> CHR ''/'' \<notin> set i" using ids(2) sub by auto
  have node: "fs_node (disk e1) q = fs_node (disk e) q" if "q \<in> snapshot_paths_of e (si_id s)" for q
    using is_pinned_pruned(2) [OF p _ new plain that] ids(2) s by blast
  have ok1: "index_ok L (index_db e1)" and snaps: "st_snaps (abs_index L (index_db e1)) (si_id s) = st_snaps (abs_index L (index_db e)) (si_id s)"
    and f: "faulty (disk e1) = faulty (disk e)"
    using p new by (simp_all add: pruned_def only_files_def)
  show ?thesis
    using node f by (simp add: e' get_snapshot_files_ok [OF ok] get_snapshot_files_ok [OF ok1] snaps fs_read_def split: option.split node.split)
qed

text \<open>What a pruning leaves: the files of the store are untouched.\<close>

lemma prune_outcome:
  assumes run: "prune_snapshots (cr_index C) keep e = (r, e')" and inv: "engine_inv C content e" "placed e" and keep: "keep < 2 ^ 64"
    and ids: "distinct (map si_id (snapshots e))" "\<forall>s \<in> set (snapshots e). CHR ''/'' \<notin> set (si_id s)"
  shows "only_files ((\<lambda>n. snapshot_dir e @ [n]) ` UNIV) (disk e) (disk e')" and "obj_store e' = obj_store e"
    and "server_root e' = server_root e" and "engine_inv C content e'" and "recoverable C e' p b = recoverable C e p b"
proof -
  let ?del = "drop keep (filter (unpinned e) (newest_first (snapshots e)))" and ?L = "cr_index C"
  have ok: "index_ok ?L (index_db e)" using inv(1) by (simp add: engine_inv_def data_inv_def)
  obtain e1 where p: "pruned ?L (si_id ` set ?del) e e1"
    and e': "index_db e' = index_db e1" "obj_store e' = obj_store e1" "disk e' = disk e1" "server_root e' = server_root e1"
    using prune_snapshots_effect [OF run ok keep ids] by metis
  have sub: "set ?del \<subseteq> set (snapshots e)"
    using set_drop_subset [of keep "filter (unpinned e) (newest_first (snapshots e))"]
      arg_cong [OF newest_first_props(1) [of "snapshots e"], of set_mset] by auto
  have "snapshot_paths_of e i \<subseteq> (\<lambda>n. snapshot_dir e @ [n]) ` UNIV" if "i \<in> si_id ` set ?del" for i
  proof -
    have "CHR ''/'' \<notin> set i" using that ids(2) sub by auto
    then show ?thesis by (auto simp: snapshot_paths_of_plain)
  qed
  then show o: "only_files ((\<lambda>n. snapshot_dir e @ [n]) ` UNIV) (disk e) (disk e')"
    using p unfolding pruned_def e' by (blast intro: only_files_mono)
  show st: "obj_store e' = obj_store e" and "server_root e' = server_root e" using p by (simp_all add: e' pruned_def)
  have disk: "fs_read (disk e') q = fs_read (disk e) q" if "\<not> outside (obj_store e) q" for q
  proof -
    have "q \<notin> (\<lambda>n. snapshot_dir e @ [n]) ` UNIV" using that outside_snapshots [OF inv(2)] by blast
    then show ?thesis by (intro fs_read_same) (use o in \<open>simp_all add: only_files_def\<close>)
  qed
  show "engine_inv C content e'" "recoverable C e' p b = recoverable C e p b"
    using engine_keeps [OF inv(1) _ _ _ st disk] p by (simp_all add: e' pruned_def)
qed

text \<open>C14: pruning loses no data.  Whatever it deletes, every file that could be recovered before can
  be recovered afterwards, and the index and the store still agree.\<close>

theorem prune_recoverable:
  assumes run: "prune_snapshots (cr_index C) keep e = (r, e')" and inv: "engine_inv C content e" "placed e" and keep: "keep < 2 ^ 64"
    and ids: "distinct (map si_id (snapshots e))" "\<forall>s \<in> set (snapshots e). CHR ''/'' \<notin> set (si_id s)"
  shows "engine_inv C content e' \<and> (\<forall>p b. recoverable C e p b \<longrightarrow> recoverable C e' p b)"
  using prune_outcome(4,5) [OF assms] by simp

section \<open>Verification\<close>

text \<open>What counts as damage: a sharded object that its check does not find healthy, any other that is
  missing, unreadable or has another hash than its name.\<close>

definition chunk_damaged :: "'db crates \<Rightarrow> 'db engine \<Rightarrow> string \<Rightarrow> bool" where
  "chunk_damaged C e h =
     (if get_object_kind (obj_store e) h = Some KSharded
      then fst (verify_object (cr_libs C) (obj_store e) h False (disk e)) \<noteq> Inr Healthy
      else case read_object (obj_store e) (disk e) h of Inl x \<Rightarrow> True | Inr d \<Rightarrow> content_hash (cr_libs C) d \<noteq> h)"

definition bad_signatures :: "'db crates \<Rightarrow> 'db engine \<Rightarrow> u64" where
  "bad_signatures C e = (case read_dir (disk e) (snapshot_dir e) of
     Inr ns \<Rightarrow> if fs_exists (disk e) (snapshot_dir e) then signature_failures (cr_sign C) e ns else 0 | Inl x \<Rightarrow> 0)"

lemma verify_object_reads:
  "snd (verify_object X s h False f) = f" "fst (verify_object X s h False f) \<noteq> Inr Repaired"
  by (auto simp: verify_object_def Let_def split: option.split object_location.split sum.split)

lemma get_object_kind_None: "get_object_kind s h = None \<Longrightarrow> \<exists>x. read_object s f h = Inl x"
  by (simp add: get_object_kind_def read_object_def)

lemma verify_chunk_counts:
  assumes "verify_chunk (cr_libs C) (obj_store e) False h (disk e, c) = (Inr (), (f, c'))"
  shows "f = disk e" and "c' = (if chunk_damaged C e h then c\<lparr>vc_corrupted := vc_corrupted c + 1\<rparr> else c\<lparr>vc_healthy := vc_healthy c + 1\<rparr>)"
proof -
  note v = verify_object_reads [of "cr_libs C" "obj_store e" h "disk e"]
  have "f = disk e \<and> c' = (if chunk_damaged C e h then c\<lparr>vc_corrupted := vc_corrupted c + 1\<rparr> else c\<lparr>vc_healthy := vc_healthy c + 1\<rparr>)"
  proof (cases "get_object_kind (obj_store e) h = Some KSharded")
    case True
    obtain r f1 where w: "verify_object (cr_libs C) (obj_store e) h False (disk e) = (r, f1)" by fastforce
    show ?thesis
      using assms v w by (auto simp: verify_chunk_def Let_def True chunk_damaged_def split: sum.splits error.splits repair_outcome.splits)
  next
    case False
    then show ?thesis
      using assms get_object_kind_None [of "obj_store e" h "disk e"]
      by (auto simp: verify_chunk_def Let_def chunk_damaged_def split: option.splits object_kind.splits sum.splits if_splits)
  qed
  then show "f = disk e" and "c' = (if chunk_damaged C e h then c\<lparr>vc_corrupted := vc_corrupted c + 1\<rparr> else c\<lparr>vc_healthy := vc_healthy c + 1\<rparr>)"
    by simp_all
qed

lemma verify_chunks_counts:
  "for_each (verify_chunk (cr_libs C) (obj_store e) False) hs (disk e, c) = (Inr (), (f, c')) \<Longrightarrow> f = disk e \<and>
     vc_corrupted c' = vc_corrupted c + of_nat (length (filter (chunk_damaged C e) hs)) \<and>
     vc_healthy c' = vc_healthy c + of_nat (length (filter (\<lambda>h. \<not> chunk_damaged C e h) hs)) \<and> vc_repaired c' = vc_repaired c"
proof (induction hs arbitrary: c)
  case (Cons h hs)
  from Cons.prems obtain f1 c1 where 1: "verify_chunk (cr_libs C) (obj_store e) False h (disk e, c) = (Inr (), (f1, c1))"
    and 2: "for_each (verify_chunk (cr_libs C) (obj_store e) False) hs (f1, c1) = (Inr (), (f, c'))"
    by (auto simp: bindS_Inr_iff)
  note v = verify_chunk_counts [OF 1]
  from Cons.IH [of c1] 2 show ?case by (simp add: v)
qed (simp add: returnS_def)

lemma verify_panics_free:
  "for_each (verify_chunk X s False) hs (f, c) = (Inl x, (f', c')) \<Longrightarrow> f' = f"
proof (induction hs arbitrary: c)
  case (Cons h hs)
  obtain r f1 c1 where 1: "verify_chunk X s False h (f, c) = (r, (f1, c1))" by (metis prod.collapse)
  have "snd (verify_object X s h False f) = f" by (rule verify_object_reads)
  then have "f1 = f" using 1
    by (auto simp: verify_chunk_def Let_def split: option.splits object_kind.splits sum.splits prod.splits error.splits repair_outcome.splits if_splits)
  with Cons 1 show ?case by (cases r) auto
qed (simp add: returnS_def)

lemma utf8_keys_all: "utf8_keys (map Inr kvs) = Inr (map string_of (filter utf8_valid (map fst kvs)))"
  by (induction kvs) auto

lemma all_chunks_known:
  assumes "index_ok L db" and "get_all_chunks L db = Inr hs"
  shows "distinct hs" and "set hs = {h. st_known (abs_index L db) h \<and> utf8_valid (bytes_of h)}"
proof -
  obtain kvs where k: "iter_cf L db CF_CHUNK_REFS = map Inr kvs" "distinct (map fst kvs)" "map_of kvs = view L db CF_CHUNK_REFS"
    using rocks_iter [OF index_okD(1) [OF assms(1)]] by blast
  have hs: "hs = map string_of (filter utf8_valid (map fst kvs))"
    using assms(2) by (simp add: get_all_chunks_def keys_of_cf_def index_okD [OF assms(1)] k(1) utf8_keys_all)
  have inj: "inj string_of" by (metis bytes_of_string_of injI)
  show "distinct hs" unfolding hs using k(2) inj by (simp add: distinct_map inj_on_def)
  have "h \<in> set hs \<longleftrightarrow> bytes_of h \<in> set (map fst kvs) \<and> utf8_valid (bytes_of h)" for h
  proof -
    have "h = string_of k \<longleftrightarrow> k = bytes_of h" for k by (auto simp: bytes_of_string_of string_of_bytes_of)
    then show ?thesis unfolding hs by (auto simp del: set_map simp: image_iff set_map [of string_of])
  qed
  moreover have "bytes_of h \<in> set (map fst kvs) \<longleftrightarrow> map_of kvs (bytes_of h) \<noteq> None" for h by (simp add: map_of_eq_None_iff)
  ultimately show "set hs = {h. st_known (abs_index L db) h \<and> utf8_valid (bytes_of h)}" by (auto simp: k(3) abs_index_def)
qed


text \<open>In a store that is faithful to content whose names are its hashes, nothing but shards is damaged.\<close>

lemma intact_not_damaged:
  assumes "engine_inv C content e" and "st_known (abs_index (cr_index C) (index_db e)) h"
    and "content_hash (cr_libs C) (content h) = h" and "get_object_kind (obj_store e) h \<noteq> Some KSharded"
  shows "\<not> chunk_damaged C e h"
  using assms by (simp add: chunk_damaged_def engine_inv_def data_inv_def faithful_def)

section \<open>How a backup ends\<close>

text \<open>The file tasks change the index, the store, the disk and the list of tracked objects only.\<close>

definition data_only :: "'db engine \<Rightarrow> 'db engine \<Rightarrow> bool" where
  "data_only e e' = (\<exists>db s f tr. e' = e\<lparr>index_db := db, obj_store := s, disk := f, transients := tr\<rparr>)"

lemma data_only_refl: "data_only e e"
  unfolding data_only_def by (cases e) auto

lemma data_only_trans: "data_only e e1 \<Longrightarrow> data_only e1 e2 \<Longrightarrow> data_only e e2"
  unfolding data_only_def by (cases e) auto

lemma data_only_fields:
  "data_only e e' \<Longrightarrow> sys e' = sys e \<and> active_transaction e' = active_transaction e \<and> snapshots e' = snapshots e"
  by (auto simp: data_only_def)

lemma backup_file_data:
  assumes "backup_file C v fe e = Some (r, e')"
  shows "data_only e e'"
proof -
  have close: "data_only e ((close_ctx cx e)\<lparr>index_db := db\<rparr>)" "data_only e (close_ctx cx e)" for cx db
    unfolding data_only_def close_ctx_def by (cases e; auto)+
  show ?thesis
    using assms by (auto simp: backup_file_def Let_def close data_only_refl split: sum.splits option.splits prod.splits)
qed

lemma backup_file_ends:
  assumes "\<And>b. reader_ok (reads v b)"
  shows "\<exists>r e'. backup_file C v fe e = Some (r, e')"
proof (cases "fs_read (disk e) (fe_path fe)")
  case (Inr b)
  show ?thesis
    by (cases "deliver (record_chunk (cr_libs C) (cr_index C) (rel_of e fe)) (file_chunk_list (cr_libs C) (reads v b)) (open_ctx e)")
      (simp add: backup_file_def Let_def Inr chunk_reader_file(1) [OF assms] split: sum.split)
qed (simp add: backup_file_def)

lemma run_tasks_data: "run_tasks C v ts e = Some (rs, e') \<Longrightarrow> data_only e e'"
proof (induction ts arbitrary: e rs)
  case (Cons t ts)
  obtain i fe where t: "t = (i, fe)" by fastforce
  from Cons.prems obtain r e1 rs' where "backup_file C v fe e = Some (r, e1)" "run_tasks C v ts e1 = Some (rs', e')"
    by (auto simp: t split: option.splits prod.splits)
  then show ?case using backup_file_data Cons.IH data_only_trans by blast
qed (simp add: data_only_refl)

lemma run_tasks_ends:
  assumes "\<And>b. reader_ok (reads v b)"
  shows "\<exists>rs e'. run_tasks C v ts e = Some (rs, e')"
proof (induction ts arbitrary: e)
  case (Cons t ts)
  obtain i fe where t: "t = (i, fe)" by fastforce
  obtain r e1 where "backup_file C v fe e = Some (r, e1)" using backup_file_ends [OF assms] by blast
  moreover obtain rs e2 where "run_tasks C v ts e1 = Some (rs, e2)" using Cons.IH by blast
  ultimately show ?case by (simp add: t)
qed simp

lemma process_files_ends:
  assumes "\<And>b. reader_ok (reads v b)"
  shows "\<exists>rs e1. process_files C v files e = Some (rs, if cancelled v = None then e1 else mark_aborted e1) \<and> data_only e e1"
proof -
  define n where "n = (case cancelled v of None \<Rightarrow> length files | Some k \<Rightarrow> min k (length files))"
  obtain rs e1 where "run_tasks C v (map (\<lambda>i. (i, files ! i)) (order v n)) e = Some (rs, e1)"
    using run_tasks_ends [OF assms] by blast
  note run = this run_tasks_data [OF this]
  then show ?thesis by (intro exI [of _ e1] exI) (simp add: process_files_def Let_def n_def [symmetric])
qed


text \<open>Steps that leave the status alone, and steps that leave it alone when they fail.\<close>

definition keeps_sys :: "('db engine, 'a) step \<Rightarrow> bool" where
  "keeps_sys m = (\<forall>e. sys (snd (m e)) = sys e)"

definition fails_early :: "('db engine, 'a) step \<Rightarrow> bool" where
  "fails_early m = (\<forall>e x. fst (m e) = Inl x \<longrightarrow> sys (snd (m e)) = sys e)"

lemma fails_early_bindS: "keeps_sys m \<Longrightarrow> (\<And>x. fails_early (k x)) \<Longrightarrow> fails_early (bindS m k)"
  by (auto simp: fails_early_def keeps_sys_def bindS_def split: prod.splits sum.splits) (metis fst_conv snd_conv)+

lemma keeps_sys_parts:
  "keeps_sys (on_disk m1)" "keeps_sys (on_index m2)" "keeps_sys (on_tx m3)" "keeps_sys (liftS x)" "keeps_sys (returnS y)"
  "keeps_sys (readS g)"
  by (simp_all add: keeps_sys_def on_disk_def on_index_def on_tx_def liftS_def returnS_def readS_def split_beta)

lemma never_fails: "fails_early (bindS (upd g) (\<lambda>_. bindS (upd h) (\<lambda>_. returnS x)))" "fails_early (bindS (upd g) (\<lambda>_. returnS x))"
  by (simp_all add: fails_early_def upd_def bindS_def returnS_def)

lemma commit_backup_fails:
  assumes "commit_backup C v tx tag n t e = (Inl x, e')"
  shows "sys e' = sys (update_queues 0 0 0 0 0 e)"
proof -
  let ?q = "update_queues 0 0 0 0 0 e"
  have "keeps_sys (case signer ?q of None \<Rightarrow> returnS ()
             | Some sg \<Rightarrow> on_disk (fs_write (child d i) (bytes_of (sign (cr_sign C) sg m))))" for d i m
    by (simp add: keeps_sys_parts split: option.split)
  then have "fails_early (\<lambda>e0. bindS (on_disk (create_dir_all (snapshot_dir ?q))) (\<lambda>_.
      bindS (liftS (json_pretty (cr_index C) (manifest_of ?q v tag n t))) (\<lambda>manifest_json.
      bindS (on_disk (fs_write (child (snapshot_dir ?q) ((''snap_'' @ uuid8 v) @ ''.json'')) (bytes_of manifest_json))) (\<lambda>_.
      bindS (case signer ?q of
               None \<Rightarrow> returnS ()
             | Some sg \<Rightarrow> on_disk (fs_write (child (snapshot_dir ?q) ((''snap_'' @ uuid8 v) @ ''.sig''))
                            (bytes_of (sign (cr_sign C) sg (bytes_of manifest_json))))) (\<lambda>_.
      bindS (on_index (insert_snapshot_files (cr_index C) (''snap_'' @ uuid8 v) (all_file_paths t))) (\<lambda>_.
      bindS (on_tx (commit (cr_index C) True tx)) (\<lambda>_.
      bindS (upd (\<lambda>e. e\<lparr>snapshots := snapshots e @ [\<lparr>si_id = ''snap_'' @ uuid8 v, si_timestamp = now v, si_tag = tag,
               si_files_scanned = of_nat n, si_bytes_processed = t_bytes t,
               si_chunks_total = t_chunks t, si_chunks_deduped = t_deduped t\<rparr>]\<rparr>)) (\<lambda>_.
      bindS (upd (\<lambda>e. update_storage_stats (set_state ''idle'' None e))) (\<lambda>_.
      returnS (result_of v n t)))))))))  e0)"
    by (intro fails_early_bindS keeps_sys_parts never_fails)
  from this [unfolded fails_early_def, rule_format, of ?q x] assms show ?thesis
    unfolding commit_backup_def Let_def by simp
qed

text \<open>C22: a backup that fails otherwise leaves the engine busy.  When a backup ends in an error other
  than the abort, the status still says that it is running, under its transaction.\<close>

theorem failed_backup_stays_running:
  assumes run: "run_backup C v tag incremental e = Some (Inl x, e')" and x: "x \<noteq> Failure ''Backup transaction aborted''"
  shows "state_name (sys e') = ''backing_up'' \<and> running (sys e') \<and> current_tx (sys e') = Some (uuid8 v)"
proof -
  let ?busy = "\<lambda>s. state_name s = ''backing_up'' \<and> running s \<and> current_tx s = Some (uuid8 v)"
  have s0: "?busy (sys (snd (start_backup v e)))"
    by (simp add: start_backup_def on_tx_def begin_tx_def upd_def set_state_def update_queues_def bindS_def returnS_def)
  have uq: "?busy (sys (update_queues a b c d u e0)) = ?busy (sys e0)" for a b c d u e0 by (simp add: update_queues_def)
  have abort: "abort_backup C tx e0 = (Inl y, e1) \<Longrightarrow> y = Failure ''Backup transaction aborted''" for tx e0 y e1
    by (auto simp: abort_backup_def on_tx_def rollback_tx_def upd_def failS_def bindS_def)
  obtain files where files: "files_to_back_up C incremental e = Some files"
    using run by (auto simp: run_backup_unfold split: option.splits)
  show ?thesis
  proof (cases "files = []")
    case True
    have "fails_early (finish_empty C v (begun v))"
      unfolding finish_empty_def by (intro fails_early_bindS keeps_sys_parts never_fails)
    moreover have "finish_empty C v (begun v) (snd (start_backup v e)) = (Inl x, e')"
      using run files True by (simp add: run_backup_unfold)
    ultimately have "sys e' = sys (snd (start_backup v e))" unfolding fails_early_def by (metis fst_conv snd_conv)
    then show ?thesis using s0 by simp
  next
    case False
    then obtain rs e1 where p: "process_files C v files (processing v e) = Some (rs, e1)"
      and c: "if is_aborted e1 then abort_backup C (begun v) e1 = (Inl x, e')
        else commit_backup C v (begun v) tag (length files) (tally_all rs) e1 = (Inl x, e')"
      using run files by (auto simp: run_backup_unfold split: option.splits if_splits)
    obtain rs0 e0 where "run_tasks C v (map (\<lambda>i. (i, files ! i)) (order v (case cancelled v of None \<Rightarrow> length files | Some k \<Rightarrow> min k (length files)))) (processing v e) = Some (rs0, e0)"
      and e1: "e1 = (if cancelled v = None then e0 else mark_aborted e0)"
      using p by (auto simp: process_files_def Let_def)
    then have "sys e1 = sys (processing v e)"
      using data_only_fields [OF run_tasks_data, of C v _ "processing v e" rs0 e0] by (simp add: mark_aborted_def)
    moreover have "commit_backup C v (begun v) tag (length files) (tally_all rs) e1 = (Inl x, e')"
      using c abort x by (auto split: if_splits)
    ultimately have "sys e' = sys (update_queues 0 0 0 0 0 e1)" "sys e1 = sys (update_queues 0 1 0 0 0 (snd (start_backup v e)))"
      using commit_backup_fails by (auto simp: processing_def)
    then show ?thesis using s0 by (simp add: update_queues_def)
  qed
qed

end
