(* ===== verification/Remote.thy ===== *)
theory Remote
  imports Maintenance
begin

text \<open>
  Remote synchronisation between two sidecars, \<open>sidecar/src/remote_sync.rs\<close>.

  A connection is what one side sees of it: the bytes that will still arrive, the bytes it has
  sent, how many random nonces it has drawn, and the number of bytes after which writing fails.
  A handler works on a pair of engine and connection.  The two sides meet in \<open>Remote_Correct\<close>,
  where what one side has sent is what arrives at the other.

  XChaCha20-Poly1305, the random generator and the JSON form of a frame (derived by serde) are
  parameters, collected in \<open>sync_libs\<close>; \<open>sync_laws\<close> repeats their documentation.
\<close>

datatype frame =
    Hello u32 string
  | HelloAck string "string option"
  | PushBegin string json u64
  | PushReady string
  | FileChunks string "string list"
  | Object string u64
  | PushEnd
  | PushAck string
  | PullRequest string
  | ErrorFrame string

record sync_libs =
  aead_encrypt :: "bytes \<Rightarrow> bytes \<Rightarrow> bytes \<Rightarrow> bytes option"
  aead_decrypt :: "bytes \<Rightarrow> bytes \<Rightarrow> bytes \<Rightarrow> bytes option"
  random_nonce :: "nat \<Rightarrow> bytes"
  frame_to_vec :: "frame \<Rightarrow> error + bytes"
  frame_from_slice :: "bytes \<Rightarrow> error + frame"

record conn =
  inbox :: bytes
  outbox :: bytes
  drawn :: nat
  broken_after :: "nat option"

text \<open>Encryption adds a tag of 16 bytes, decryption under the same key and nonce inverts it, a nonce has
  24 bytes, and a frame that serde writes is read back.\<close>

definition sync_laws :: "sync_libs \<Rightarrow> bool" where
  "sync_laws S =
     ((\<forall>k n d. length d < 2 ^ 32 \<longrightarrow> (\<exists>ct. aead_encrypt S k n d = Some ct \<and> length ct = length d + 16)) \<and>
      (\<forall>k n d ct. aead_encrypt S k n d = Some ct \<longrightarrow> aead_decrypt S k n ct = Some d) \<and>
      (\<forall>i. length (random_nonce S i) = 24) \<and>
      (\<forall>fr b. frame_to_vec S fr = Inr b \<longrightarrow> frame_from_slice S b = Inr fr))"

definition PROTOCOL_VERSION :: u32 where "PROTOCOL_VERSION = 1"
definition NONCE_LEN :: nat where "NONCE_LEN = 24"
definition LEN_BYTES :: nat where "LEN_BYTES = 4"
definition MAX_FRAME_BYTES :: nat where "MAX_FRAME_BYTES = 256 * 1024 * 1024"

section \<open>The socket\<close>

definition write_all :: "bytes \<Rightarrow> (conn, unit) step" where
  "write_all b c =
     (case broken_after c of
        Some n \<Rightarrow> if n < length (outbox c) + length b then (Inl IoError, c) else (Inr (), c\<lparr>outbox := outbox c @ b\<rparr>)
      | None \<Rightarrow> (Inr (), c\<lparr>outbox := outbox c @ b\<rparr>))"

definition read_exact :: "nat \<Rightarrow> (conn, bytes) step" where
  "read_exact n c =
     (if length (inbox c) < n then (Inl IoError, c\<lparr>inbox := []\<rparr>)
      else (Inr (take n (inbox c)), c\<lparr>inbox := drop n (inbox c)\<rparr>))"

definition draw_nonce :: "sync_libs \<Rightarrow> (conn, bytes) step" where
  "draw_nonce S c = (Inr (random_nonce S (drawn c)), c\<lparr>drawn := drawn c + 1\<rparr>)"

section \<open>Encrypted frames\<close>

text \<open>The key; \<open>expect\<close> aborts unless the hash has 32 bytes.\<close>

definition make_cipher :: "libs \<Rightarrow> string \<Rightarrow> error + bytes" where
  "make_cipher X token = (let key = blake3 X (bytes_of token) in if length key = 32 then Inr key else Inl Panic)"

definition send_payload :: "sync_libs \<Rightarrow> bytes \<Rightarrow> bytes \<Rightarrow> (conn, unit) step" where
  "send_payload S key data =
     bindS (draw_nonce S) (\<lambda>nonce.
     bindS (liftS (case aead_encrypt S key nonce data of
              Some ct \<Rightarrow> Inr ct | None \<Rightarrow> Inl (Failure ''XChaCha20-Poly1305 encryption failed''))) (\<lambda>ct.
     bindS (write_all (u32_to_le (of_nat (length ct)))) (\<lambda>_.
     bindS (write_all nonce) (\<lambda>_.
     write_all ct))))"

definition recv_payload :: "sync_libs \<Rightarrow> bytes \<Rightarrow> (conn, bytes) step" where
  "recv_payload S key =
     bindS (read_exact LEN_BYTES) (\<lambda>len_buf.
     let len = unat (u32_from_le len_buf) in
     if MAX_FRAME_BYTES < len then failS (Failure ''oversized frame'')
     else
       bindS (read_exact NONCE_LEN) (\<lambda>nonce.
       bindS (read_exact len) (\<lambda>ct.
       liftS (case aead_decrypt S key nonce ct of
                Some d \<Rightarrow> Inr d | None \<Rightarrow> Inl (Failure ''XChaCha20-Poly1305 decryption failed'')))))"

definition send_frame :: "sync_libs \<Rightarrow> bytes \<Rightarrow> frame \<Rightarrow> (conn, unit) step" where
  "send_frame S key fr = bindS (liftS (frame_to_vec S fr)) (send_payload S key)"

definition recv_frame :: "sync_libs \<Rightarrow> bytes \<Rightarrow> (conn, frame) step" where
  "recv_frame S key = bindS (recv_payload S key) (\<lambda>b. liftS (frame_from_slice S b))"

definition expect_ready :: "sync_libs \<Rightarrow> bytes \<Rightarrow> (conn, unit) step" where
  "expect_ready S key = bindS (recv_frame S key) (\<lambda>fr. case fr of
       PushReady status \<Rightarrow> if status = ''ok'' then returnS () else failS (Failure ''expected push_ready'')
     | ErrorFrame message \<Rightarrow> failS (Failure (''peer rejected push: '' @ message))
     | _ \<Rightarrow> failS (Failure ''expected push_ready''))"

definition expect_ack :: "sync_libs \<Rightarrow> bytes \<Rightarrow> (conn, unit) step" where
  "expect_ack S key = bindS (recv_frame S key) (\<lambda>fr. case fr of
       PushAck status \<Rightarrow> if status = ''ok'' then returnS () else failS (Failure ''expected push_ack'')
     | ErrorFrame message \<Rightarrow> failS (Failure (''peer push failed: '' @ message))
     | _ \<Rightarrow> failS (Failure ''expected push_ack''))"

section \<open>Sending\<close>

definition sender_handshake :: "sync_libs \<Rightarrow> bytes \<Rightarrow> string \<Rightarrow> (conn, unit) step" where
  "sender_handshake S key token =
     bindS (send_frame S key (Hello PROTOCOL_VERSION token)) (\<lambda>_.
     bindS (recv_frame S key) (\<lambda>fr. case fr of
       HelloAck status message \<Rightarrow>
         if status = ''ok'' then returnS ()
         else failS (Failure (''peer rejected sync auth ('' @ status @ ''): '' @ (case message of Some s \<Rightarrow> s | None \<Rightarrow> [])))
     | _ \<Rightarrow> failS (Failure ''unexpected handshake reply'')))"

text \<open>The objects of one file, and the files one by one.\<close>

fun send_chunks :: "sync_libs \<Rightarrow> bytes \<Rightarrow> 'db engine \<Rightarrow> string list \<Rightarrow> (conn, unit) step" where
  "send_chunks S key e [] = returnS ()"
| "send_chunks S key e (h # hs) =
     bindS (liftS (read_object_data h e)) (\<lambda>data.
     bindS (send_frame S key (Object h (of_nat (length data)))) (\<lambda>_.
     bindS (send_payload S key data) (\<lambda>_.
     send_chunks S key e hs)))"

fun send_objects :: "'db crates \<Rightarrow> sync_libs \<Rightarrow> bytes \<Rightarrow> 'db engine \<Rightarrow> string list \<Rightarrow> (conn, unit) step" where
  "send_objects C S key e [] = returnS ()"
| "send_objects C S key e (p # ps) =
     bindS (liftS (file_chunks (cr_index C) p e)) (\<lambda>cks.
     bindS (send_frame S key (FileChunks p cks)) (\<lambda>_.
     bindS (send_chunks S key e cks) (\<lambda>_.
     send_objects C S key e ps)))"

text \<open>What both the pushing dialer and the listener that answers a pull do.\<close>

definition send_snapshot :: "'db crates \<Rightarrow> sync_libs \<Rightarrow> bytes \<Rightarrow> 'db engine \<Rightarrow> string \<Rightarrow> (conn, unit) step" where
  "send_snapshot C S key e snapshot_id =
     bindS (liftS (snapshot_manifest_json (cr_index C) snapshot_id e)) (\<lambda>manifest.
     bindS (liftS (snapshot_files (cr_index C) snapshot_id e)) (\<lambda>files.
     bindS (send_frame S key (PushBegin snapshot_id manifest (of_nat (length files)))) (\<lambda>_.
     bindS (expect_ready S key) (\<lambda>_.
     bindS (send_objects C S key e files) (\<lambda>_.
     bindS (send_frame S key PushEnd) (\<lambda>_.
     expect_ack S key))))))"

section \<open>Receiving\<close>

type_synonym 'db session = "'db engine \<times> conn"

definition on_net :: "(conn, 'a) step \<Rightarrow> ('db session, 'a) step" where
  "on_net m = (\<lambda>(e, c). case m c of (r, c') \<Rightarrow> (r, (e, c')))"

definition on_engine :: "('db engine, 'a) step \<Rightarrow> ('db session, 'a) step" where
  "on_engine m = (\<lambda>(e, c). case m e of (r, e') \<Rightarrow> (r, (e', c)))"

lemma recv_frame_shrinks:
  assumes "recv_frame S key c = (r, c')"
  shows "length (inbox c') \<le> length (inbox c)" and "\<exists>x. r = Inr x \<Longrightarrow> length (inbox c') < length (inbox c)"
proof -
  have "length (inbox c') \<le> length (inbox c) \<and> ((\<exists>x. r = Inr x) \<longrightarrow> length (inbox c') < length (inbox c))"
    using assms unfolding recv_frame_def recv_payload_def bindS_def read_exact_def LEN_BYTES_def NONCE_LEN_def Let_def
    by (simp split: if_splits option.splits prod.splits sum.splits) (auto simp: failS_def liftS_def)
  then show "length (inbox c') \<le> length (inbox c)" and "\<exists>x. r = Inr x \<Longrightarrow> length (inbox c') < length (inbox c)"
    by simp_all
qed

lemma recv_payload_shrinks:
  assumes "recv_payload S key c = (r, c')" shows "length (inbox c') \<le> length (inbox c)"
  using assms unfolding recv_payload_def bindS_def read_exact_def Let_def
  by (auto simp: failS_def liftS_def split: if_splits option.splits prod.splits sum.splits)

text \<open>The loop of the receiver, until \<open>push_end\<close>; every round reads at least one frame.\<close>

function receive_loop :: "'db crates \<Rightarrow> sync_libs \<Rightarrow> bytes \<Rightarrow> 'db engine \<Rightarrow> conn \<Rightarrow> (error + unit) \<times> 'db session" where
  "receive_loop C S key e c =
     (case recv_frame S key c of
        (Inl x, c1) \<Rightarrow> (Inl x, (e, c1))
      | (Inr fr, c1) \<Rightarrow>
          (case fr of
             FileChunks p cks \<Rightarrow>
               (case store_file_chunks (cr_index C) p cks e of
                  (Inl x, e1) \<Rightarrow> (Inl x, (e1, c1)) | (Inr u, e1) \<Rightarrow> receive_loop C S key e1 c1)
           | Object h n \<Rightarrow>
               (case recv_payload S key c1 of
                  (Inl x, c2) \<Rightarrow> (Inl x, (e, c2))
                | (Inr data, c2) \<Rightarrow>
                    if of_nat (length data) \<noteq> n then (Inl (Failure (''object '' @ h @ '' size mismatch'')), (e, c2))
                    else case store_object C h data e of
                        (Inl x, e1) \<Rightarrow> (Inl x, (e1, c2)) | (Inr u, e1) \<Rightarrow> receive_loop C S key e1 c2)
           | PushEnd \<Rightarrow> (Inr (), (e, c1))
           | ErrorFrame message \<Rightarrow> (Inl (Failure (''peer error: '' @ message)), (e, c1))
           | _ \<Rightarrow> (Inl (Failure ''unexpected frame while receiving''), (e, c1))))"
  by pat_completeness auto
termination
proof (relation "measure (\<lambda>(C, S, key, e, c). length (inbox c))", goal_cases)
  case 1 then show ?case by simp
next
  case (2 C S key e c) then show ?case using recv_frame_shrinks(2) [of S key c] by force
next
  case (3 C S key e c) then show ?case
    using recv_frame_shrinks(2) [of S key c] recv_payload_shrinks [of S key] by (auto dest!: sym [of "(Inr _, _)"]) (meson le_less_trans)
qed

declare receive_loop.simps [simp del]

definition receive_snapshot ::
  "'db crates \<Rightarrow> sync_libs \<Rightarrow> bytes \<Rightarrow> string \<Rightarrow> json \<Rightarrow> ('db session, unit) step" where
  "receive_snapshot C S key snapshot_id manifest =
     bindS (on_net (send_frame S key (PushReady ''ok''))) (\<lambda>_.
     bindS (\<lambda>(e, c). receive_loop C S key e c) (\<lambda>_.
     bindS (on_engine (register_remote_snapshot (cr_index C) snapshot_id manifest)) (\<lambda>_.
     on_net (send_frame S key (PushAck ''ok'')))))"

definition handle_incoming :: "'db crates \<Rightarrow> sync_libs \<Rightarrow> string \<Rightarrow> ('db session, unit) step" where
  "handle_incoming C S token =
     bindS (liftS (make_cipher (cr_libs C) token)) (\<lambda>key.
     bindS (on_net (recv_frame S key)) (\<lambda>fr.
     bindS (case fr of
              Hello version t \<Rightarrow>
                if version = PROTOCOL_VERSION \<and> t = token then on_net (send_frame S key (HelloAck ''ok'' None))
                else bindS (on_net (send_frame S key (HelloAck ''error'' (Some ''authentication failed'')))) (\<lambda>_.
                     failS (Failure ''remote sync authentication failed''))
            | _ \<Rightarrow> bindS (on_net (send_frame S key (HelloAck ''error'' (Some ''authentication failed'')))) (\<lambda>_.
                   failS (Failure ''remote sync authentication failed''))) (\<lambda>_.
     bindS (on_net (recv_frame S key)) (\<lambda>fr. case fr of
         PushBegin snapshot_id manifest n \<Rightarrow> receive_snapshot C S key snapshot_id manifest
       | PullRequest snapshot_id \<Rightarrow> (\<lambda>(e, c). on_net (send_snapshot C S key e snapshot_id) (e, c))
       | ErrorFrame message \<Rightarrow> failS (Failure (''peer error: '' @ message))
       | _ \<Rightarrow> failS (Failure ''unexpected first command frame'')))))"

section \<open>Dialing\<close>

text \<open>Connecting to the peer: the environment gives a connection, or the error of the attempt.\<close>

definition dial :: "RemoteSyncConfig \<Rightarrow> (string \<Rightarrow> u64 \<Rightarrow> error + conn) \<Rightarrow> error + conn" where
  "dial rcfg connect = (case peer_addr rcfg of
     None \<Rightarrow> Inl (Failure ''remote_sync.peer_addr is not configured'')
   | Some addr \<Rightarrow> connect addr (dial_timeout_secs rcfg))"

definition push_snapshot ::
  "'db crates \<Rightarrow> sync_libs \<Rightarrow> RemoteSyncConfig \<Rightarrow> string \<Rightarrow> ('db session, unit) step" where
  "push_snapshot C S rcfg snapshot_id =
     bindS (liftS (make_cipher (cr_libs C) (sync_token rcfg))) (\<lambda>key.
     bindS (on_net (sender_handshake S key (sync_token rcfg))) (\<lambda>_.
     (\<lambda>(e, c). on_net (send_snapshot C S key e snapshot_id) (e, c))))"

definition pull_snapshot ::
  "'db crates \<Rightarrow> sync_libs \<Rightarrow> RemoteSyncConfig \<Rightarrow> string \<Rightarrow> ('db session, unit) step" where
  "pull_snapshot C S rcfg snapshot_id =
     bindS (liftS (make_cipher (cr_libs C) (sync_token rcfg))) (\<lambda>key.
     bindS (on_net (sender_handshake S key (sync_token rcfg))) (\<lambda>_.
     bindS (on_net (send_frame S key (PullRequest snapshot_id))) (\<lambda>_.
     bindS (on_net (recv_frame S key)) (\<lambda>fr. case fr of
         PushBegin snapshot_id manifest n \<Rightarrow> receive_snapshot C S key snapshot_id manifest
       | ErrorFrame message \<Rightarrow> failS (Failure (''peer pull failed: '' @ message))
       | _ \<Rightarrow> failS (Failure ''unexpected reply to pull request'')))))"

text \<open>A push or a pull from the engine's side: dial, then run the session on the connection.\<close>

definition with_peer ::
  "RemoteSyncConfig \<Rightarrow> (string \<Rightarrow> u64 \<Rightarrow> error + conn) \<Rightarrow> ('db session, unit) step \<Rightarrow> ('db engine, unit) step" where
  "with_peer rcfg connect m e = (case dial rcfg connect of
     Inl x \<Rightarrow> (Inl x, e)
   | Inr c \<Rightarrow> (case m (e, c) of (r, (e', c')) \<Rightarrow> (r, e')))"

text \<open>The listener: every connection it accepts is handled, its errors are logged.\<close>

fun serve_all :: "'db crates \<Rightarrow> sync_libs \<Rightarrow> string \<Rightarrow> conn list \<Rightarrow> 'db engine \<Rightarrow> 'db engine" where
  "serve_all C S token [] e = e"
| "serve_all C S token (c # cs) e = serve_all C S token cs (fst (snd (handle_incoming C S token (e, c))))"

definition serve ::
  "'db crates \<Rightarrow> sync_libs \<Rightarrow> RemoteSyncConfig \<Rightarrow> (string \<Rightarrow> error + conn list) \<Rightarrow> ('db engine, unit) step" where
  "serve C S rcfg listen e = (case listen_addr rcfg of
     None \<Rightarrow> (Inl (Failure ''remote_sync.listen_addr is not configured''), e)
   | Some addr \<Rightarrow> (case listen addr of
       Inl x \<Rightarrow> (Inl x, e)
     | Inr cs \<Rightarrow> (Inl IoError, serve_all C S (sync_token rcfg) cs e)))"

end
