(* ===== verification/Remote_Correct.thy ===== *)
theory Remote_Correct
  imports Remote Backup_Correct
begin

text \<open>
  The synchronisation protocol is correct: payloads and frames survive the wire, a peer without the
  token changes nothing, and a push or a pull over a connection does the same to the receiving
  engine as storing the snapshot there directly (\<open>transfer\<close>), which makes its files recoverable.
\<close>

section \<open>Packets\<close>

definition packet :: "sync_libs \<Rightarrow> bytes \<Rightarrow> nat \<Rightarrow> bytes \<Rightarrow> bytes" where
  "packet S key i d =
     (case aead_encrypt S key (random_nonce S i) d of None \<Rightarrow> []
      | Some ct \<Rightarrow> u32_to_le (of_nat (length ct)) @ random_nonce S i @ ct)"

lemma encryptD:
  assumes "sync_laws S" and "length d < 2 ^ 32"
  obtains ct where "aead_encrypt S k n d = Some ct" "length ct = length d + 16" "aead_decrypt S k n ct = Some d"
  using assms unfolding sync_laws_def by meson

lemma nonce_length: "sync_laws S \<Longrightarrow> length (random_nonce S i) = 24"
  by (simp add: sync_laws_def)

lemma u32_len: "n < 2 ^ 32 \<Longrightarrow> unat (u32_from_le (u32_to_le (of_nat n))) = n"
  by (simp add: codec_simps unat_of_nat)

lemma send_payload_packet:
  assumes "sync_laws S" and "length d < 2 ^ 32" and "broken_after c = None"
  shows "send_payload S key d c =
     (Inr (), c\<lparr>outbox := outbox c @ packet S key (drawn c) d, drawn := drawn c + 1\<rparr>)"
proof -
  from encryptD [OF assms(1,2)] obtain ct where "aead_encrypt S key (random_nonce S (drawn c)) d = Some ct" by metis
  with assms(3) show ?thesis
    by (simp add: send_payload_def draw_nonce_def write_all_def bindS_def packet_def)
qed

lemma recv_payload_packet:
  assumes "sync_laws S" and "length d + 16 \<le> MAX_FRAME_BYTES" and "inbox c = packet S key i d @ rest"
  shows "recv_payload S key c = (Inr d, c\<lparr>inbox := rest\<rparr>)"
proof -
  have l: "length d + 16 < 2 ^ 32" using assms(2) by (simp add: MAX_FRAME_BYTES_def)
  then have "length d < 2 ^ 32" by simp
  from encryptD [OF assms(1) this] obtain ct where
    ct: "aead_encrypt S key (random_nonce S i) d = Some ct" "length ct = length d + 16"
    "aead_decrypt S key (random_nonce S i) ct = Some d" by metis
  have "unat (u32_from_le (u32_to_le (of_nat (length ct)))) = length ct" by (rule u32_len) (use l ct(2) in simp)
  moreover have "length ct \<le> MAX_FRAME_BYTES" using assms(2) ct(2) by simp
  ultimately show ?thesis
    using ct(1,3) nonce_length [OF assms(1), of i]
    by (simp add: recv_payload_def read_exact_def assms(3) packet_def bindS_def Let_def LEN_BYTES_def NONCE_LEN_def)
qed

text \<open>A payload survives the wire up to the size of a frame.  What one side sends is what the
  other side receives, and what follows it stays in the connection; a payload that is larger with
  its tag than a frame may be is sent and refused by the receiver.\<close>

theorem payload_roundtrip:
  assumes "sync_laws S" and "length d + 16 < 2 ^ 32" and "broken_after c = None"
    and "send_payload S key d c = (r, c1)" and "outbox c1 = outbox c @ sent" and "inbox c' = sent @ rest"
  shows "r = Inr () \<and>
     (if length d + 16 \<le> MAX_FRAME_BYTES then recv_payload S key c' = (Inr d, c'\<lparr>inbox := rest\<rparr>)
      else fst (recv_payload S key c') = Inl (Failure ''oversized frame''))"
proof -
  have l: "length d < 2 ^ 32" using assms(2) by simp
  have s: "r = Inr ()" "sent = packet S key (drawn c) d"
    using assms(4,5) send_payload_packet [OF assms(1) l assms(3), of key] by auto
  show ?thesis
  proof (cases "length d + 16 \<le> MAX_FRAME_BYTES")
    case True
    with recv_payload_packet [OF assms(1) True assms(6) [unfolded s(2)]] s(1) show ?thesis by simp
  next
    case False
    from encryptD [OF assms(1) l] obtain ct where
      ct: "aead_encrypt S key (random_nonce S (drawn c)) d = Some ct" "length ct = length d + 16" by metis
    have "unat (u32_from_le (u32_to_le (of_nat (length ct)))) = length ct" by (rule u32_len) (use assms(2) ct(2) in simp)
    moreover have "MAX_FRAME_BYTES < length ct" using False ct(2) by simp
    ultimately show ?thesis using False ct(1)
      by (simp add: s recv_payload_def read_exact_def assms(6) packet_def bindS_def Let_def LEN_BYTES_def)
  qed
qed

section \<open>Frames\<close>

text \<open>A message is a frame or the bytes of an object.\<close>

datatype msg = Fr frame | Raw bytes

definition payload_of :: "sync_libs \<Rightarrow> msg \<Rightarrow> bytes" where
  "payload_of S m = (case m of Raw b \<Rightarrow> b | Fr fr \<Rightarrow> (case frame_to_vec S fr of Inr b \<Rightarrow> b | Inl x \<Rightarrow> []))"

definition sendable :: "sync_libs \<Rightarrow> msg \<Rightarrow> bool" where
  "sendable S m = (length (payload_of S m) + 16 \<le> MAX_FRAME_BYTES \<and>
     (case m of Raw b \<Rightarrow> True | Fr fr \<Rightarrow> (\<exists>b. frame_to_vec S fr = Inr b)))"

abbreviation frame_packet :: "sync_libs \<Rightarrow> bytes \<Rightarrow> nat \<Rightarrow> frame \<Rightarrow> bytes" where
  "frame_packet S key i fr \<equiv> packet S key i (payload_of S (Fr fr))"

fun wire :: "sync_libs \<Rightarrow> bytes \<Rightarrow> nat \<Rightarrow> msg list \<Rightarrow> bytes" where
  "wire S key i [] = []"
| "wire S key i (m # ms) = packet S key i (payload_of S m) @ wire S key (Suc i) ms"

lemma wire_append: "wire S key i (ms @ ms') = wire S key i ms @ wire S key (i + length ms) ms'"
  by (induction ms arbitrary: i) simp_all

lemma small: "length d + 16 \<le> MAX_FRAME_BYTES \<Longrightarrow> length d < 2 ^ 32"
  by (simp add: MAX_FRAME_BYTES_def)

lemma send_frame_packet:
  assumes "sync_laws S" and "sendable S (Fr fr)" and "broken_after c = None"
  shows "send_frame S key fr c =
     (Inr (), c\<lparr>outbox := outbox c @ frame_packet S key (drawn c) fr, drawn := drawn c + 1\<rparr>)"
proof -
  from assms(2) obtain b where "frame_to_vec S fr = Inr b" by (auto simp: sendable_def)
  with assms(2) send_payload_packet [OF assms(1) small assms(3), of b key] show ?thesis
    by (simp add: send_frame_def bindS_def sendable_def payload_of_def)
qed

lemma recv_frame_packet:
  assumes "sync_laws S" and "sendable S (Fr fr)" and "inbox c = frame_packet S key i fr @ rest"
  shows "recv_frame S key c = (Inr fr, c\<lparr>inbox := rest\<rparr>)"
proof -
  from assms(2) obtain b where b: "frame_to_vec S fr = Inr b" by (auto simp: sendable_def)
  then have "frame_from_slice S b = Inr fr" using assms(1) by (simp add: sync_laws_def)
  with b assms(2) recv_payload_packet [OF assms(1) _ assms(3)] show ?thesis
    by (simp add: recv_frame_def bindS_def sendable_def payload_of_def)
qed

section \<open>Objects and files\<close>

fun chunk_msgs :: "'db engine \<Rightarrow> string list \<Rightarrow> msg list" where
  "chunk_msgs e [] = []"
| "chunk_msgs e (h # hs) = (case read_object_data h e of
     Inl x \<Rightarrow> [] | Inr d \<Rightarrow> Fr (Object h (of_nat (length d))) # Raw d # chunk_msgs e hs)"

fun file_msgs :: "'db crates \<Rightarrow> 'db engine \<Rightarrow> string list \<Rightarrow> msg list" where
  "file_msgs C e [] = []"
| "file_msgs C e (p # ps) = (case file_chunks (cr_index C) p e of
     Inl x \<Rightarrow> [] | Inr hs \<Rightarrow> Fr (FileChunks p hs) # chunk_msgs e hs @ file_msgs C e ps)"

text \<open>Every chunk of the list can be read.\<close>

definition chunks_readable :: "'db engine \<Rightarrow> string list \<Rightarrow> bool" where
  "chunks_readable e hs = list_all (\<lambda>h. \<exists>d. read_object_data h e = Inr d) hs"

definition files_readable :: "'db crates \<Rightarrow> 'db engine \<Rightarrow> string list \<Rightarrow> bool" where
  "files_readable C e ps = list_all (\<lambda>p. \<exists>hs. file_chunks (cr_index C) p e = Inr hs \<and> chunks_readable e hs) ps"

definition sent :: "sync_libs \<Rightarrow> bytes \<Rightarrow> msg list \<Rightarrow> conn \<Rightarrow> conn" where
  "sent S key ms c = c\<lparr>outbox := outbox c @ wire S key (drawn c) ms, drawn := drawn c + length ms\<rparr>"

lemma sent_simps [simp]: "inbox (sent S key ms c) = inbox c" "broken_after (sent S key ms c) = broken_after c"
  "drawn (sent S key ms c) = drawn c + length ms" "outbox (sent S key ms c) = outbox c @ wire S key (drawn c) ms"
  by (simp_all add: sent_def)

lemma sent_append: "sent S key ms' (sent S key ms c) = sent S key (ms @ ms') c"
  by (simp add: sent_def wire_append)

lemma sent_nil: "sent S key [] c = c"
  by (simp add: sent_def)

lemma send_frame_sent:
  "sync_laws S \<Longrightarrow> sendable S (Fr fr) \<Longrightarrow> broken_after c = None \<Longrightarrow> send_frame S key fr c = (Inr (), sent S key [Fr fr] c)"
  by (simp add: send_frame_packet sent_def)

lemma send_payload_sent:
  "sync_laws S \<Longrightarrow> sendable S (Raw d) \<Longrightarrow> broken_after c = None \<Longrightarrow> send_payload S key d c = (Inr (), sent S key [Raw d] c)"
  by (simp add: send_payload_packet sent_def sendable_def payload_of_def MAX_FRAME_BYTES_def)

lemma send_chunks_sent:
  assumes "sync_laws S" and "chunks_readable e hs" and "list_all (sendable S) (chunk_msgs e hs)" and "broken_after c = None"
  shows "send_chunks S key e hs c = (Inr (), sent S key (chunk_msgs e hs) c)"
  using assms(2-)
proof (induction hs arbitrary: c)
  case (Cons h hs)
  from Cons.prems(1) obtain d where d: "read_object_data h e = Inr d" by (auto simp: chunks_readable_def)
  from Cons.prems(2) have s: "sendable S (Fr (Object h (of_nat (length d))))" "sendable S (Raw d)"
    "list_all (sendable S) (chunk_msgs e hs)" by (simp_all add: d)
  from Cons.IH [of "sent S key [Fr (Object h (of_nat (length d))), Raw d] c"] Cons.prems s show ?case
    by (simp add: d bindS_def send_frame_sent [OF assms(1)] send_payload_sent [OF assms(1)] sent_append chunks_readable_def)
qed (simp add: sent_nil)

lemma send_objects_sent:
  assumes "sync_laws S" and "files_readable C e ps" and "list_all (sendable S) (file_msgs C e ps)" and "broken_after c = None"
  shows "send_objects C S key e ps c = (Inr (), sent S key (file_msgs C e ps) c)"
  using assms(2-)
proof (induction ps arbitrary: c)
  case (Cons p ps)
  from Cons.prems(1) obtain hs where hs: "file_chunks (cr_index C) p e = Inr hs" "chunks_readable e hs"
    and rest: "files_readable C e ps" by (auto simp: files_readable_def)
  from Cons.prems(2) have s: "sendable S (Fr (FileChunks p hs))" "list_all (sendable S) (chunk_msgs e hs)"
    "list_all (sendable S) (file_msgs C e ps)" by (simp_all add: hs(1))
  have "send_chunks S key e hs (sent S key [Fr (FileChunks p hs)] c) = (Inr (), sent S key (Fr (FileChunks p hs) # chunk_msgs e hs) c)"
    using send_chunks_sent [OF assms(1) hs(2) s(2), of "sent S key [Fr (FileChunks p hs)] c" key] Cons.prems(3)
    by (simp add: sent_append)
  with Cons.IH [OF rest s(3), of "sent S key (Fr (FileChunks p hs) # chunk_msgs e hs) c"] Cons.prems(3) show ?case
    by (simp add: hs(1) bindS_def send_frame_sent [OF assms(1) s(1)] sent_append)
qed (simp add: sent_nil)

section \<open>Storing without a network\<close>

text \<open>What a transfer should do: store the files of a snapshot of the engine \<open>e\<close> in the other engine,
  chunk by chunk, and register the snapshot there.\<close>

definition store_chunks :: "'db crates \<Rightarrow> 'db engine \<Rightarrow> string list \<Rightarrow> ('db engine, unit) step" where
  "store_chunks C e = for_each (\<lambda>h. bindS (liftS (read_object_data h e)) (store_object C h))"

definition store_files :: "'db crates \<Rightarrow> 'db engine \<Rightarrow> string list \<Rightarrow> ('db engine, unit) step" where
  "store_files C e = for_each (\<lambda>p. bindS (liftS (file_chunks (cr_index C) p e)) (\<lambda>hs.
     bindS (store_file_chunks (cr_index C) p hs) (\<lambda>_. store_chunks C e hs)))"

definition transfer :: "'db crates \<Rightarrow> string \<Rightarrow> 'db engine \<Rightarrow> ('db engine, unit) step" where
  "transfer C snapshot_id e =
     bindS (liftS (snapshot_manifest_json (cr_index C) snapshot_id e)) (\<lambda>manifest.
     bindS (liftS (snapshot_files (cr_index C) snapshot_id e)) (\<lambda>files.
     bindS (store_files C e files) (\<lambda>_.
     register_remote_snapshot (cr_index C) snapshot_id manifest)))"

lemma store_chunks_Cons:
  "store_chunks C e (h # hs) e' = (Inr (), e2) \<longleftrightarrow>
     (\<exists>d e1. read_object_data h e = Inr d \<and> store_object C h d e' = (Inr (), e1) \<and> store_chunks C e hs e1 = (Inr (), e2))"
  by (auto simp: store_chunks_def bindS_Inr_iff)

lemma store_files_Cons:
  "store_files C e (p # ps) e' = (Inr (), e3) \<longleftrightarrow>
     (\<exists>hs e1 e2. file_chunks (cr_index C) p e = Inr hs \<and> store_file_chunks (cr_index C) p hs e' = (Inr (), e1) \<and>
        store_chunks C e hs e1 = (Inr (), e2) \<and> store_files C e ps e2 = (Inr (), e3))"
  by (auto simp: store_files_def bindS_Inr_iff)

lemma store_nil: "store_chunks C e [] e' = (Inr (), e')" "store_files C e [] e' = (Inr (), e')"
  by (simp_all add: store_chunks_def store_files_def)

lemma store_chunks_readable: "store_chunks C e hs e' = (Inr (), e1) \<Longrightarrow> chunks_readable e hs"
  by (induction hs arbitrary: e') (auto simp: store_chunks_Cons chunks_readable_def)

lemma store_files_readable: "store_files C e ps e' = (Inr (), e1) \<Longrightarrow> files_readable C e ps"
proof (induction ps arbitrary: e')
  case (Cons p ps)
  from Cons.prems obtain hs a b where "file_chunks (cr_index C) p e = Inr hs"
    "store_chunks C e hs a = (Inr (), b)" "store_files C e ps b = (Inr (), e1)"
    by (auto simp: store_files_Cons)
  then show ?case using Cons.IH [of b] store_chunks_readable [of C e hs] by (simp add: files_readable_def)
qed (simp add: files_readable_def)

section \<open>The receiver\<close>

lemma inbox_self [simp]: "c\<lparr>inbox := inbox c\<rparr> = c"
  by (cases c) simp

lemma receive_file:
  assumes "sync_laws S" and "sendable S (Fr (FileChunks p hs))" and "store_file_chunks (cr_index C) p hs e' = (Inr (), e1)"
    and "inbox c = frame_packet S key i (FileChunks p hs) @ rest"
  shows "receive_loop C S key e' c = receive_loop C S key e1 (c\<lparr>inbox := rest\<rparr>)"
  by (subst receive_loop.simps) (simp add: recv_frame_packet [OF assms(1,2,4)] assms(3))

lemma receive_object:
  assumes "sync_laws S" and "sendable S (Fr (Object h (of_nat (length d))))" and "sendable S (Raw d)"
    and "store_object C h d e' = (Inr (), e1)"
    and "inbox c = frame_packet S key i (Object h (of_nat (length d))) @ packet S key j d @ rest"
  shows "receive_loop C S key e' c = receive_loop C S key e1 (c\<lparr>inbox := rest\<rparr>)"
proof -
  have "length d + 16 \<le> MAX_FRAME_BYTES" using assms(3) by (simp add: sendable_def payload_of_def)
  from recv_payload_packet [OF assms(1) this, of "c\<lparr>inbox := packet S key j d @ rest\<rparr>"]
  show ?thesis by (subst receive_loop.simps) (simp add: recv_frame_packet [OF assms(1,2,5)] assms(4))
qed

lemma receive_end:
  assumes "sync_laws S" and "sendable S (Fr PushEnd)" and "inbox c = frame_packet S key i PushEnd @ rest"
  shows "receive_loop C S key e' c = (Inr (), (e', c\<lparr>inbox := rest\<rparr>))"
  by (subst receive_loop.simps) (simp add: recv_frame_packet [OF assms])

lemma receive_chunks:
  assumes "sync_laws S" and "store_chunks C e hs e' = (Inr (), e1)" and "list_all (sendable S) (chunk_msgs e hs)"
    and "inbox c = wire S key i (chunk_msgs e hs) @ rest"
  shows "receive_loop C S key e' c = receive_loop C S key e1 (c\<lparr>inbox := rest\<rparr>)"
  using assms(2-)
proof (induction hs arbitrary: e' c i)
  case Nil
  then have "e' = e1" "rest = inbox c" by (simp_all add: store_nil)
  then show ?case by simp
next
  case (Cons h hs)
  from Cons.prems(1) obtain d a where d: "read_object_data h e = Inr d" "store_object C h d e' = (Inr (), a)"
    "store_chunks C e hs a = (Inr (), e1)" by (auto simp: store_chunks_Cons)
  from Cons.prems(2) have s: "sendable S (Fr (Object h (of_nat (length d))))" "sendable S (Raw d)"
    "list_all (sendable S) (chunk_msgs e hs)" by (simp_all add: d(1))
  let ?rest = "wire S key (Suc (Suc i)) (chunk_msgs e hs) @ rest"
  have "inbox c = frame_packet S key i (Object h (of_nat (length d))) @ packet S key (Suc i) d @ ?rest"
    using Cons.prems(3) by (simp add: d(1) payload_of_def)
  from receive_object [OF assms(1) s(1,2) d(2) this] Cons.IH [OF d(3) s(3), of "c\<lparr>inbox := ?rest\<rparr>"]
  show ?case by simp
qed

lemma receive_files:
  assumes "sync_laws S" and "store_files C e ps e' = (Inr (), e1)" and "list_all (sendable S) (file_msgs C e ps)"
    and "inbox c = wire S key i (file_msgs C e ps) @ rest"
  shows "receive_loop C S key e' c = receive_loop C S key e1 (c\<lparr>inbox := rest\<rparr>)"
  using assms(2-)
proof (induction ps arbitrary: e' c i)
  case Nil
  then have "e' = e1" "rest = inbox c" by (simp_all add: store_nil)
  then show ?case by simp
next
  case (Cons p ps)
  from Cons.prems(1) obtain hs a b where hs: "file_chunks (cr_index C) p e = Inr hs"
    "store_file_chunks (cr_index C) p hs e' = (Inr (), a)" "store_chunks C e hs a = (Inr (), b)"
    "store_files C e ps b = (Inr (), e1)" by (auto simp: store_files_Cons)
  from Cons.prems(2) have s: "sendable S (Fr (FileChunks p hs))" "list_all (sendable S) (chunk_msgs e hs)"
    "list_all (sendable S) (file_msgs C e ps)" by (simp_all add: hs(1))
  define after where "after = wire S key (Suc i + length (chunk_msgs e hs)) (file_msgs C e ps) @ rest"
  define mid where "mid = wire S key (Suc i) (chunk_msgs e hs) @ after"
  have "inbox c = frame_packet S key i (FileChunks p hs) @ mid"
    using Cons.prems(3) by (simp add: hs(1) wire_append mid_def after_def)
  then have "receive_loop C S key e' c = receive_loop C S key a (c\<lparr>inbox := mid\<rparr>)"
    by (rule receive_file [OF assms(1) s(1) hs(2)])
  also have "\<dots> = receive_loop C S key b (c\<lparr>inbox := after\<rparr>)"
    using receive_chunks [OF assms(1) hs(3) s(2), of "c\<lparr>inbox := mid\<rparr>" key "Suc i" after] by (simp add: mid_def)
  also have "\<dots> = receive_loop C S key e1 (c\<lparr>inbox := rest\<rparr>)"
    using Cons.IH [OF hs(4) s(3), of "c\<lparr>inbox := after\<rparr>"] by (simp add: after_def)
  finally show ?case .
qed

section \<open>The whole exchange\<close>

text \<open>A fresh connection on which the bytes \<open>b\<close> arrive; \<open>i\<close> is the state of the random generator.\<close>

definition line :: "nat \<Rightarrow> bytes \<Rightarrow> conn" where
  "line i b = \<lparr>inbox = b, outbox = [], drawn = i, broken_after = None\<rparr>"

text \<open>Two sessions over one connection: what one side sends arrives at the other.\<close>

definition exchange ::
  "('db session, unit) step \<Rightarrow> ('db session, unit) step \<Rightarrow> 'db engine \<Rightarrow> 'db engine \<Rightarrow> 'db engine \<Rightarrow> 'db engine \<Rightarrow> bool" where
  "exchange m m' e e' e1 e1' =
     (\<forall>i j. \<exists>c c'. m (e, line i (outbox c')) = (Inr (), (e1, c)) \<and> m' (e', line j (outbox c)) = (Inr (), (e1', c')))"

text \<open>Every frame of the transfer fits the wire.\<close>

definition transfer_fits :: "'db crates \<Rightarrow> sync_libs \<Rightarrow> string \<Rightarrow> string \<Rightarrow> 'db engine \<Rightarrow> bool" where
  "transfer_fits C S token snapshot_id e =
     (list_all (sendable S) [Fr (Hello PROTOCOL_VERSION token), Fr (HelloAck ''ok'' None), Fr (PushReady ''ok''),
        Fr PushEnd, Fr (PushAck ''ok''), Fr (PullRequest snapshot_id)] \<and>
      (case (snapshot_manifest_json (cr_index C) snapshot_id e, snapshot_files (cr_index C) snapshot_id e) of
         (Inr manifest, Inr files) \<Rightarrow>
           sendable S (Fr (PushBegin snapshot_id manifest (of_nat (length files)))) \<and> list_all (sendable S) (file_msgs C e files)
       | _ \<Rightarrow> False))"

lemma make_cipher_ok: "hash_laws X \<Longrightarrow> make_cipher X token = Inr (blake3 X (bytes_of token))"
  by (simp add: make_cipher_def hash_laws_def Let_def)

text \<open>The sender of a snapshot, after the handshake, when the receiver answers as it should.\<close>

lemma send_snapshot_run:
  assumes "sync_laws S" and "transfer_fits C S token snapshot_id e"
    and "snapshot_manifest_json (cr_index C) snapshot_id e = Inr manifest"
    and "snapshot_files (cr_index C) snapshot_id e = Inr files" and "files_readable C e files"
    and "broken_after c = None" and "inbox c = frame_packet S key j (PushReady ''ok'') @ frame_packet S key (Suc j) (PushAck ''ok'') @ rest"
  shows "send_snapshot C S key e snapshot_id c = (Inr (), (sent S key
     (Fr (PushBegin snapshot_id manifest (of_nat (length files))) # file_msgs C e files @ [Fr PushEnd]) c)\<lparr>inbox := rest\<rparr>)"
proof -
  have fits: "sendable S (Fr (PushReady ''ok''))" "sendable S (Fr (PushAck ''ok''))" "sendable S (Fr PushEnd)"
    "sendable S (Fr (PushBegin snapshot_id manifest (of_nat (length files))))" "list_all (sendable S) (file_msgs C e files)"
    using assms(2-4) by (simp_all add: transfer_fits_def)
  let ?b = "Fr (PushBegin snapshot_id manifest (of_nat (length files)))"
  let ?ack = "frame_packet S key (Suc j) (PushAck ''ok'') @ rest"
  let ?c1 = "sent S key [?b] c" let ?c2 = "?c1\<lparr>inbox := ?ack\<rparr>"
  let ?c3 = "sent S key (file_msgs C e files) ?c2" let ?c4 = "sent S key [Fr PushEnd] ?c3"
  have 1: "send_frame S key (PushBegin snapshot_id manifest (of_nat (length files))) c = (Inr (), ?c1)"
    by (rule send_frame_sent) (use assms(1,6) fits in simp_all)
  have 2: "expect_ready S key ?c1 = (Inr (), ?c2)"
    using recv_frame_packet [OF assms(1) fits(1), of ?c1 key j ?ack] assms(7) by (simp add: expect_ready_def bindS_def)
  have 3: "send_objects C S key e files ?c2 = (Inr (), ?c3)"
    by (rule send_objects_sent) (use assms fits in simp_all)
  have 4: "send_frame S key PushEnd ?c3 = (Inr (), ?c4)"
    by (rule send_frame_sent) (use assms(1,6) fits in simp_all)
  have 5: "expect_ack S key ?c4 = (Inr (), ?c4\<lparr>inbox := rest\<rparr>)"
    using recv_frame_packet [OF assms(1) fits(2), of ?c4 key "Suc j" rest] by (simp add: expect_ack_def bindS_def)
  have "?c4\<lparr>inbox := rest\<rparr> = (sent S key (?b # file_msgs C e files @ [Fr PushEnd]) c)\<lparr>inbox := rest\<rparr>"
    by (simp add: sent_def wire_append)
  then show ?thesis
    by (simp add: send_snapshot_def assms(3,4) bindS_def 1 2 3 4 5)
qed

text \<open>The receiver, after it has read \<open>push_begin\<close>.\<close>

lemma receive_snapshot_run:
  assumes "sync_laws S" and "sendable S (Fr (PushReady ''ok''))" "sendable S (Fr (PushAck ''ok''))" "sendable S (Fr PushEnd)"
    and "list_all (sendable S) (file_msgs C e files)" and "store_files C e files e' = (Inr (), e1)"
    and "register_remote_snapshot (cr_index C) snapshot_id manifest e1 = (Inr (), e2)" and "broken_after c = None"
    and "inbox c = wire S key i (file_msgs C e files @ [Fr PushEnd]) @ rest"
  shows "receive_snapshot C S key snapshot_id manifest (e', c) =
     (Inr (), (e2, (sent S key [Fr (PushReady ''ok''), Fr (PushAck ''ok'')] c)\<lparr>inbox := rest\<rparr>))"
proof -
  let ?c1 = "sent S key [Fr (PushReady ''ok'')] c"
  let ?tail = "frame_packet S key (i + length (file_msgs C e files)) PushEnd @ rest"
  have 1: "send_frame S key (PushReady ''ok'') c = (Inr (), ?c1)"
    by (rule send_frame_sent) (use assms in simp_all)
  have "receive_loop C S key e' ?c1 = receive_loop C S key e1 (?c1\<lparr>inbox := ?tail\<rparr>)"
    by (rule receive_files [OF assms(1,6,5)]) (use assms(9) in \<open>simp add: wire_append\<close>)
  also have "\<dots> = (Inr (), (e1, ?c1\<lparr>inbox := rest\<rparr>))"
    by (rule trans [OF receive_end [OF assms(1,4), where rest = rest and i = "i + length (file_msgs C e files)"]]) simp_all
  finally have 2: "receive_loop C S key e' ?c1 = (Inr (), (e1, ?c1\<lparr>inbox := rest\<rparr>))" .
  let ?c2 = "?c1\<lparr>inbox := rest\<rparr>"
  have 3: "send_frame S key (PushAck ''ok'') ?c2 = (Inr (), sent S key [Fr (PushAck ''ok'')] ?c2)"
    by (rule send_frame_sent) (use assms in simp_all)
  have "sent S key [Fr (PushAck ''ok'')] ?c2 = (sent S key [Fr (PushReady ''ok''), Fr (PushAck ''ok'')] c)\<lparr>inbox := rest\<rparr>"
    by (simp add: sent_def)
  then show ?thesis
    by (simp add: receive_snapshot_def bindS_def on_net_def on_engine_def 1 2 assms(7) 3)
qed

text \<open>The handshake, from both sides.\<close>

lemma handshake_run:
  assumes "sync_laws S" and "sendable S (Fr (Hello PROTOCOL_VERSION token))" and "sendable S (Fr (HelloAck ''ok'' None))"
    and "broken_after c = None" and "inbox c = frame_packet S key k (HelloAck ''ok'' None) @ rest"
  shows "sender_handshake S key token c = (Inr (), (sent S key [Fr (Hello PROTOCOL_VERSION token)] c)\<lparr>inbox := rest\<rparr>)"
  using recv_frame_packet [OF assms(1,3), of "sent S key [Fr (Hello PROTOCOL_VERSION token)] c" key k rest] assms(4,5)
  by (simp add: sender_handshake_def bindS_def send_frame_sent [OF assms(1,2)])

lemma listener_run:
  assumes "sync_laws S" and "sendable S (Fr (Hello PROTOCOL_VERSION token))" and "sendable S (Fr (HelloAck ''ok'' None))"
    and "sendable S (Fr fr)" and "broken_after c = None" and "make_cipher (cr_libs C) token = Inr key"
    and "inbox c = frame_packet S key i (Hello PROTOCOL_VERSION token) @ frame_packet S key k fr @ rest"
  defines "c2 \<equiv> (sent S key [Fr (HelloAck ''ok'' None)] c)\<lparr>inbox := rest\<rparr>"
  shows "fr = PushBegin sid m n \<Longrightarrow> handle_incoming C S token (e, c) = receive_snapshot C S key sid m (e, c2)"
    and "fr = PullRequest sid \<Longrightarrow> handle_incoming C S token (e, c) = on_net (send_snapshot C S key e sid) (e, c2)"
proof -
  let ?c1 = "sent S key [Fr (HelloAck ''ok'' None)] (c\<lparr>inbox := frame_packet S key k fr @ rest\<rparr>)"
  have 1: "recv_frame S key c = (Inr (Hello PROTOCOL_VERSION token), c\<lparr>inbox := frame_packet S key k fr @ rest\<rparr>)"
    by (rule recv_frame_packet [OF assms(1,2,7)])
  have 2: "send_frame S key (HelloAck ''ok'' None) (c\<lparr>inbox := frame_packet S key k fr @ rest\<rparr>) = (Inr (), ?c1)"
    by (rule send_frame_sent [OF assms(1,3)]) (simp add: assms(5))
  have "?c1\<lparr>inbox := rest\<rparr> = c2" by (simp add: c2_def sent_def)
  then have 3: "recv_frame S key ?c1 = (Inr fr, c2)"
    using recv_frame_packet [OF assms(1,4), of ?c1 key k rest] by simp
  show "fr = PushBegin sid m n \<Longrightarrow> handle_incoming C S token (e, c) = receive_snapshot C S key sid m (e, c2)"
    and "fr = PullRequest sid \<Longrightarrow> handle_incoming C S token (e, c) = on_net (send_snapshot C S key e sid) (e, c2)"
    using 1 2 3 assms(6) by (simp_all add: handle_incoming_def bindS_def on_net_def)
qed

lemma transfer_fitsD:
  assumes "transfer_fits C S token snapshot_id e" and "snapshot_manifest_json (cr_index C) snapshot_id e = Inr manifest"
    and "snapshot_files (cr_index C) snapshot_id e = Inr files"
  shows "sendable S (Fr (Hello PROTOCOL_VERSION token))" "sendable S (Fr (HelloAck ''ok'' None))"
    "sendable S (Fr (PushReady ''ok''))" "sendable S (Fr (PushAck ''ok''))" "sendable S (Fr PushEnd)"
    "sendable S (Fr (PullRequest snapshot_id))" "sendable S (Fr (PushBegin snapshot_id manifest (of_nat (length files))))"
    "list_all (sendable S) (file_msgs C e files)"
  using assms by (simp_all add: transfer_fits_def)

lemma exchange_intro:
  assumes "m (e, line i replies) = (Inr (), (e1, c))" and "outbox c = requests"
    and "m' (e', line j requests) = (Inr (), (e1', c'))" and "outbox c' = replies"
  shows "\<exists>c c'. m (e, line i (outbox c')) = (Inr (), (e1, c)) \<and> m' (e', line j (outbox c)) = (Inr (), (e1', c'))"
  using assms by blast

lemma push_run:
  assumes "sync_laws S" and "transfer_fits C S token snapshot_id e" and "make_cipher (cr_libs C) token = Inr key"
    and "snapshot_manifest_json (cr_index C) snapshot_id e = Inr manifest" "snapshot_files (cr_index C) snapshot_id e = Inr files"
    and st: "store_files C e files e' = (Inr (), e1)"
    and reg: "register_remote_snapshot (cr_index C) snapshot_id manifest e1 = (Inr (), e2)" and tok: "sync_token rcfg = token"
  shows "\<exists>c c'. push_snapshot C S rcfg snapshot_id (e, line i (outbox c')) = (Inr (), (e, c)) \<and>
        handle_incoming C S token (e', line j (outbox c)) = (Inr (), (e2, c'))"
proof -
  let ?open = "PushBegin snapshot_id manifest (of_nat (length files))"
  let ?ms = "file_msgs C e files @ [Fr PushEnd]"
  note fits = transfer_fitsD [OF assms(2,4,5)] and read = store_files_readable [OF st]
  define replies where "replies = frame_packet S key j (HelloAck ''ok'' None) @
    frame_packet S key (Suc j) (PushReady ''ok'') @ frame_packet S key (Suc (Suc j)) (PushAck ''ok'')"
  define requests where "requests = frame_packet S key i (Hello PROTOCOL_VERSION token) @
    frame_packet S key (Suc i) ?open @ wire S key (Suc (Suc i)) ?ms"
  let ?c0 = "line i replies" let ?d0 = "line j requests"
  let ?c1 = "(sent S key [Fr (Hello PROTOCOL_VERSION token)] ?c0)\<lparr>inbox :=
      frame_packet S key (Suc j) (PushReady ''ok'') @ frame_packet S key (Suc (Suc j)) (PushAck ''ok'')\<rparr>"
  have 1: "sender_handshake S key token ?c0 = (Inr (), ?c1)"
    by (rule handshake_run [OF assms(1) fits(1,2)]) (simp_all add: line_def replies_def)
  have "send_snapshot C S key e snapshot_id ?c1 = (Inr (), (sent S key (Fr ?open # ?ms) ?c1)\<lparr>inbox := []\<rparr>)"
    by (rule send_snapshot_run [OF assms(1,2,4,5) read]) (simp_all add: line_def)
  then have c: "push_snapshot C S rcfg snapshot_id (e, ?c0) = (Inr (), (e, (sent S key (Fr ?open # ?ms) ?c1)\<lparr>inbox := []\<rparr>))"
    using 1 by (simp add: push_snapshot_def tok assms(3) bindS_def on_net_def)
  have "outbox ((sent S key (Fr ?open # ?ms) ?c1)\<lparr>inbox := []\<rparr>) = requests"
    by (simp add: requests_def line_def)
  let ?d1 = "(sent S key [Fr (HelloAck ''ok'' None)] ?d0)\<lparr>inbox := wire S key (Suc (Suc i)) ?ms\<rparr>"
  have "handle_incoming C S token (e', ?d0) = receive_snapshot C S key snapshot_id manifest (e', ?d1)"
    by (rule listener_run(1) [OF assms(1) fits(1,2,7) _ assms(3)]) (simp_all add: line_def requests_def)
  also have "\<dots> = (Inr (), (e2, (sent S key [Fr (PushReady ''ok''), Fr (PushAck ''ok'')] ?d1)\<lparr>inbox := []\<rparr>))"
    by (rule receive_snapshot_run [OF assms(1) fits(3,4,5,8) st reg]) (simp_all add: line_def)
  finally have d: "handle_incoming C S token (e', ?d0) =
      (Inr (), (e2, (sent S key [Fr (PushReady ''ok''), Fr (PushAck ''ok'')] ?d1)\<lparr>inbox := []\<rparr>))" .
  have "outbox ((sent S key [Fr (PushReady ''ok''), Fr (PushAck ''ok'')] ?d1)\<lparr>inbox := []\<rparr>) = replies"
    by (simp add: replies_def line_def)
  with exchange_intro [where m = "push_snapshot C S rcfg snapshot_id" and m' = "handle_incoming C S token", OF c \<open>_ = requests\<close> d]
    show ?thesis by blast
qed

lemma pull_run:
  assumes "sync_laws S" and "transfer_fits C S token snapshot_id e" and "make_cipher (cr_libs C) token = Inr key"
    and "snapshot_manifest_json (cr_index C) snapshot_id e = Inr manifest" "snapshot_files (cr_index C) snapshot_id e = Inr files"
    and st: "store_files C e files e' = (Inr (), e1)"
    and reg: "register_remote_snapshot (cr_index C) snapshot_id manifest e1 = (Inr (), e2)" and tok: "sync_token rcfg = token"
  shows "\<exists>c c'. pull_snapshot C S rcfg snapshot_id (e', line i (outbox c')) = (Inr (), (e2, c)) \<and>
        handle_incoming C S token (e, line j (outbox c)) = (Inr (), (e, c'))"
proof -
  let ?open = "PushBegin snapshot_id manifest (of_nat (length files))"
  let ?ms = "file_msgs C e files @ [Fr PushEnd]"
  note fits = transfer_fitsD [OF assms(2,4,5)] and read = store_files_readable [OF st]
  define requests where "requests = frame_packet S key i (Hello PROTOCOL_VERSION token) @
    frame_packet S key (Suc i) (PullRequest snapshot_id) @
    frame_packet S key (Suc (Suc i)) (PushReady ''ok'') @ frame_packet S key (Suc (Suc (Suc i))) (PushAck ''ok'')"
  define replies where "replies = frame_packet S key j (HelloAck ''ok'' None) @
    frame_packet S key (Suc j) ?open @ wire S key (Suc (Suc j)) ?ms"
  let ?c0 = "line i replies" let ?d0 = "line j requests"
  let ?c1 = "(sent S key [Fr (Hello PROTOCOL_VERSION token)] ?c0)\<lparr>inbox :=
      frame_packet S key (Suc j) ?open @ wire S key (Suc (Suc j)) ?ms\<rparr>"
  let ?c2 = "sent S key [Fr (PullRequest snapshot_id)] ?c1"
  let ?c3 = "?c2\<lparr>inbox := wire S key (Suc (Suc j)) ?ms\<rparr>"
  let ?c4 = "(sent S key [Fr (PushReady ''ok''), Fr (PushAck ''ok'')] ?c3)\<lparr>inbox := []\<rparr>"
  have 1: "sender_handshake S key token ?c0 = (Inr (), ?c1)"
    by (rule handshake_run [OF assms(1) fits(1,2)]) (simp_all add: line_def replies_def)
  have 2: "send_frame S key (PullRequest snapshot_id) ?c1 = (Inr (), ?c2)"
    by (rule send_frame_sent [OF assms(1) fits(6)]) (simp add: line_def)
  have 3: "recv_frame S key ?c2 = (Inr ?open, ?c3)"
    by (rule recv_frame_packet [OF assms(1) fits(7)]) simp
  have 4: "receive_snapshot C S key snapshot_id manifest (e', ?c3) = (Inr (), (e2, ?c4))"
    by (rule receive_snapshot_run [OF assms(1) fits(3,4,5,8) st reg]) (simp_all add: line_def)
  have c: "pull_snapshot C S rcfg snapshot_id (e', ?c0) = (Inr (), (e2, ?c4))"
    by (simp add: pull_snapshot_def tok assms(3) bindS_def on_net_def 1 2 3 4)
  have "outbox ?c4 = requests" by (simp add: requests_def line_def)
  let ?d1 = "(sent S key [Fr (HelloAck ''ok'' None)] ?d0)\<lparr>inbox :=
      frame_packet S key (Suc (Suc i)) (PushReady ''ok'') @ frame_packet S key (Suc (Suc (Suc i))) (PushAck ''ok'')\<rparr>"
  let ?d2 = "(sent S key (Fr ?open # ?ms) ?d1)\<lparr>inbox := []\<rparr>"
  have "handle_incoming C S token (e, ?d0) = on_net (send_snapshot C S key e snapshot_id) (e, ?d1)"
    by (rule listener_run(2) [OF assms(1) fits(1,2,6) _ assms(3)]) (simp_all add: line_def requests_def)
  moreover have "send_snapshot C S key e snapshot_id ?d1 = (Inr (), ?d2)"
    by (rule send_snapshot_run [OF assms(1,2,4,5) read]) (simp_all add: line_def)
  ultimately have d: "handle_incoming C S token (e, ?d0) = (Inr (), (e, ?d2))" by (simp add: on_net_def)
  have "outbox ?d2 = replies" by (simp add: replies_def line_def)
  with exchange_intro [where m = "pull_snapshot C S rcfg snapshot_id" and m' = "handle_incoming C S token", OF c \<open>_ = requests\<close> d]
    show ?thesis by blast
qed

text \<open>C5: synchronisation is a direct transfer.  When two sidecars share the token and the frames fit
  the wire, pushing a snapshot over a connection to the listener of the other side succeeds on
  both sides, leaves the sender as it is, and does to the receiver exactly what storing the
  snapshot there without a network does; so does pulling it, with the roles exchanged.\<close>

theorem sync_is_transfer:
  assumes "sync_laws S" and "hash_laws (cr_libs C)" and "transfer_fits C S (sync_token rcfg) snapshot_id e"
    and "transfer C snapshot_id e e' = (Inr (), e2)"
  shows "exchange (push_snapshot C S rcfg snapshot_id) (handle_incoming C S (sync_token rcfg)) e e' e e2 \<and>
     exchange (pull_snapshot C S rcfg snapshot_id) (handle_incoming C S (sync_token rcfg)) e' e e2 e"
proof -
  from assms(4) obtain manifest files e1 where
    m: "snapshot_manifest_json (cr_index C) snapshot_id e = Inr manifest" "snapshot_files (cr_index C) snapshot_id e = Inr files"
    and st: "store_files C e files e' = (Inr (), e1)"
    and reg: "register_remote_snapshot (cr_index C) snapshot_id manifest e1 = (Inr (), e2)"
    by (auto simp: transfer_def bindS_Inr_iff)
  have key: "make_cipher (cr_libs C) (sync_token rcfg) = Inr (blake3 (cr_libs C) (bytes_of (sync_token rcfg)))"
    by (rule make_cipher_ok [OF assms(2)])
  show ?thesis unfolding exchange_def
    using push_run [OF assms(1,3) key m st reg refl] pull_run [OF assms(1,3) key m st reg refl] by blast
qed

section \<open>What a transfer achieves\<close>

text \<open>What storing the objects \<open>hs\<close> does to the receiving engine.\<close>

definition objects_stored :: "'db crates \<Rightarrow> (string \<Rightarrow> bytes) \<Rightarrow> string list \<Rightarrow> 'db engine \<Rightarrow> 'db engine \<Rightarrow> bool" where
  "objects_stored C content hs e e' =
     (engine_inv C content e' \<and>
      (\<forall>h. contains (obj_store e') h \<longleftrightarrow> contains (obj_store e) h \<or> h \<in> set hs) \<and>
      st_files (abs_index (cr_index C) (index_db e')) = st_files (abs_index (cr_index C) (index_db e)) \<and>
      st_snaps (abs_index (cr_index C) (index_db e')) = st_snaps (abs_index (cr_index C) (index_db e)) \<and>
      (\<forall>q. outside (obj_store e) q \<longrightarrow> fs_read (disk e') q = fs_read (disk e) q) \<and>
      objects_dir (obj_store e') = objects_dir (obj_store e) \<and>
      packfile_dir (obj_store e') = packfile_dir (obj_store e) \<and>
      (\<exists>db s f. e' = e\<lparr>index_db := db, obj_store := s, disk := f\<rparr>))"

lemma objects_stored_refl: "engine_inv C content e \<Longrightarrow> objects_stored C content [] e e"
  unfolding objects_stored_def by (auto intro!: exI [of _ "index_db e"] exI [of _ "obj_store e"] exI [of _ "disk e"])

lemma objects_stored_trans:
  assumes "objects_stored C content hs e e1" and "objects_stored C content hs' e1 e2"
  shows "objects_stored C content (hs @ hs') e e2"
proof -
  have "outside (obj_store e1) q = outside (obj_store e) q" for q
    using assms(1) by (simp add: objects_stored_def outside_def)
  moreover obtain db s f db' s' f' where "e1 = e\<lparr>index_db := db, obj_store := s, disk := f\<rparr>"
    "e2 = e1\<lparr>index_db := db', obj_store := s', disk := f'\<rparr>" using assms unfolding objects_stored_def by blast
  then have "\<exists>db s f. e2 = e\<lparr>index_db := db, obj_store := s, disk := f\<rparr>"
    by (intro exI [of _ db'] exI [of _ s'] exI [of _ f']) simp
  ultimately show ?thesis using assms unfolding objects_stored_def by simp
qed

lemma on_store_Inr: "on_store m e = (Inr x, e') \<longleftrightarrow>
    (\<exists>s f. m (obj_store e, disk e) = (Inr x, (s, f)) \<and> e' = e\<lparr>obj_store := s, disk := f\<rparr>)"
  by (auto simp: on_store_def split: prod.splits)

text \<open>An object that the receiver holds already, or has room for.\<close>

definition receivable :: "'db engine \<Rightarrow> string \<Rightarrow> bytes \<Rightarrow> bool" where
  "receivable e h d = (contains (obj_store e) h \<or> room (obj_store e, disk e) h d)"

lemma store_object_steps:
  assumes "store_object C h d e = (Inr (), e1)" and "index_ok (cr_index C) (index_db e)"
  obtains s f db where
    "write_object (cr_libs C) h d (of_nat (length d)) (obj_store e, disk e) = (Inr (), (s, f))"
    "index_ok (cr_index C) db" "abs_index (cr_index C) db = bump h (abs_index (cr_index C) (index_db e))"
    "e1 = e\<lparr>obj_store := s, disk := f, index_db := db\<rparr>"
proof -
  let ?L = "cr_index C" and ?n = "of_nat (length d)"
  from assms(1) obtain b a c where
    1: "on_store (write_object (cr_libs C) h d ?n) e = (Inr (), a)"
    and 2: "on_index (if b then increment_ref ?L h else insert_chunk ?L h ''<remote>'' 0 ?n) a = (Inr (), c)" and "c = e1"
    unfolding store_object_def bindS_Inr_iff by auto
  from 1 obtain s f where w: "write_object (cr_libs C) h d ?n (obj_store e, disk e) = (Inr (), (s, f))"
    and a: "a = e\<lparr>obj_store := s, disk := f\<rparr>" by (auto simp: on_store_Inr)
  from 2 obtain db where i: "(if b then increment_ref ?L h else insert_chunk ?L h ''<remote>'' 0 ?n) (index_db e) = (Inr (), db)"
    and e1: "e1 = e\<lparr>obj_store := s, disk := f, index_db := db\<rparr>" using \<open>c = e1\<close> unfolding on_index_Inr by (auto simp: a)
  have "refines ?L (if b then increment_ref ?L h else insert_chunk ?L h ''<remote>'' 0 ?n) () (bump h) (index_db e)"
    using increment_ref_refines [OF assms(2)] insert_chunk_refines [OF assms(2)] by simp
  from refinesE [OF this] i obtain "index_ok ?L db" "abs_index ?L db = bump h (abs_index ?L (index_db e))" by (metis prod.inject)
  with w e1 show ?thesis using that by blast
qed

lemma store_object_stores:
  assumes laws: "rs_laws (cr_libs C)" and inv: "engine_inv C content e" and fits: "receivable e h d"
    and content: "content h = d" and run: "store_object C h d e = (Inr (), e1)"
  shows "objects_stored C content [h] e e1"
proof -
  have ok: "index_ok (cr_index C) (index_db e)" and f: "faithful content (obj_store e) (disk e)"
    and known: "\<And>k. st_known (abs_index (cr_index C) (index_db e)) k \<Longrightarrow> contains (obj_store e) k"
    using inv by (simp_all add: engine_inv_def data_inv_def)
  obtain s g db where
    w: "write_object (cr_libs C) h d (of_nat (length d)) (obj_store e, disk e) = (Inr (), (s, g))"
    and db: "index_ok (cr_index C) db" "abs_index (cr_index C) db = bump h (abs_index (cr_index C) (index_db e))"
    and e1: "e1 = e\<lparr>obj_store := s, disk := g, index_db := db\<rparr>"
    by (rule store_object_steps [OF run ok])
  have eff: "faithful content s g \<and> contains s = (contains (obj_store e))(h := True) \<and>
      (\<forall>q. outside (obj_store e) q \<longrightarrow> fs_read g q = fs_read (disk e) q) \<and> objects_dir s = objects_dir (obj_store e) \<and>
      packfile_dir s = packfile_dir (obj_store e)"
  proof (cases "contains (obj_store e) h")
    case True
    then have s: "s = obj_store e\<lparr>total_raw_bytes := total_raw_bytes (obj_store e) + of_nat (length d)\<rparr>" "g = disk e"
      using w write_object_dup [of "obj_store e" h "cr_libs C" d "of_nat (length d)" "disk e"] by auto
    have "store_inv s = store_inv (obj_store e)" "contains s = contains (obj_store e)" "read_object s g = read_object (obj_store e) (disk e)"
      by (simp_all add: s)
    then show ?thesis using f True by (auto simp: faithful_def s fun_eq_iff)
  next
    case False
    then have room: "room (obj_store e, disk e) h (content h)" using fits content by (simp add: receivable_def)
    have "object_store.sound (cr_libs C) content (obj_store e, disk e)" unfolding sound_faithful using laws f by blast
    note st = object_store.store_sound [OF this room w [folded content]]
    from st(1) have "faithful content s g" unfolding sound_faithful by blast
    moreover from st(2) have "contains s = (contains (obj_store e))(h := True)" by simp
    moreover note write_object_outside [OF laws _ room w [folded content]]
    ultimately show ?thesis using f by (simp add: faithful_def)
  qed
  show ?thesis
    unfolding objects_stored_def
  proof (intro conjI)
    show "engine_inv C content e1"
      using eff db known by (auto simp: engine_inv_def data_inv_def e1 bump_def)
    show "\<exists>db s f. e1 = e\<lparr>index_db := db, obj_store := s, disk := f\<rparr>"
      by (intro exI [of _ db] exI [of _ s] exI [of _ g]) (simp add: e1)
  qed (use eff db(2) in \<open>auto simp: e1 bump_def\<close>)
qed

text \<open>Room for the objects of a list of chunks, and of all files of a snapshot.\<close>

definition chunks_fit ::
  "'db crates \<Rightarrow> (string \<Rightarrow> bytes) \<Rightarrow> 'db engine \<Rightarrow> string list \<Rightarrow> 'db engine \<Rightarrow> bool" where
  "chunks_fit C content e hs e' = all_along (\<lambda>e' h. receivable e' h (content h))
     (\<lambda>h. bindS (liftS (read_object_data h e)) (store_object C h)) hs e'"

definition files_fit ::
  "'db crates \<Rightarrow> (string \<Rightarrow> bytes) \<Rightarrow> 'db engine \<Rightarrow> string list \<Rightarrow> 'db engine \<Rightarrow> bool" where
  "files_fit C content e ps e' = all_along
     (\<lambda>e' p. case file_chunks (cr_index C) p e of Inl x \<Rightarrow> False
        | Inr hs \<Rightarrow> chunks_fit C content e hs (snd (store_file_chunks (cr_index C) p hs e')))
     (\<lambda>p. bindS (liftS (file_chunks (cr_index C) p e)) (\<lambda>hs.
        bindS (store_file_chunks (cr_index C) p hs) (\<lambda>_. store_chunks C e hs))) ps e'"

lemma chunks_fit_Cons:
  "chunks_fit C content e (h # hs) e' \<longleftrightarrow> receivable e' h (content h) \<and>
     chunks_fit C content e hs (snd (bindS (liftS (read_object_data h e)) (store_object C h) e'))"
  by (simp add: chunks_fit_def)

lemma files_fit_Cons:
  "files_fit C content e (p # ps) e' \<longleftrightarrow>
     (case file_chunks (cr_index C) p e of Inl x \<Rightarrow> False
        | Inr hs \<Rightarrow> chunks_fit C content e hs (snd (store_file_chunks (cr_index C) p hs e'))) \<and>
     files_fit C content e ps (snd (bindS (liftS (file_chunks (cr_index C) p e)) (\<lambda>hs.
        bindS (store_file_chunks (cr_index C) p hs) (\<lambda>_. store_chunks C e hs)) e'))"
  by (simp add: files_fit_def)

lemma store_chunks_stores:
  assumes laws: "rs_laws (cr_libs C)" and src: "engine_inv C content e"
    and "engine_inv C content e'" and "chunks_fit C content e hs e'" and "store_chunks C e hs e' = (Inr (), e1)"
  shows "objects_stored C content hs e' e1"
  using assms(3-)
proof (induction hs arbitrary: e')
  case Nil
  then show ?case by (simp add: store_nil objects_stored_refl)
next
  case (Cons h hs)
  from Cons.prems(3) obtain d a where d: "read_object_data h e = Inr d" "store_object C h d e' = (Inr (), a)"
    "store_chunks C e hs a = (Inr (), e1)" by (auto simp: store_chunks_Cons)
  have "contains (obj_store e) h"
    using d(1) by (auto simp: read_object_data_def read_object_def contains_def split: option.splits)
  then have c: "content h = d" using src d(1) by (simp add: engine_inv_def data_inv_def faithful_def read_object_data_def)
  have fits: "receivable e' h d" "chunks_fit C content e hs a"
    using Cons.prems(2) c d(1,2) by (simp_all add: chunks_fit_Cons bindS_def)
  have 1: "objects_stored C content [h] e' a" by (rule store_object_stores [OF laws Cons.prems(1) fits(1) c d(2)])
  then have "engine_inv C content a" by (simp add: objects_stored_def)
  from objects_stored_trans [OF 1 Cons.IH [OF this fits(2) d(3)]] show ?case by simp
qed

text \<open>One file: its chunk list is set, then its objects are stored.\<close>

lemma store_one_file:
  assumes laws: "rs_laws (cr_libs C)" and src: "engine_inv C content e" and inv: "engine_inv C content e'"
    and held: "recoverable C e p b" "file_chunks (cr_index C) p e = Inr hs"
    and run: "store_file_chunks (cr_index C) p hs e' = (Inr (), a)" "store_chunks C e hs a = (Inr (), e1)"
    and fits: "chunks_fit C content e hs a"
  shows "files_stored C content [(p, b)] e' e1"
proof -
  let ?L = "cr_index C"
  have ok: "index_ok ?L (index_db e')" using inv by (simp add: engine_inv_def data_inv_def)
  obtain db where db: "insert_file_chunks ?L p hs 0 0 (index_db e') = (Inr (), db)" "a = e'\<lparr>index_db := db\<rparr>"
    using run(1) by (auto simp: store_file_chunks_def on_index_Inr)
  have i: "index_ok ?L db" "abs_index ?L db = set_file p hs 0 (abs_index ?L (index_db e'))"
    using insert_file_chunks_refines [OF ok, of p hs 0 0] db(1) by (auto simp: refines_def)
  have "engine_inv C content a" using inv i by (simp add: engine_inv_def data_inv_def db(2) set_file_def)
  note st = store_chunks_stores [OF laws src this fits run(2), unfolded objects_stored_def]
  have inv1: "engine_inv C content e1" using st by blast
  have g: "gather (obj_store e) (disk e) hs = (b, False)"
    using held by (simp add: recoverable_def file_chunks_def)
  have src': "faithful content (obj_store e) (disk e)" using src by (simp add: engine_inv_def data_inv_def)
  have dst: "faithful content (obj_store e1) (disk e1)" "faithful content (obj_store e') (disk e')" "index_ok ?L (index_db e1)"
    using inv1 inv by (simp_all add: engine_inv_def data_inv_def)
  have "concat (map content hs) = b" using gather_faithful [OF src', of hs] gather_complete [OF g] g by auto
  moreover have there: "\<forall>h \<in> set hs. contains (obj_store e1) h" using st by blast
  ultimately have got: "gather (obj_store e1) (disk e1) hs = (b, False)"
    using gather_faithful [OF dst(1) there] by simp
  have files: "get_file_chunks ?L q (index_db e1) = (if q = p then Inr hs else get_file_chunks ?L q (index_db e'))" for q
    using st i(2) by (simp add: get_file_chunks_ok [OF dst(3)] get_file_chunks_ok [OF ok] db(2) set_file_def)
  have mono: "contains (obj_store e') h \<Longrightarrow> contains (obj_store e1) h" for h using st by (simp add: db(2))
  show ?thesis
    unfolding files_stored_def
  proof (intro conjI)
    show "\<forall>(p, b) \<in> set [(p, b)]. recoverable C e1 p b" by (simp add: recoverable_def files got)
    show "\<forall>q c. q \<notin> fst ` set [(p, b)] \<longrightarrow> recoverable C e' q c \<longrightarrow> recoverable C e1 q c"
      using gather_keep [OF dst(2,1) mono] by (simp add: recoverable_def files split: sum.splits)
    obtain db1 s f where "e1 = a\<lparr>index_db := db1, obj_store := s, disk := f\<rparr>" using st by blast
    then show "\<exists>db s f tr. e1 = e'\<lparr>index_db := db, obj_store := s, disk := f, transients := tr\<rparr>"
      by (intro exI [of _ db1] exI [of _ s] exI [of _ f] exI [of _ "transients e'"]) (simp add: db(2))
  qed (use st inv1 i(2) in \<open>simp_all add: db(2) set_file_def\<close>)
qed

lemma store_files_stores:
  assumes laws: "rs_laws (cr_libs C)" and src: "engine_inv C content e"
    and "engine_inv C content e'" and "distinct ps" and "\<And>p. p \<in> set ps \<Longrightarrow> recoverable C e p (bs p)"
    and "files_fit C content e ps e'" and "store_files C e ps e' = (Inr (), e1)"
  shows "files_stored C content (map (\<lambda>p. (p, bs p)) ps) e' e1"
  using assms(3-)
proof (induction ps arbitrary: e')
  case Nil
  then show ?case by (simp add: store_nil files_stored_refl)
next
  case (Cons p ps)
  from Cons.prems(5) obtain hs a b where hs: "file_chunks (cr_index C) p e = Inr hs"
    "store_file_chunks (cr_index C) p hs e' = (Inr (), a)" "store_chunks C e hs a = (Inr (), b)"
    "store_files C e ps b = (Inr (), e1)" by (auto simp: store_files_Cons)
  have fits: "chunks_fit C content e hs a" "files_fit C content e ps b"
    using Cons.prems(4) hs(1-3) by (simp_all add: files_fit_Cons bindS_def)
  have 1: "files_stored C content [(p, bs p)] e' b"
    by (rule store_one_file [OF laws src Cons.prems(1) Cons.prems(3) hs(1-3) fits(1)]) simp
  have "files_stored C content (map (\<lambda>p. (p, bs p)) ps) b e1"
    by (rule Cons.IH [OF files_storedD(7) [OF 1] _ _ fits(2) hs(4)]) (use Cons.prems(2,3) in simp_all)
  from files_stored_trans [OF 1 this] Cons.prems(2) show ?case by (auto simp: image_image)
qed

lemma register_steps:
  assumes "register_remote_snapshot L i manifest e = (Inr (), e')"
  obtains f1 s f2 where "create_dir_all (snapshot_dir e) (disk e) = (Inr (), f1)" "json_pretty L manifest = Inr s"
    "fs_write (manifest_path e i) (bytes_of s) f1 = (Inr (), f2)"
    "e' = e\<lparr>disk := f2, snapshots := snapshots e @ [info_of i manifest]\<rparr>"
proof -
  from assms obtain a s b where 1: "on_disk (create_dir_all (snapshot_dir e)) e = (Inr (), a)" "json_pretty L manifest = Inr s"
    and 2: "on_disk (fs_write (child (snapshot_dir e) (i @ ''.json'')) (bytes_of s)) a = (Inr (), b)"
    and e': "e' = b\<lparr>snapshots := snapshots b @ [info_of i manifest]\<rparr>"
    unfolding register_remote_snapshot_def Let_def bindS_Inr_iff by (auto simp: liftS_def upd_def)
  from 1(1) obtain f1 where f1: "create_dir_all (snapshot_dir e) (disk e) = (Inr (), f1)" "a = e\<lparr>disk := f1\<rparr>"
    by (auto simp: on_disk_Inr)
  from 2 obtain f2 where f2: "fs_write (manifest_path e i) (bytes_of s) f1 = (Inr (), f2)" "b = a\<lparr>disk := f2\<rparr>"
    unfolding manifest_path_def by (auto simp: on_disk_Inr f1(2))
  show ?thesis by (rule that [OF f1(1) 1(2) f2(1)]) (simp add: e' f2(2) f1(2))
qed

text \<open>C6: a transferred snapshot can be restored.  After a transfer that succeeds, the receiver can
  recover every file of the snapshot with the bytes the sender had, keeps its other files and its
  invariant, and has the manifest in its cache and on disk.  The list of the snapshot's files is
  not transferred: the receiver's index has the file lists it had before.\<close>

theorem transfer_restorable:
  assumes "rs_laws (cr_libs C)" and "engine_inv C content e" and "engine_inv C content e'" and "placed e'"
    and "transfer C snapshot_id e e' = (Inr (), e2)" and "snapshot_files (cr_index C) snapshot_id e = Inr files"
    and "distinct files" and "\<And>p. p \<in> set files \<Longrightarrow> recoverable C e p (bs p)"
    and "files_fit C content e files e'" and "CHR ''/'' \<notin> set snapshot_id"
  shows "(\<forall>p \<in> set files. recoverable C e2 p (bs p)) \<and>
     (\<forall>p b. p \<notin> set files \<longrightarrow> recoverable C e' p b \<longrightarrow> recoverable C e2 p b) \<and> engine_inv C content e2 \<and>
     (\<exists>manifest s. snapshot_manifest_json (cr_index C) snapshot_id e = Inr manifest \<and>
        snapshots e2 = snapshots e' @ [info_of snapshot_id manifest] \<and>
        json_pretty (cr_index C) manifest = Inr s \<and> fs_read (disk e2) (manifest_path e2 snapshot_id) = Inr (bytes_of s)) \<and>
     (\<forall>i. get_snapshot_files (cr_index C) i (index_db e2) = get_snapshot_files (cr_index C) i (index_db e'))"
proof -
  let ?L = "cr_index C"
  from assms(5,6) obtain manifest e1 where m: "snapshot_manifest_json ?L snapshot_id e = Inr manifest"
    and st: "store_files C e files e' = (Inr (), e1)"
    and reg: "register_remote_snapshot ?L snapshot_id manifest e1 = (Inr (), e2)"
    by (auto simp: transfer_def bindS_Inr_iff)
  have fs: "files_stored C content (map (\<lambda>p. (p, bs p)) files) e' e1"
    by (rule store_files_stores [OF assms(1-3,7,8,9) st])
  obtain db s f tr where e1: "e1 = e'\<lparr>index_db := db, obj_store := s, disk := f, transients := tr\<rparr>"
    using fs by (auto simp: files_stored_def)
  have placed: "placed e1" using assms(4) files_storedD(5,6) [OF fs] by (auto simp: placed_def e1)
  have inv1: "engine_inv C content e1" by (rule files_storedD(7) [OF fs])
  obtain f1 t f2 where r: "create_dir_all (snapshot_dir e1) (disk e1) = (Inr (), f1)" "json_pretty ?L manifest = Inr t"
    "fs_write (manifest_path e1 snapshot_id) (bytes_of t) f1 = (Inr (), f2)"
    "e2 = e1\<lparr>disk := f2, snapshots := snapshots e1 @ [info_of snapshot_id manifest]\<rparr>"
    by (rule register_steps [OF reg])
  have read: "fs_read (disk e2) q = (if q = manifest_path e1 snapshot_id then Inr (bytes_of t) else fs_read (disk e1) q)" for q
    using fs_read_write [OF r(3), of q] r(1) by (simp add: r(4) create_dir_all_def fs_read_mkdirs)
  have "outside (obj_store e1) (manifest_path e1 snapshot_id)"
    unfolding snapshot_paths(1) [OF assms(10)] by (rule outside_snapshots [OF placed])
  then have inside: "fs_read (disk e2) q = fs_read (disk e1) q" if "\<not> outside (obj_store e1) q" for q
    using read [of q] that by auto
  have ok: "index_ok ?L (index_db e1)" "index_ok ?L (index_db e')"
    using inv1 assms(3) by (simp_all add: engine_inv_def data_inv_def)
  note keep = engine_keeps [OF inv1 _ _ _ _ inside]
  have inv2: "engine_inv C content e2" and rec: "recoverable C e2 p b = recoverable C e1 p b" for p b
    by (rule keep; use ok r(4) in simp)+
  have "snapshots e1 = snapshots e'" by (simp add: e1)
  moreover have "manifest_path e2 snapshot_id = manifest_path e1 snapshot_id"
    by (simp add: manifest_path_def snapshot_dir_def r(4))
  ultimately have man: "snapshots e2 = snapshots e' @ [info_of snapshot_id manifest] \<and>
      fs_read (disk e2) (manifest_path e2 snapshot_id) = Inr (bytes_of t)"
    using read [of "manifest_path e1 snapshot_id"] by (simp add: r(4))
  have lists: "get_snapshot_files ?L i (index_db e2) = get_snapshot_files ?L i (index_db e')" for i
    using files_storedD(3) [OF fs] by (simp add: r(4) get_snapshot_files_ok [OF ok(1)] get_snapshot_files_ok [OF ok(2)])
  have 1: "recoverable C e2 p (bs p)" if "p \<in> set files" for p
    using files_storedD(1) [OF fs, of p "bs p"] that by (simp add: rec)
  have 2: "recoverable C e2 p b" if "p \<notin> set files" "recoverable C e' p b" for p b
    using files_storedD(2) [OF fs, of p b] that by (simp add: rec image_image)
  from 1 2 inv2 man lists m r(2) show ?thesis by blast
qed

section \<open>What the protocol checks, and what it does not\<close>

text \<open>Nothing without the token.  A connection whose first frame is not a greeting with the
  listener's token and version, encrypted under the key of that token, ends in an error and
  leaves the engine as it was, whatever it sends.\<close>

theorem handshake_required:
  assumes "handle_incoming C S token (e, c) = (r, (e', c'))"
    and "\<And>key c1. make_cipher (cr_libs C) token = Inr key \<Longrightarrow>
       recv_frame S key c \<noteq> (Inr (Hello PROTOCOL_VERSION token), c1)"
  shows "e' = e \<and> (\<exists>x. r = Inl x)"
proof (cases "make_cipher (cr_libs C) token")
  case (Inr key)
  obtain q c1 where q: "recv_frame S key c = (q, c1)" by fastforce
  show ?thesis
  proof (cases q)
    case (Inr fr)
    have fr: "fr \<noteq> Hello PROTOCOL_VERSION token" using assms(2) [OF \<open>make_cipher _ _ = _\<close>, of c1] q Inr by auto
    obtain x c2 where s: "send_frame S key (HelloAck ''error'' (Some ''authentication failed'')) c1 = (x, c2)" by fastforce
    show ?thesis
      using assms(1) fr q s Inr \<open>make_cipher _ _ = _\<close>
      by (cases fr; cases x) (auto simp: handle_incoming_def bindS_def on_net_def liftS_def failS_def split: if_splits)
  qed (use assms(1) q \<open>make_cipher _ _ = _\<close> in \<open>auto simp: handle_incoming_def bindS_def on_net_def liftS_def\<close>)
qed (use assms(1) in \<open>auto simp: handle_incoming_def bindS_def liftS_def\<close>)

text \<open>C36: the name of an object is not checked.  A peer that has passed the handshake may send any
  bytes \<open>d\<close> under any name \<open>h\<close>, also when \<open>h\<close> is not the hash of \<open>d\<close>: the receiver stores them
  under that name, and a later backup of content with the hash \<open>h\<close> counts as known and stores
  nothing.\<close>

theorem object_name_unchecked:
  assumes "sync_laws S" and "rs_laws (cr_libs C)" and "engine_inv C content e"
    and "\<not> contains (obj_store e) h" and "room (obj_store e, disk e) h d" and "store_object C h d e = (Inr (), e1)"
    and "list_all (sendable S) [Fr (Object h (of_nat (length d))), Raw d, Fr PushEnd]"
    and "inbox c = wire S key i [Fr (Object h (of_nat (length d))), Raw d, Fr PushEnd] @ rest"
  shows "receive_loop C S key e c = (Inr (), (e1, c\<lparr>inbox := rest\<rparr>)) \<and> read_object_data h e1 = Inr d \<and>
     (\<forall>ck rel. ck_hash ck = h \<longrightarrow> (\<exists>cx. record_chunk (cr_libs C) (cr_index C) rel ck (open_ctx e1) = (Inr (), cx) \<and>
        cx_store cx = obj_store e1 \<and> cx_disk cx = disk e1))"
proof -
  have ok: "index_ok (cr_index C) (index_db e)" and inv: "store_inv (obj_store e)"
    using assms(3) by (simp_all add: engine_inv_def data_inv_def faithful_def)
  obtain s f db where
    w: "write_object (cr_libs C) h d (of_nat (length d)) (obj_store e, disk e) = (Inr (), (s, f))"
    and db: "index_ok (cr_index C) db" "abs_index (cr_index C) db = bump h (abs_index (cr_index C) (index_db e))"
    and e1: "e1 = e\<lparr>obj_store := s, disk := f, index_db := db\<rparr>"
    by (rule store_object_steps [OF assms(6) ok])
  have "read_object_data h e1 = Inr d"
    using write_object_new [OF assms(2) inv assms(5,4) w] by (simp add: read_object_data_def e1)
  moreover have "chunk_exists (cr_index C) h (index_db e1) = Inr True"
    using chunk_exists_ok [OF db(1), of h] by (simp add: db(2) bump_def e1)
  then have "ck_hash ck = h \<longrightarrow> (\<exists>cx. record_chunk (cr_libs C) (cr_index C) rel ck (open_ctx e1) = (Inr (), cx) \<and>
        cx_store cx = obj_store e1 \<and> cx_disk cx = disk e1)" for ck rel
    by (simp add: record_chunk_def open_ctx_def)
  moreover have "receive_loop C S key e c = (Inr (), (e1, c\<lparr>inbox := rest\<rparr>))"
  proof -
    let ?tail = "frame_packet S key (Suc (Suc i)) PushEnd @ rest"
    have "inbox c = frame_packet S key i (Object h (of_nat (length d))) @ packet S key (Suc i) d @ ?tail"
      using assms(8) by (simp add: payload_of_def)
    from receive_object [OF assms(1) _ _ assms(6) this] assms(7)
    have "receive_loop C S key e c = receive_loop C S key e1 (c\<lparr>inbox := ?tail\<rparr>)" by simp
    also have "\<dots> = (Inr (), (e1, c\<lparr>inbox := rest\<rparr>))"
      by (rule trans [OF receive_end [OF assms(1), where rest = rest and i = "Suc (Suc i)"]]) (use assms(7) in simp_all)
    finally show ?thesis .
  qed
  ultimately show ?thesis by blast
qed

text \<open>Nor is the name of the snapshot: an absolute one takes the manifest out of the store.\<close>

lemma snapshot_name_unchecked:
  assumes "register_remote_snapshot L (CHR ''/'' # i) manifest e = (Inr (), e')"
  shows "\<exists>s. json_pretty L manifest = Inr s \<and> fs_read (disk e') (path_of ((CHR ''/'' # i) @ ''.json'')) = Inr (bytes_of s)"
proof -
  obtain f1 s f2 where r: "json_pretty L manifest = Inr s" "fs_write (manifest_path e (CHR ''/'' # i)) (bytes_of s) f1 = (Inr (), f2)"
    "disk e' = f2" by (rule register_steps [OF assms]) (simp add: that)
  have "manifest_path e (CHR ''/'' # i) = path_of ((CHR ''/'' # i) @ ''.json'')"
    by (simp add: manifest_path_def child_def join_def is_absolute_def path_of_def Let_def)
  then show ?thesis using r fs_read_write [OF r(2)] by simp
qed

end
