(* ===== verification/Sample_Engine.thy ===== *)
theory Sample_Engine
  imports Maintenance
begin

text \<open>
  A small server for the witnesses: two files in one world, an empty object store and index, a
  signer, and crates that compute.
\<close>

definition sample_crates :: "sample_db crates" where
  "sample_crates = \<lparr>cr_libs = sample_libs, cr_index = sample_index_libs, cr_sign = sample_sign_libs,
     cr_rfc3339 = (\<lambda>t. if t = [] then None else Some (int (length t) * 10 ^ 9)),
     cr_minus = (\<lambda>a b. Some (a - b)), cr_plus_days = (\<lambda>t d. Some t), cr_alphanumeric = (\<lambda>u. True)\<rparr>"

definition game_fs :: fs where
  "game_fs = \<lparr>entries = [([''r''], Dir), ([''r'', ''.obsidian''], Dir), ([''r'', ''.obsidian'', ''store''], Dir), ([''r'', ''.obsidian'', ''rocksdb''], Dir),
     ([''r'', ''.obsidian'', ''store'', ''objects''], Dir), ([''r'', ''.obsidian'', ''store'', ''packfiles''], Dir),
     ([''r'', ''.obsidian'', ''store'', ''packfiles'', ''parity''], Dir), ([''r'', ''world''], Dir),
     ([''r'', ''world'', ''level.dat''], File [1, 2, 3]), ([''r'', ''world'', ''a.mca''], File [4])],
     faulty = [], real_path = id\<rparr>"

definition game_store :: object_store where
  "game_store = \<lparr>objects_dir = [''r'', ''.obsidian'', ''store'', ''objects''],
     packfile_dir = [''r'', ''.obsidian'', ''store'', ''packfiles''],
     parity_dir = [''r'', ''.obsidian'', ''store'', ''packfiles'', ''parity''], erasure_enabled = False,
     max_packfile_size_mb = 1, object_index = [], next_pack_id = 1, total_bytes = 0, total_raw_bytes = 0\<rparr>"

definition game_engine :: "sample_db engine" where
  "game_engine = \<lparr>server_root = [''r''], index_db = empty_db, obj_store = game_store, disk = game_fs,
     mtimes = (\<lambda>p. 7), active_transaction = None, transients = [], sys = SystemState_default, snapshots = [],
     signer = Some \<lparr>signing_key = replicate 32 7, signer_key_path = [''k'']\<rparr>,
     config = SidecarConfig_default\<lparr>exclusion_rules := \<lparr>hardcoded_ignores = []\<rparr>\<rparr>\<rparr>"

definition game_env :: env where
  "game_env = \<lparr>now = ''2024'', now_ns = 9 * 10 ^ 9, uuid8 = ''0a1b2c3d'', millis = 0,
     reads = (\<lambda>b. if b = [] then [] else [Data b]), order = (\<lambda>n. [0..<n]), cancelled = None\<rparr>"

end
