(* ===== verification/Sample_Run.thy ===== *)
theory Sample_Run
  imports Backup_Correct Sample_Engine
begin

text \<open>
  The small server of \<open>Sample_Engine\<close> backed up, evaluated step by step: the scan, the chunks of
  the two files, the store and the index after each of them.  The witnesses of the engine's
  properties are taken from this run.
\<close>

lemma chunk_reader_small:
  assumes "d \<noteq> []" and "length d \<le> 4096"
  shows "chunk_reader h ChunkEngine_new [Data d] f s =
     Some (deliver f [\<lparr>ck_hash = h d, ck_offset = 0, ck_size = length d, ck_data = d\<rparr>] s)"
proof -
  have "fill_buf 4096 [] False [Data d] = (if length d < 4096 then Inr (d, True, []) else Inr (d, False, []))"
    using assms by (simp add: fill_buf.simps)
  then have 1: "streams ChunkEngine_new [] False [Data d] [d]"
  proof (cases "length d < 4096")
    case True
    then show ?thesis using streams.final [of ChunkEngine_new "[]" False "[Data d]" d "[]"] assms
      by (simp add: fill_buf.simps cut_len_def)
  next
    case False
    have "streams ChunkEngine_new [] False [] []"
      by (rule streams.empty [of _ _ _ _ True "[]"]) (simp add: fill_buf.simps)
    with False show ?thesis using streams.piece [of ChunkEngine_new "[]" False "[Data d]" d False "[]" "[]"] assms
      by (simp add: fill_buf.simps cut_len_def)
  qed
  show ?thesis by (simp add: chunk_reader_def streams_deliver [OF 1])
qed

lemma sample_index_steps [simp]:
  "chunk_exists sample_index_libs h db = Inr (st_known (abs_index sample_index_libs db) h)"
  "abs_index sample_index_libs (snd (insert_chunk sample_index_libs h p off sz db)) = bump h (abs_index sample_index_libs db)"
  "abs_index sample_index_libs (snd (insert_file_chunks sample_index_libs p hs n t db)) = set_file p hs n (abs_index sample_index_libs db)"
  using chunk_exists_ok [OF sample_index_ok] insert_chunk_refines [OF sample_index_ok] insert_file_chunks_refines [OF sample_index_ok]
  unfolding refines_def by (metis snd_conv)+

lemma small_reader_ok: "d \<noteq> [] \<Longrightarrow> length d \<le> 4096 \<Longrightarrow> reader_ok [Data d]"
  by (simp add: reader_ok_def tmp_len_def)

section \<open>The scan\<close>

definition amca :: file_entry where
  "amca = \<lparr>fe_path = [''r'', ''world'', ''a.mca''], fe_size = 1, fe_modified = 7\<rparr>"

definition level :: file_entry where
  "level = \<lparr>fe_path = [''r'', ''world'', ''level.dat''], fe_size = 3, fe_modified = 7\<rparr>"

lemma game_worlds: "find_world_directories [''r''] game_fs = [[''r'', ''world'']]"
  by code_simp

lemma game_walk:
  "walk game_fs [''r'', ''world''] = [([''r'', ''world'', ''level.dat''], [1, 2, 3]), ([''r'', ''world'', ''a.mca''], [4])]"
  by code_simp

lemma game_kept: "is_excluded [] ''world/level.dat'' = Some False" "is_excluded [] ''world/a.mca'' = Some False"
  by code_simp+

lemma game_names:
  "replace [CHR 0x5C] ''/'' (show_path (strip_prefix_or [''r''] [''r'', ''world'', ''level.dat''])) = ''world/level.dat''"
  "replace [CHR 0x5C] ''/'' (show_path (strip_prefix_or [''r''] [''r'', ''world'', ''a.mca''])) = ''world/a.mca''"
  by code_simp+

lemma game_scan: "scan_world_directory since (\<lambda>p. 7) [] [''r''] None game_fs = Some [amca, level]"
proof -
  have "is_dir game_fs [''r'', ''world'']" by code_simp
  moreover have "faulty game_fs = []" by (simp add: game_fs_def)
  ultimately show ?thesis
    by (simp add: scan_world_directory_def game_worlds scan_directory_def game_walk game_names game_kept
        unchanged_def sort_by_path_def amca_def level_def)
qed

lemma game_files: "files_to_back_up sample_crates False game_engine = Some [amca, level]"
  by (simp add: files_to_back_up_def last_snapshot_time_def game_engine_def game_scan cfg_ignores_def)

section \<open>The chunks\<close>

definition h1 :: string where "h1 = content_hash sample_libs [4]"
definition h2 :: string where "h2 = content_hash sample_libs [1, 2, 3]"

lemma sample_hash: "content_hash sample_libs d = halves (string_of (take 32 (d @ replicate 32 0)))"
  by (simp add: content_hash_def sample_libs_def)

lemma sample_hash_name: "hash_name (content_hash sample_libs d)"
proof -
  have "length (content_hash sample_libs d) = 64" by (simp add: sample_hash string_of_def)
  then have "content_hash sample_libs d \<noteq> []" by auto
  then show ?thesis using halves_safe by (simp add: hash_name_def plain_def line_safe_def sample_hash)
qed

lemma hash_length [simp]: "length h1 = 64" "length h2 = 64"
  by (simp_all add: h1_def h2_def sample_hash string_of_def)

lemma hashes: "plain h1" "plain h2" "h1 \<noteq> h2" "h2 \<noteq> h1"
proof -
  show "plain h1" "plain h2" using sample_hash_name by (simp_all add: h1_def h2_def hash_nameD)
  show "h1 \<noteq> h2" "h2 \<noteq> h1" by (simp_all add: h1_def h2_def sample_hash string_of_def)
qed

definition object_at :: "string \<Rightarrow> path" where
  "object_at h = [''r'', ''.obsidian'', ''store'', ''objects'', h]"

definition fs1 :: fs where "fs1 = set_node (object_at h1) (File [4]) game_fs"
definition fs2 :: fs where "fs2 = set_node (object_at h2) (File [1, 2, 3]) fs1"

definition store1 :: object_store where
  "store1 = game_store\<lparr>object_index := [(h1, Individual (object_at h1))], total_bytes := 1, total_raw_bytes := 1\<rparr>"

definition store2 :: object_store where
  "store2 = store1\<lparr>object_index := [(h1, Individual (object_at h1)), (h2, Individual (object_at h2))],
     total_bytes := 4, total_raw_bytes := 4\<rparr>"

lemma object_paths: "child (objects_dir game_store) h1 = object_at h1" "child (objects_dir game_store) h2 = object_at h2"
  by (simp_all add: child_plain hashes object_at_def game_store_def)

lemma game_node: "fs_node game_fs (object_at h1) = None" "fs_node game_fs (object_at h2) = None"
  "is_dir game_fs [''r'', ''.obsidian'', ''store'', ''objects'']"
  by (simp_all add: fs_node_def is_dir_def game_fs_def object_at_def)

lemma object_at_simps [simp]: "parent (object_at h) = [''r'', ''.obsidian'', ''store'', ''objects'']"
  "object_at h \<noteq> []" "object_at h \<noteq> [''/'']" "object_at h \<noteq> [''.'']" "object_at h1 \<noteq> object_at h2" "object_at h2 \<noteq> object_at h1"
  using hashes by (simp_all add: object_at_def parent_def)

lemma w1: "write_object sample_libs h1 [4] 1 (game_store, game_fs) = (Inr (), (store1, fs1))"
proof -
  have w: "fs_write (object_at h1) [4] game_fs = (Inr (), fs1)"
    using game_node by (simp add: fs_write_def fs1_def is_dir_def) (simp add: game_fs_def)
  have l: "file_len fs1 (object_at h1) = 1" by (simp add: file_len_def fs1_def)
  show ?thesis
    by (simp add: write_object_def contains_def write_individual_object_def on_fs_def object_paths w Let_def
        maybe_seal_packfiles_def l modify_def bindS_def store1_def) (simp add: game_store_def l)
qed

lemma fs1_node: "fs_node fs1 (object_at h2) = None" "is_dir fs1 [''r'', ''.obsidian'', ''store'', ''objects'']"
  using game_node by (simp_all add: fs1_def is_dir_def) (simp add: object_at_def)

lemma w2: "write_object sample_libs h2 [1, 2, 3] 3 (store1, fs1) = (Inr (), (store2, fs2))"
proof -
  have od: "objects_dir store1 = objects_dir game_store" by (simp add: store1_def)
  have w: "fs_write (object_at h2) [1, 2, 3] fs1 = (Inr (), fs2)"
    using fs1_node by (simp add: fs_write_def fs2_def is_dir_def) (simp add: fs1_def set_node_def game_fs_def)
  have l: "file_len fs2 (object_at h1) = 1" "file_len fs2 (object_at h2) = 3"
    by (simp_all add: file_len_def fs2_def fs1_def)
  show ?thesis
    by (simp add: write_object_def contains_def write_individual_object_def on_fs_def object_paths od w Let_def
        maybe_seal_packfiles_def l modify_def bindS_def store2_def) (simp add: store1_def hashes l game_store_def)
qed

definition game_content :: "string \<Rightarrow> bytes" where
  "game_content h = (if h = h1 then [4] else [1, 2, 3])"

lemma game_layout: "store_inv game_store" "placed game_engine"
  by (simp_all add: store_inv_def layout_def game_store_def placed_def game_engine_def below_def)

lemma game_inv: "engine_inv sample_crates game_content game_engine"
  using game_layout
  by (simp add: engine_inv_def data_inv_def sample_crates_def sample_index_ok faithful_def game_engine_def
      contains_def abs_index_def empty_db_def) (simp add: game_store_def)

section \<open>The file tasks\<close>

definition db1 :: sample_db where
  "db1 = snd (insert_file_chunks sample_index_libs ''world/a.mca'' [h1] 1 7
     (snd (insert_chunk sample_index_libs h1 ''world/a.mca'' 0 1 empty_db)))"

definition db2 :: sample_db where
  "db2 = snd (insert_file_chunks sample_index_libs ''world/level.dat'' [h2] 3 7
     (snd (insert_chunk sample_index_libs h2 ''world/level.dat'' 0 3 db1)))"

lemma game_index:
  "st_known (abs_index sample_index_libs empty_db) h = False"
  "st_known (abs_index sample_index_libs db1) h \<longleftrightarrow> h = h1"
  by (simp_all add: db1_def set_file_def bump_def) (simp_all add: abs_index_def empty_db_def)

definition after_a :: "sample_db engine \<Rightarrow> sample_db engine" where
  "after_a e = e\<lparr>index_db := db1, obj_store := store1, disk := fs1,
     transients := [\<lparr>chunk_hash = h1, object_path = object_path_of h1\<rparr>]\<rparr>"

definition after_both :: "sample_db engine \<Rightarrow> sample_db engine" where
  "after_both e = e\<lparr>index_db := db2, obj_store := store2, disk := fs2,
     transients := [\<lparr>chunk_hash = h1, object_path = object_path_of h1\<rparr>, \<lparr>chunk_hash = h2, object_path = object_path_of h2\<rparr>]\<rparr>"

lemma rel_names: "server_root e = [''r''] \<Longrightarrow> rel_of e amca = ''world/a.mca''" "server_root e = [''r''] \<Longrightarrow> rel_of e level = ''world/level.dat''"
  by (simp_all add: rel_of_def strip_prefix_or_def path_starts_with_def amca_def level_def show_path_def is_absolute_def)

lemma game_reads: "fs_read game_fs (fe_path amca) = Inr [4]" "fs_read fs1 (fe_path level) = Inr [1, 2, 3]"
  by (simp_all add: fs_read_def fs_node_def fs1_def set_node_def game_fs_def amca_def level_def object_at_def)

lemma crates_simps [simp]: "cr_libs sample_crates = sample_libs" "cr_index sample_crates = sample_index_libs"
  "cr_sign sample_crates = sample_sign_libs"
  by (simp_all add: sample_crates_def)

lemma env_simps [simp]: "cancelled game_env = None" "order game_env n = [0..<n]" "uuid8 game_env = ''0a1b2c3d''"
  "reads game_env (b # bs) = [Data (b # bs)]"
  by (simp_all add: game_env_def)

lemma back_up_a:
  assumes "disk e = game_fs" "obj_store e = game_store" "index_db e = empty_db" "transients e = []" "server_root e = [''r'']"
  shows "backup_file sample_crates game_env amca e = Some (Inr (''world/a.mca'', 1, 0, 1), after_a e)"
  using assms
  by (simp add: backup_file_def game_reads rel_names chunk_reader_small Let_def record_chunk_def open_ctx_def
      game_index w1 flip: h1_def)
   (simp add: close_ctx_def after_a_def db1_def amca_def)

lemma back_up_level:
  assumes "server_root e = [''r'']" "transients e = []"
  shows "backup_file sample_crates game_env level (after_a e) = Some (Inr (''world/level.dat'', 3, 0, 1), after_both e)"
  using assms
  by (simp add: backup_file_def game_reads rel_names chunk_reader_small Let_def record_chunk_def open_ctx_def
      after_a_def game_index hashes w2 flip: h2_def)
   (simp add: close_ctx_def after_both_def db2_def level_def)

lemma game_engine_simps [simp]: "disk game_engine = game_fs" "obj_store game_engine = game_store"
  "index_db game_engine = empty_db" "transients game_engine = []" "server_root game_engine = [''r'']"
  by (simp_all add: game_engine_def)

lemma processing_simps [simp]: "disk (processing v e) = disk e" "obj_store (processing v e) = obj_store e"
  "index_db (processing v e) = index_db e" "transients (processing v e) = []" "server_root (processing v e) = server_root e"
  by (simp_all add: processing_def)

lemma small_file_chunks:
  assumes "d \<noteq> []" and "length d \<le> 4096"
  shows "file_chunk_list X [Data d] = [\<lparr>ck_hash = content_hash X d, ck_offset = 0, ck_size = length d, ck_data = d\<rparr>]"
  by (simp add: file_chunk_list_def chunk_reader_small [OF assms] collect_def)

lemma game_room: "room (game_store, game_fs) h1 [4]" "room (store1, fs1) h2 [1, 2, 3]"
  by (simp_all add: room_def hashes loose_bytes_def game_store_def store1_def file_len_def fs1_def)

lemma game_tasks: "task_list game_env [amca, level] = [(0, amca), (1, level)]"
  by (simp add: task_list_def numeral_2_eq_2)

lemma tasks_run:
  assumes "disk e = game_fs" "obj_store e = game_store" "index_db e = empty_db" "transients e = []" "server_root e = [''r'']"
  shows "run_tasks sample_crates game_env [(0, amca), (1, level)] e =
     Some ([(0, Inr (''world/a.mca'', 1, 0, 1)), (1, Inr (''world/level.dat'', 3, 0, 1))], after_both e)"
  using back_up_a [OF assms] back_up_level [OF assms(5,4)] by simp

lemma game_tasks_ok: "tasks_ok sample_crates game_env game_content (task_list game_env [amca, level]) (processing game_env game_engine)"
proof -
  let ?e = "processing game_env game_engine"
  have a: "file_ok sample_crates game_env game_content amca ?e"
    by (simp add: file_ok_def game_reads small_file_chunks Let_def game_content_def chunk_fits_def small_reader_ok open_ctx_def
        game_room w1 flip: h1_def)
  have b: "file_ok sample_crates game_env game_content level (after_a ?e)"
    by (simp add: file_ok_def after_a_def game_reads small_file_chunks Let_def game_content_def chunk_fits_def small_reader_ok open_ctx_def
        game_room w2 hashes flip: h2_def)
  have r: "backup_file sample_crates game_env amca ?e = Some (Inr (''world/a.mca'', 1, 0, 1), after_a ?e)"
    by (rule back_up_a) simp_all
  have "backup_file sample_crates game_env level (after_a ?e) = Some (Inr (''world/level.dat'', 3, 0, 1), after_both ?e)"
    by (rule back_up_level) simp_all
  with a b r show ?thesis by (simp add: game_tasks)
qed

section \<open>The commit\<close>

definition game_after :: "sample_db engine" where
  "game_after = after_both (processing game_env game_engine)"

lemma game_after_simps [simp]: "disk game_after = fs2" "index_db game_after = db2" "obj_store game_after = store2"
  "server_root game_after = [''r'']" "signer game_after = signer game_engine"
  "active_transaction game_after = Some (begun game_env)"
  by (simp_all add: game_after_def after_both_def processing_def)

lemma fs2_node: "fs_node fs2 [''r''] = Some Dir" "fs_node fs2 [''r'', ''.obsidian''] = Some Dir"
  "fs_node fs2 [''r'', ''.obsidian'', ''store''] = Some Dir"
  "q = [''r'', ''.obsidian'', ''store'', ''snapshots''] \<Longrightarrow> fs_node fs2 q = None"
  "fs_node fs2 [''r'', ''.obsidian'', ''store'', ''snapshots'', n] = None" "faulty fs2 = []"
  by (simp_all add: fs2_def fs1_def object_at_def) (simp_all add: fs_node_def game_fs_def set_node_def)

lemma game_commits: "\<exists>r e'. commit_backup sample_crates game_env (begun game_env) tag 2
    (tally_all [Inr (''world/a.mca'', 1, 0, 1), Inr (''world/level.dat'', 3, 0, 1)]) game_after = (Inr r, e')"
proof -
  define dir where "dir = [''r'', ''.obsidian'', ''store'', ''snapshots'']"
  have dir: "snapshot_dir game_after = dir" by (simp add: snapshot_dir_path dir_def)
  have slash: "CHR ''/'' \<notin> set (''snap_'' @ uuid8 game_env)" by simp
  have names: "manifest_path game_after (''snap_'' @ uuid8 game_env) = dir @ [''snap_0a1b2c3d.json'']"
    "sig_path game_after (''snap_'' @ uuid8 game_env) = dir @ [''snap_0a1b2c3d.sig'']"
    unfolding snapshot_paths [OF slash] dir by simp_all
  define f1 where "f1 = set_node dir Dir fs2"
  have mk: "create_dir_all dir fs2 = (Inr (), f1)"
    by (simp add: create_dir_all_def dir_def fs2_node f1_def Let_def)
  have pretty: "json_pretty sample_index_libs j = Inr (postfix j)" for j by (simp add: sample_index_libs_def)
  have w: "fs_write (dir @ [''snap_0a1b2c3d.json'']) m f1 = (Inr (), set_node (dir @ [''snap_0a1b2c3d.json'']) (File m) f1)" for m
    by (simp add: fs_write_def f1_def is_dir_def parent_def fs2_node frame_simps dir_def)
  have w2: "\<exists>f3. fs_write (dir @ [''snap_0a1b2c3d.sig'']) sg (set_node (dir @ [''snap_0a1b2c3d.json'']) (File m) f1) = (Inr (), f3)" for sg m
    by (simp add: fs_write_def f1_def is_dir_def parent_def fs2_node frame_simps dir_def)
  show ?thesis
    by (rule commit_backup_ok [where ?f1.0 = f1 and s = "postfix (manifest_of game_after game_env tag 2
        (tally_all [Inr (''world/a.mca'', 1, 0, 1), Inr (''world/level.dat'', 3, 0, 1)]))"])
      (simp add: sample_index_ok, simp add: dir mk, simp add: pretty, unfold names, rule w, rule w2)
qed

lemma game_run: "run_backup sample_crates game_env tag False game_engine =
   Some (commit_backup sample_crates game_env (begun game_env) tag 2
     (tally_all [Inr (''world/a.mca'', 1, 0, 1), Inr (''world/level.dat'', 3, 0, 1)]) game_after)"
proof -
  have "run_tasks sample_crates game_env [(0, amca), (1, level)] (processing game_env game_engine) =
     Some ([(0, Inr (''world/a.mca'', 1, 0, 1)), (1, Inr (''world/level.dat'', 3, 0, 1))], game_after)"
    unfolding game_after_def by (rule tasks_run) simp_all
  then have "process_files sample_crates game_env [amca, level] (processing game_env game_engine) =
     Some ([Inr (''world/a.mca'', 1, 0, 1), Inr (''world/level.dat'', 3, 0, 1)], game_after)"
    by (simp add: process_files_def numeral_2_eq_2 map_filter_simps)
  moreover have "\<not> is_aborted game_after" by (simp add: is_aborted_def begun_def)
  ultimately show ?thesis by (simp add: run_backup_unfold game_files numeral_2_eq_2)
qed


end
