(* ===== verification/Sample_Sync.thy ===== *)
theory Sample_Sync
  imports Remote_Correct Sample_Run
begin

text \<open>
  Two sidecars for the witnesses of the synchronisation: the server of \<open>Sample_Run\<close> after its
  backup, and an empty one.  The cipher puts the key in front, a frame is written as JSON.
\<close>

section \<open>A codec for frames\<close>

definition opt_str :: "string option \<Rightarrow> json" where
  "opt_str m = (case m of None \<Rightarrow> JNull | Some s \<Rightarrow> JStr s)"

fun sample_frame :: "frame \<Rightarrow> json" where
  "sample_frame (Hello v t) = JArr [JStr ''hello'', JNum (ucast v), JStr t]"
| "sample_frame (HelloAck s m) = JArr [JStr ''hello_ack'', JStr s, opt_str m]"
| "sample_frame (PushBegin i m n) = JArr [JStr ''push_begin'', JStr i, m, JNum n]"
| "sample_frame (PushReady s) = JArr [JStr ''push_ready'', JStr s]"
| "sample_frame (FileChunks p hs) = JArr [JStr ''file_chunks'', JStr p, JArr (map JStr hs)]"
| "sample_frame (Object h n) = JArr [JStr ''object'', JStr h, JNum n]"
| "sample_frame PushEnd = JArr [JStr ''push_end'']"
| "sample_frame (PushAck s) = JArr [JStr ''push_ack'', JStr s]"
| "sample_frame (PullRequest i) = JArr [JStr ''pull_request'', JStr i]"
| "sample_frame (ErrorFrame m) = JArr [JStr ''error'', JStr m]"

definition sample_unframe :: "json \<Rightarrow> error + frame" where
  "sample_unframe j = (case j of JArr (JStr t # js) \<Rightarrow>
       (case js of
          [] \<Rightarrow> if t = ''push_end'' then Inr PushEnd else Inl JsonError
        | [JStr s] \<Rightarrow> if t = ''push_ready'' then Inr (PushReady s) else if t = ''push_ack'' then Inr (PushAck s)
            else if t = ''pull_request'' then Inr (PullRequest s) else if t = ''error'' then Inr (ErrorFrame s) else Inl JsonError
        | [JNum v, JStr s] \<Rightarrow> Inr (Hello (ucast v) s)
        | [JStr s, JNull] \<Rightarrow> Inr (HelloAck s None)
        | [JStr s, JStr m] \<Rightarrow> Inr (HelloAck s (Some m))
        | [JStr s, JNum n] \<Rightarrow> Inr (Object s n)
        | [JStr s, JArr hs] \<Rightarrow> bindE (strings_of hs) (\<lambda>hs. Inr (FileChunks s hs))
        | [JStr s, m, JNum n] \<Rightarrow> Inr (PushBegin s m n)
        | _ \<Rightarrow> Inl JsonError)
     | _ \<Rightarrow> Inl JsonError)"

lemma sample_unframe_frame: "sample_unframe (sample_frame fr) = Inr fr"
proof (cases fr)
  case (Hello v t)
  have "(ucast (ucast v :: u64) :: u32) = v" by transfer simp
  then show ?thesis by (simp add: Hello sample_unframe_def)
qed (simp_all add: sample_unframe_def opt_str_def split: option.splits json.splits)

definition sample_tag :: "bytes \<Rightarrow> bytes" where
  "sample_tag k = take 16 (k @ replicate 16 0)"

definition sample_sync :: sync_libs where
  "sample_sync = \<lparr>aead_encrypt = (\<lambda>k n d. Some (sample_tag k @ d)),
     aead_decrypt = (\<lambda>k n ct. if take 16 ct = sample_tag k then Some (drop 16 ct) else None),
     random_nonce = (\<lambda>i. replicate 24 (of_nat i)),
     frame_to_vec = (\<lambda>fr. Inr (bytes_of (postfix (sample_frame fr)))),
     frame_from_slice = (\<lambda>b. bindE (sample_parse b) sample_unframe)\<rparr>"

lemma sample_sync_laws: "sync_laws sample_sync"
  by (auto simp: sync_laws_def sample_sync_def sample_tag_def sample_parse_postfix sample_unframe_frame)

section \<open>Sizes\<close>

lemma length_halves [simp]: "length (halves s) = 2 * length s"
  by (induction s) (simp_all add: halves_def)

lemma length_codec [simp]: "length (string_of b) = length b" "length (bytes_of s) = length s"
  by (simp_all add: string_of_def bytes_of_def)

lemma sendable_frame: "length (postfix (sample_frame fr)) + 16 \<le> MAX_FRAME_BYTES \<Longrightarrow> sendable sample_sync (Fr fr)"
  by (simp add: sendable_def payload_of_def sample_sync_def)

lemma sendable_raw: "length d + 16 \<le> MAX_FRAME_BYTES \<Longrightarrow> sendable S (Raw d)"
  by (simp add: sendable_def payload_of_def)

section \<open>The sender\<close>

definition game_tally :: tally where
  "game_tally = tally_all [Inr (''world/a.mca'', 1, 0, 1), Inr (''world/level.dat'', 3, 0, 1)]"

definition game_done :: "sample_db engine" where
  "game_done = snd (commit_backup sample_crates game_env (begun game_env) None 2 game_tally game_after)"

definition game_result :: backup_result where
  "game_result = result_of game_env 2 game_tally"

lemma game_done_run: "commit_backup sample_crates game_env (begun game_env) None 2 game_tally game_after = (Inr game_result, game_done)"
proof -
  obtain r e' where c: "commit_backup sample_crates game_env (begun game_env) None 2 game_tally game_after = (Inr r, e')"
    using game_commits [of None] unfolding game_tally_def by blast
  moreover have "r = game_result" by (rule commit_backup_steps [OF c]) (simp add: game_result_def)
  ultimately show ?thesis by (simp add: game_done_def)
qed

lemma game_after_engine: "game_after = processing game_env game_engine\<lparr>index_db := db2, obj_store := store2, disk := fs2,
     transients := [\<lparr>chunk_hash = h1, object_path = object_path_of h1\<rparr>, \<lparr>chunk_hash = h2, object_path = object_path_of h2\<rparr>]\<rparr>"
  by (simp add: game_after_def after_both_def)

lemma game_stored:
  "files_stored sample_crates game_content [(''world/a.mca'', [4]), (''world/level.dat'', [1, 2, 3])]
      (processing game_env game_engine) game_after"
proof -
  let ?p = "processing game_env game_engine"
  have inv: "engine_inv sample_crates game_content ?p" using game_inv by (simp add: engine_inv_def)
  have names: "rel_of ?p amca = ''world/a.mca''" "rel_of ?p level = ''world/level.dat''" by (simp_all add: rel_names)
  have run: "run_tasks sample_crates game_env [(0, amca), (1, level)] ?p =
     Some ([(0, Inr (''world/a.mca'', 1, 0, 1)), (1, Inr (''world/level.dat'', 3, 0, 1))], game_after)"
    unfolding game_after_def by (rule tasks_run) simp_all
  have out: "\<forall>(i, fe) \<in> set [(0 :: nat, amca), (1, level)]. outside (obj_store ?p) (fe_path fe)"
    by (simp add: outside_def game_store_def amca_def level_def below_def)
  have tasks: "tasks_ok sample_crates game_env game_content [(0, amca), (1, level)] ?p"
    using game_tasks_ok by (simp add: game_tasks)
  have dist: "distinct (map (\<lambda>(i, fe). rel_of ?p fe) [(0 :: nat, amca), (1, level)])" by (simp add: names)
  have laws: "rs_laws (cr_libs sample_crates)" by (simp add: sample_rs_laws)
  from run_tasks_stores [OF laws inv tasks dist out] run have
    "files_stored sample_crates game_content (map (\<lambda>(i, fe). file_content ?p fe) [(0 :: nat, amca), (1, level)]) ?p game_after"
    by auto
  moreover have "bytes_at game_fs (fe_path amca) = [4]" "bytes_at game_fs (fe_path level) = [1, 2, 3]"
    by (simp_all add: bytes_at_def fs_read_def fs_node_def game_fs_def amca_def level_def)
  ultimately show ?thesis by (simp add: file_content_def names)
qed

lemma game_after_placed: "placed game_after"
  by (simp add: placed_def store2_def store1_def game_store_def)

lemmas game_done_effect = commit_backup_effect [OF game_done_run files_storedD(7) [OF game_stored] game_after_placed]

lemma slash_free: "CHR ''/'' \<notin> set (uuid8 game_env)"
  by simp

abbreviation game_snap :: string where
  "game_snap \<equiv> ''snap_0a1b2c3d''"

definition game_manifest :: json where
  "game_manifest = manifest_of game_after game_env None 2 game_tally"

lemma game_snap_id: "br_snapshot_id game_result = game_snap"
  by (simp add: game_result_def result_of_def)

lemma game_done_facts:
  "engine_inv sample_crates game_content game_done"
  "recoverable sample_crates game_done ''world/a.mca'' [4]" "recoverable sample_crates game_done ''world/level.dat'' [1, 2, 3]"
  "snapshot_files sample_index_libs game_snap game_done = Inr [''world/a.mca'', ''world/level.dat'']"
  "snapshot_manifest_json sample_index_libs game_snap game_done = Inr game_manifest"
proof -
  note eff = game_done_effect [OF slash_free, unfolded game_snap_id]
  show "engine_inv sample_crates game_content game_done" by (rule eff(1))
  show "recoverable sample_crates game_done ''world/a.mca'' [4]" "recoverable sample_crates game_done ''world/level.dat'' [1, 2, 3]"
    using files_storedD(1) [OF game_stored] by (simp_all add: eff(2))
  have "all_file_paths game_tally = [''world/a.mca'', ''world/level.dat'']"
    by (simp add: game_tally_def tally_all_def tally_one_def)
  then show "snapshot_files sample_index_libs game_snap game_done = Inr [''world/a.mca'', ''world/level.dat'']"
    using eff(3) by (simp add: snapshot_files_def)
  have "json_pretty sample_index_libs game_manifest = Inr (postfix game_manifest)" by (simp add: sample_index_libs_def)
  then have "fs_read (disk game_done) (manifest_path game_done game_snap) = Inr (bytes_of (postfix game_manifest))"
    using eff(4) by (simp add: game_manifest_def)
  then show "snapshot_manifest_json sample_index_libs game_snap game_done = Inr game_manifest"
    unfolding snapshot_manifest_json_def read_manifest_def manifest_path_def [symmetric]
    by (simp add: fs_read_to_string_def utf8_postfix codec_simps) (simp add: sample_index_libs_def sample_parse_postfix)
qed

lemma game_done_store: "obj_store game_done = store2"
  by (rule commit_backup_steps [OF game_done_run]) simp

lemma game_done_index:
  "file_chunks sample_index_libs ''world/a.mca'' game_done = Inr [h1]"
  "file_chunks sample_index_libs ''world/level.dat'' game_done = Inr [h2]"
proof -
  obtain d1 d2 where
    d: "insert_snapshot_files sample_index_libs (''snap_'' @ uuid8 game_env) (all_file_paths game_tally) db2 = (Inr (), d1)"
    "flush_wal sample_index_libs d1 = (Inr (), d2)" "index_db game_done = d2"
    by (rule commit_backup_steps [OF game_done_run]) (simp add: that)
  have "abs_index sample_index_libs d1 = set_snap (''snap_'' @ uuid8 game_env) (all_file_paths game_tally) (abs_index sample_index_libs db2)"
    using insert_snapshot_files_refines [OF sample_index_ok, of "''snap_'' @ uuid8 game_env" "all_file_paths game_tally" db2] d(1)
    by (auto simp: refines_def)
  moreover have "abs_index sample_index_libs d2 = abs_index sample_index_libs d1"
    using flush_wal_refines [OF sample_index_ok, of d1] d(2) by (auto simp: refines_def)
  ultimately have "st_files (abs_index sample_index_libs (index_db game_done)) = st_files (abs_index sample_index_libs db2)"
    by (simp add: d(3) set_snap_def)
  then show "file_chunks sample_index_libs ''world/a.mca'' game_done = Inr [h1]"
    "file_chunks sample_index_libs ''world/level.dat'' game_done = Inr [h2]"
    by (simp_all add: file_chunks_def get_file_chunks_ok db2_def db1_def set_file_def bump_def)
qed

lemma game_done_objects: "read_object_data h1 game_done = Inr [4]" "read_object_data h2 game_done = Inr [1, 2, 3]"
proof -
  have "faithful game_content store2 (disk game_done)"
    using game_done_facts(1) by (simp add: engine_inv_def data_inv_def game_done_store)
  moreover have "contains store2 h1" "contains store2 h2" by (simp_all add: contains_def store2_def)
  ultimately show "read_object_data h1 game_done = Inr [4]" "read_object_data h2 game_done = Inr [1, 2, 3]"
    using hashes by (simp_all add: read_object_data_def game_done_store faithful_def game_content_def)
qed

section \<open>The receiver\<close>

definition recv1 :: "sample_db engine" where
  "recv1 = snd (store_file_chunks sample_index_libs ''world/a.mca'' [h1] game_engine)"
definition recv2 :: "sample_db engine" where "recv2 = snd (store_object sample_crates h1 [4] recv1)"
definition recv3 :: "sample_db engine" where
  "recv3 = snd (store_file_chunks sample_index_libs ''world/level.dat'' [h2] recv2)"
definition recv4 :: "sample_db engine" where "recv4 = snd (store_object sample_crates h2 [1, 2, 3] recv3)"

lemma file_chunks_step:
  obtains db where "store_file_chunks sample_index_libs p hs e = (Inr (), e\<lparr>index_db := db\<rparr>)"
    "abs_index sample_index_libs db = set_file p hs 0 (abs_index sample_index_libs (index_db e))"
proof -
  obtain db where "insert_file_chunks sample_index_libs p hs 0 0 (index_db e) = (Inr (), db)"
    "abs_index sample_index_libs db = set_file p hs 0 (abs_index sample_index_libs (index_db e))"
    by (rule refinesE [OF insert_file_chunks_refines [OF sample_index_ok, of p hs 0 0 "index_db e"]])
  then show ?thesis using that [of db] by (simp add: store_file_chunks_def on_index_def)
qed

lemma object_step:
  assumes "write_object sample_libs h d (of_nat (length d)) (obj_store e, disk e) = (Inr (), (s, f))"
  obtains db where "store_object sample_crates h d e = (Inr (), e\<lparr>obj_store := s, disk := f, index_db := db\<rparr>)"
    "abs_index sample_index_libs db = bump h (abs_index sample_index_libs (index_db e))"
proof -
  let ?b = "st_known (abs_index sample_index_libs (index_db e)) h"
  have "refines sample_index_libs (if ?b then increment_ref sample_index_libs h
      else insert_chunk sample_index_libs h ''<remote>'' 0 (of_nat (length d))) () (bump h) (index_db e)"
    using increment_ref_refines [OF sample_index_ok] insert_chunk_refines [OF sample_index_ok] by simp
  from refinesE [OF this] obtain db where db: "(if ?b then increment_ref sample_index_libs h
      else insert_chunk sample_index_libs h ''<remote>'' 0 (of_nat (length d))) (index_db e) = (Inr (), db)"
    "abs_index sample_index_libs db = bump h (abs_index sample_index_libs (index_db e))" by metis
  have "store_object sample_crates h d e = (Inr (), e\<lparr>obj_store := s, disk := f, index_db := db\<rparr>)"
    using db(1) assms by (simp add: store_object_def bindS_def on_store_def on_index_def split: if_splits)
  with db(2) that show ?thesis by blast
qed

lemma recv_steps:
  "store_file_chunks sample_index_libs ''world/a.mca'' [h1] game_engine = (Inr (), recv1)"
  "store_object sample_crates h1 [4] recv1 = (Inr (), recv2)"
  "store_file_chunks sample_index_libs ''world/level.dat'' [h2] recv2 = (Inr (), recv3)"
  "store_object sample_crates h2 [1, 2, 3] recv3 = (Inr (), recv4)"
  and recv_state: "obj_store recv1 = game_store" "disk recv1 = game_fs" "obj_store recv3 = store1" "disk recv3 = fs1"
  "disk recv4 = fs2" "server_root recv4 = [''r'']"
proof -
  obtain a where a: "store_file_chunks sample_index_libs ''world/a.mca'' [h1] game_engine = (Inr (), game_engine\<lparr>index_db := a\<rparr>)"
    by (rule file_chunks_step)
  then show 1: "store_file_chunks sample_index_libs ''world/a.mca'' [h1] game_engine = (Inr (), recv1)"
    and r1: "obj_store recv1 = game_store" "disk recv1 = game_fs" by (simp_all add: recv1_def)
  have r1': "server_root recv1 = [''r'']" using a by (simp add: recv1_def)
  obtain b where b: "store_object sample_crates h1 [4] recv1 = (Inr (), recv1\<lparr>obj_store := store1, disk := fs1, index_db := b\<rparr>)"
    by (rule object_step [of h1 "[4]" recv1 store1 fs1]) (simp_all add: r1 w1)
  then show 2: "store_object sample_crates h1 [4] recv1 = (Inr (), recv2)" by (simp add: recv2_def)
  have r2: "obj_store recv2 = store1" "disk recv2 = fs1" "server_root recv2 = [''r'']" using b by (simp_all add: recv2_def r1')
  obtain c where c: "store_file_chunks sample_index_libs ''world/level.dat'' [h2] recv2 = (Inr (), recv2\<lparr>index_db := c\<rparr>)"
    by (rule file_chunks_step)
  then show 3: "store_file_chunks sample_index_libs ''world/level.dat'' [h2] recv2 = (Inr (), recv3)"
    and r3: "obj_store recv3 = store1" "disk recv3 = fs1" by (simp_all add: recv3_def r2)
  have r3': "server_root recv3 = [''r'']" using c by (simp add: recv3_def r2)
  obtain d where d: "store_object sample_crates h2 [1, 2, 3] recv3 = (Inr (), recv3\<lparr>obj_store := store2, disk := fs2, index_db := d\<rparr>)"
    by (rule object_step [of h2 "[1, 2, 3]" recv3 store2 fs2]) (simp_all add: r3 w2)
  then show "store_object sample_crates h2 [1, 2, 3] recv3 = (Inr (), recv4)" "disk recv4 = fs2" "server_root recv4 = [''r'']"
    by (simp_all add: recv4_def r3')
qed

lemma recv_chunks: "store_chunks sample_crates game_done [h1] recv1 = (Inr (), recv2)"
  "store_chunks sample_crates game_done [h2] recv3 = (Inr (), recv4)"
  by (simp_all add: store_chunks_def bindS_def game_done_objects recv_steps)

lemma recv_files: "store_files sample_crates game_done [''world/a.mca'', ''world/level.dat''] game_engine = (Inr (), recv4)"
  by (simp add: store_files_def bindS_def game_done_index recv_steps recv_chunks)

lemma recv_register: "\<exists>e2. register_remote_snapshot sample_index_libs game_snap game_manifest recv4 = (Inr (), e2)"
proof -
  define dir where "dir = [''r'', ''.obsidian'', ''store'', ''snapshots'']"
  have dir: "snapshot_dir recv4 = dir" by (simp add: snapshot_dir_path dir_def recv_state)
  have name: "child dir (game_snap @ ''.json'') = dir @ [''snap_0a1b2c3d.json'']" by (simp add: child_name)
  have mk: "create_dir_all dir fs2 = (Inr (), set_node dir Dir fs2)"
    by (simp add: create_dir_all_def dir_def fs2_node Let_def)
  have "\<exists>f. fs_write (dir @ [''snap_0a1b2c3d.json'']) m (set_node dir Dir fs2) = (Inr (), f)" for m
    by (simp add: fs_write_def is_dir_def parent_def fs2_node frame_simps dir_def)
  then obtain f where w: "fs_write (dir @ [''snap_0a1b2c3d.json'']) (bytes_of (postfix game_manifest)) (set_node dir Dir fs2) = (Inr (), f)"
    by blast
  have p: "json_pretty sample_index_libs game_manifest = Inr (postfix game_manifest)" by (simp add: sample_index_libs_def)
  show ?thesis
    unfolding register_remote_snapshot_def Let_def dir name
    by (simp add: bindS_def on_disk_def recv_state mk p w upd_def)
qed

lemma recv_transfer: "\<exists>e2. transfer sample_crates game_snap game_done game_engine = (Inr (), e2)"
proof -
  obtain e2 where "register_remote_snapshot sample_index_libs game_snap game_manifest recv4 = (Inr (), e2)"
    using recv_register by blast
  then have "transfer sample_crates game_snap game_done game_engine = (Inr (), e2)"
    unfolding transfer_def by (simp add: bindS_def game_done_facts(4,5) recv_files)
  then show ?thesis by blast
qed

lemma recv_fits: "files_fit sample_crates game_content game_done [''world/a.mca'', ''world/level.dat''] game_engine"
proof -
  have room: "receivable recv1 h1 (game_content h1)" "receivable recv3 h2 (game_content h2)"
    using game_room hashes by (simp_all add: receivable_def recv_state game_content_def)
  have one: "bindS (liftS (file_chunks sample_index_libs ''world/a.mca'' game_done)) (\<lambda>hs.
        bindS (store_file_chunks sample_index_libs ''world/a.mca'' hs) (\<lambda>_. store_chunks sample_crates game_done hs)) game_engine = (Inr (), recv2)"
    by (simp add: bindS_def game_done_index recv_steps(1) store_chunks_def game_done_objects recv_steps(2))
  from room show ?thesis
    unfolding files_fit_Cons crates_simps one snd_conv
    by (simp add: game_done_index recv_steps chunks_fit_Cons) (simp add: files_fit_def chunks_fit_def)
qed

text \<open>The sizes of the frames.\<close>

lemma length_manifest: "length (postfix game_manifest) \<le> 2000"
  by (simp add: game_manifest_def manifest_of_def show_path_def is_absolute_def) (simp add: game_env_def)

definition sample_remote :: RemoteSyncConfig where
  "sample_remote = RemoteSyncConfig_default\<lparr>peer_addr := Some ''peer''\<rparr>"

lemma sync_fits: "transfer_fits sample_crates sample_sync (sync_token sample_remote) game_snap game_done"
proof -
  note frame = sendable_frame [unfolded MAX_FRAME_BYTES_def]
  have msgs: "file_msgs sample_crates game_done [''world/a.mca'', ''world/level.dat''] =
     [Fr (FileChunks ''world/a.mca'' [h1]), Fr (Object h1 1), Raw [4],
      Fr (FileChunks ''world/level.dat'' [h2]), Fr (Object h2 3), Raw [1, 2, 3]]"
    by (simp add: game_done_index game_done_objects)
  have "list_all (sendable sample_sync) (file_msgs sample_crates game_done [''world/a.mca'', ''world/level.dat''])"
    unfolding msgs by (simp add: frame sendable_raw MAX_FRAME_BYTES_def)
  moreover have "sendable sample_sync (Fr (PushBegin game_snap game_manifest n))" for n
    by (rule frame) (use length_manifest in simp)
  moreover have "list_all (sendable sample_sync) [Fr (Hello PROTOCOL_VERSION (sync_token sample_remote)), Fr (HelloAck ''ok'' None),
      Fr (PushReady ''ok''), Fr PushEnd, Fr (PushAck ''ok''), Fr (PullRequest game_snap)]"
    by (simp add: frame opt_str_def sample_remote_def RemoteSyncConfig_default_def)
  ultimately show ?thesis
    by (simp add: transfer_fits_def game_done_facts(4,5))
qed

section \<open>Witnesses\<close>

theorem sync_is_transfer_witness:
  "\<exists>e2. transfer sample_crates game_snap game_done game_engine = (Inr (), e2) \<and>
     exchange (push_snapshot sample_crates sample_sync sample_remote game_snap)
       (handle_incoming sample_crates sample_sync ''change-me'') game_done game_engine game_done e2"
proof -
  obtain e2 where t: "transfer sample_crates game_snap game_done game_engine = (Inr (), e2)" using recv_transfer by blast
  have "hash_laws (cr_libs sample_crates)" by (simp add: sample_hash_laws)
  from sync_is_transfer [OF sample_sync_laws this sync_fits t] t show ?thesis
    by (auto simp: sample_remote_def RemoteSyncConfig_default_def)
qed

theorem transfer_restorable_witness:
  "\<exists>e2. transfer sample_crates game_snap game_done game_engine = (Inr (), e2) \<and>
     recoverable sample_crates e2 ''world/a.mca'' [4] \<and> recoverable sample_crates e2 ''world/level.dat'' [1, 2, 3]"
proof -
  obtain e2 where t: "transfer sample_crates game_snap game_done game_engine = (Inr (), e2)" using recv_transfer by blast
  have laws: "rs_laws (cr_libs sample_crates)" by (simp add: sample_rs_laws)
  have files: "snapshot_files (cr_index sample_crates) game_snap game_done = Inr [''world/a.mca'', ''world/level.dat'']"
    by (simp add: game_done_facts)
  define bs where "bs p = (if p = ''world/a.mca'' then [4] else [1, 2, 3 :: u8])" for p
  have rec: "recoverable sample_crates game_done p (bs p)" if "p \<in> set [''world/a.mca'', ''world/level.dat'']" for p
    using that game_done_facts(2,3) by (auto simp: bs_def)
  from transfer_restorable [OF laws game_done_facts(1) game_inv game_layout(2) t files _ rec recv_fits] t show ?thesis
    by (simp add: bs_def)
qed

theorem payload_roundtrip_witness:
  "\<exists>c1. send_payload sample_sync [7] [1, 2] (line 0 []) = (Inr (), c1) \<and>
     fst (recv_payload sample_sync [7] (line 5 (outbox c1 @ [9]))) = Inr [1, 2]"
proof -
  obtain r c1 where run: "send_payload sample_sync [7] [1, 2] (line 0 []) = (r, c1)" by fastforce
  have "length [1, 2 :: u8] + 16 < 2 ^ 32" "broken_after (line 0 []) = None" "outbox c1 = outbox (line 0 []) @ outbox c1"
    "inbox (line 5 (outbox c1 @ [9])) = outbox c1 @ [9]" by (simp_all add: line_def)
  from payload_roundtrip [OF sample_sync_laws this(1,2) run this(3,4)] run show ?thesis
    by (simp add: MAX_FRAME_BYTES_def)
qed

theorem handshake_required_witness:
  "fst (snd (handle_incoming sample_crates sample_sync ''secret'' (game_engine, line 0 [1, 2, 3]))) = game_engine"
proof -
  obtain r e' c' where run: "handle_incoming sample_crates sample_sync ''secret'' (game_engine, line 0 [1, 2, 3]) = (r, (e', c'))"
    by (metis prod.collapse)
  have "recv_frame sample_sync key (line 0 [1, 2, 3]) \<noteq> (Inr (Hello PROTOCOL_VERSION ''secret''), c1)" for key c1
    by (simp add: recv_frame_def recv_payload_def read_exact_def line_def bindS_def LEN_BYTES_def)
  with handshake_required [OF run] run show ?thesis by simp
qed

text \<open>The bytes 4 under the name of the bytes 1, 2, 3.\<close>

lemma forged_write: "\<exists>s f. write_object sample_libs h2 [4] 1 (game_store, game_fs) = (Inr (), (s, f))"
proof -
  define f where "f = set_node (object_at h2) (File [4]) game_fs"
  have w: "fs_write (object_at h2) [4] game_fs = (Inr (), f)"
    using game_node by (simp add: fs_write_def f_def is_dir_def) (simp add: game_fs_def)
  have l: "file_len f (object_at h2) = 1" by (simp add: file_len_def f_def)
  show ?thesis
    by (simp add: write_object_def contains_def write_individual_object_def on_fs_def object_paths w Let_def
        maybe_seal_packfiles_def l modify_def bindS_def) (simp add: game_store_def l)
qed

theorem object_name_unchecked_witness:
  "content_hash sample_libs [4] \<noteq> h2 \<and>
   (\<exists>e1 c. receive_loop sample_crates sample_sync [7] game_engine c = (Inr (), (e1, line 0 [])) \<and> read_object_data h2 e1 = Inr [4])"
proof -
  obtain s f where w: "write_object sample_libs h2 [4] 1 (game_store, game_fs) = (Inr (), (s, f))"
    using forged_write by blast
  obtain db where s: "store_object sample_crates h2 [4] game_engine = (Inr (), game_engine\<lparr>obj_store := s, disk := f, index_db := db\<rparr>)"
    by (rule object_step [of h2 "[4]" game_engine s f]) (simp_all add: w)
  have laws: "rs_laws (cr_libs sample_crates)" by (simp add: sample_rs_laws)
  have new: "\<not> contains (obj_store game_engine) h2" by (simp add: contains_def game_store_def)
  have room: "room (obj_store game_engine, disk game_engine) h2 [4]"
    by (simp add: room_def hashes loose_bytes_def game_store_def)
  let ?ms = "[Fr (Object h2 (of_nat (length [4 :: u8]))), Raw [4], Fr PushEnd]"
  have fits: "list_all (sendable sample_sync) ?ms"
    by (simp add: sendable_frame [unfolded MAX_FRAME_BYTES_def] sendable_raw MAX_FRAME_BYTES_def)
  have inb: "inbox (line 0 (wire sample_sync [7] 0 ?ms)) = wire sample_sync [7] 0 ?ms @ []" by (simp add: line_def)
  have "(line 0 (wire sample_sync [7] 0 ?ms))\<lparr>inbox := []\<rparr> = line 0 []" by (simp add: line_def)
  with object_name_unchecked [OF sample_sync_laws laws game_inv new room s fits inb] hashes(3)
  show ?thesis unfolding h1_def by metis
qed

end
