(* ===== verification/Sample_Restore.thy ===== *)
theory Sample_Restore
  imports Maintenance_Correct Sample_Sync
begin

text \<open>
  The sample server after its backup, and what its restores, its pruning and its verification do:
  the witnesses of \<open>Restore_Correct\<close> and \<open>Maintenance_Correct\<close>.
\<close>

section \<open>The server after its backup\<close>

abbreviation snap_dir :: path where
  "snap_dir \<equiv> [''r'', ''.obsidian'', ''store'', ''snapshots'']"

definition manifest_bytes :: bytes where
  "manifest_bytes = bytes_of (postfix game_manifest)"

definition signature_bytes :: bytes where
  "signature_bytes = bytes_of (sign sample_sign_libs \<lparr>signing_key = replicate 32 7, signer_key_path = [''k'']\<rparr> manifest_bytes)"

definition fs3 :: fs where
  "fs3 = set_node (snap_dir @ [''snap_0a1b2c3d.sig'']) (File signature_bytes)
     (set_node (snap_dir @ [''snap_0a1b2c3d.json'']) (File manifest_bytes) (set_node snap_dir Dir fs2))"

lemma done_disk: "disk game_done = fs3"
proof -
  obtain f1 s f2 f3 where
    f1: "create_dir_all (snapshot_dir game_after) (disk game_after) = (Inr (), f1)"
    and s: "json_pretty sample_index_libs (manifest_of game_after game_env None 2 game_tally) = Inr s"
    and f2: "fs_write (manifest_path game_after game_snap) (bytes_of s) f1 = (Inr (), f2)"
    and f3: "fs_write (sig_path game_after game_snap) (bytes_of (sign sample_sign_libs
        \<lparr>signing_key = replicate 32 7, signer_key_path = [''k'']\<rparr> (bytes_of s))) f2 = (Inr (), f3)"
    and e: "disk game_done = f3"
    by (rule commit_backup_steps [OF game_done_run]) (rule that, simp_all add: game_engine_def)
  have dir: "snapshot_dir game_after = snap_dir" by (simp add: snapshot_dir_path)
  have paths: "manifest_path game_after game_snap = snap_dir @ [''snap_0a1b2c3d.json'']"
    "sig_path game_after game_snap = snap_dir @ [''snap_0a1b2c3d.sig'']"
    by (simp_all add: snapshot_paths dir)
  have s': "bytes_of s = manifest_bytes"
    using s by (simp add: sample_index_libs_def manifest_bytes_def game_manifest_def)
  have "f1 = set_node snap_dir Dir fs2"
    using f1 by (simp add: dir create_dir_all_def fs2_node Let_def)
  moreover have "f2 = set_node (snap_dir @ [''snap_0a1b2c3d.json'']) (File manifest_bytes) f1"
    using fs_write_InrD(1) [OF f2] by (simp add: paths s')
  moreover have "f3 = set_node (snap_dir @ [''snap_0a1b2c3d.sig'']) (File signature_bytes) f2"
    using fs_write_InrD(1) [OF f3] by (simp add: paths s' signature_bytes_def)
  ultimately show ?thesis by (simp add: e fs3_def)
qed

lemma fs3_nodes:
  "fs_node fs3 q = (if q = snap_dir @ [''snap_0a1b2c3d.sig''] then Some (File signature_bytes)
     else if q = snap_dir @ [''snap_0a1b2c3d.json''] then Some (File manifest_bytes)
     else if q = snap_dir then Some Dir else fs_node fs2 q)"
  "fs_node fs2 q = (if q = object_at h2 then Some (File [1, 2, 3]) else if q = object_at h1 then Some (File [4]) else fs_node game_fs q)"
  "faulty fs3 = []" "real_path fs3 = id"
  using fs_node_root [of q fs3] fs_node_root [of q fs2]
  by (auto simp: fs3_def fs2_def fs1_def object_at_def frame_simps game_fs_def fs_node_root)

lemma done_fields:
  "server_root game_done = [''r'']" "signer game_done = Some \<lparr>signing_key = replicate 32 7, signer_key_path = [''k'']\<rparr>"
  "config game_done = config game_after"
  by (rule commit_backup_steps [OF game_done_run], simp add: game_engine_def)+

lemma done_placed: "placed game_done"
  using game_after_placed by (simp add: placed_def done_fields game_done_store)

lemma done_files: "get_all_files sample_index_libs (index_db game_done) = Inr [''world/a.mca'', ''world/level.dat'']"
proof -
  obtain d1 d2 where
    d: "insert_snapshot_files sample_index_libs game_snap (all_file_paths game_tally) db2 = (Inr (), d1)"
    "flush_wal sample_index_libs d1 = (Inr (), d2)" "index_db game_done = d2"
    by (rule commit_backup_steps [OF game_done_run]) (simp add: that)
  have "d1 CF_FILE_CHUNKS = db2 CF_FILE_CHUNKS"
    using d(1) by (auto simp: insert_snapshot_files_def bindS_Inr_iff sample_index_libs_def need_cf_def returnS_def liftS_def cf_names split: if_splits)
  moreover have "d2 = d1" using d(2) by (simp add: flush_wal_def sample_index_libs_def bindS_def returnS_def)
  moreover have "map fst (db2 CF_FILE_CHUNKS) = map bytes_of [''world/a.mca'', ''world/level.dat'']"
    by (simp add: db2_def db1_def insert_file_chunks_def insert_chunk_def bindS_def sample_index_libs_def need_cf_def returnS_def
        liftS_def readS_def cf_names empty_db_def put_def get_ref_count_def bytes_of_inj)
  moreover have "utf8_valid (bytes_of ''world/a.mca'')" "utf8_valid (bytes_of ''world/level.dat'')"
    by (rule utf8_valid_ascii, simp add: bytes_of_def)+
  ultimately show ?thesis
    by (simp add: bytes_of_inj codec_simps get_all_files_def keys_of_cf_def d(3) need_cf_def sample_index_libs_def returnS_def comp_def)
qed

section \<open>Restores\<close>

text \<open>The same server with other real locations of its paths, to which symbolic links or a relative
  server directory lead.\<close>

definition done_at :: "(path \<Rightarrow> path) \<Rightarrow> sample_db engine" where
  "done_at rp = game_done\<lparr>disk := fs3\<lparr>real_path := rp\<rparr>\<rparr>"

lemma done_at_id: "done_at id = game_done"
proof -
  have "fs3\<lparr>real_path := id\<rparr> = fs3" using fs3_nodes(4) by (cases fs3) simp
  then show ?thesis by (simp add: done_at_def flip: done_disk)
qed

lemma done_at_fields [simp]:
  "server_root (done_at rp) = [''r'']" "index_db (done_at rp) = index_db game_done" "obj_store (done_at rp) = store2"
  "signer (done_at rp) = Some \<lparr>signing_key = replicate 32 7, signer_key_path = [''k'']\<rparr>"
  "disk (done_at rp) = fs3\<lparr>real_path := rp\<rparr>" "cfg_atomic_swap (config (done_at rp))"
  by (simp_all add: done_at_def done_fields game_done_store)
    (simp add: game_after_def after_both_def processing_def update_queues_def start_backup_def on_tx_def begin_tx_def upd_def
      set_state_def bindS_def returnS_def game_engine_def cfg_atomic_swap_def SidecarConfig_default_def SandboxConfig_default_def)

abbreviation box :: path where
  "box \<equiv> [''r'', ''.obsidian'', ''sandbox'', ''restore_0a1b2c3d'']"

lemma box_of: "sandbox_of game_env (done_at rp) = box" "sandbox_dir (done_at rp) = [''r'', ''.obsidian'', ''sandbox'']"
  by (simp_all add: sandbox_of_def sandbox_dir_def)

lemma real_path_node [simp]: "fs_node (f\<lparr>real_path := rp\<rparr>) q = fs_node f q"
  by (simp add: fs_node_def)

definition fs5 :: "(path \<Rightarrow> path) \<Rightarrow> fs" where
  "fs5 rp = set_node box Dir (set_node [''r'', ''.obsidian'', ''sandbox''] Dir (fs3\<lparr>real_path := rp\<rparr>))"

lemma game_nodes:
  "fs_node game_fs [''r''] = Some Dir" "fs_node game_fs [''r'', ''.obsidian''] = Some Dir"
  "fs_node game_fs [''r'', ''world''] = Some Dir" "fs_node game_fs [''r'', ''world_old_tmp''] = None"
  "fs_node game_fs ([''r'', ''.obsidian'', ''sandbox''] @ t) = None"
  by (simp_all add: fs_node_def game_fs_def)

lemma fs5_nodes:
  "fs_node (fs5 rp) q = (if q = box \<or> q = [''r'', ''.obsidian'', ''sandbox''] then Some Dir else fs_node fs3 q)"
  "faulty (fs5 rp) = []" "real_path (fs5 rp) = rp"
  using fs_node_root [of q fs3] by (auto simp: fs5_def frame_simps fs3_nodes(3))

lemma sandbox_made:
  "create_dir_all [''r'', ''.obsidian'', ''sandbox''] (fs3\<lparr>real_path := rp\<rparr>) =
     (Inr (), set_node [''r'', ''.obsidian'', ''sandbox''] Dir (fs3\<lparr>real_path := rp\<rparr>))"
  "create_dir_all box (set_node [''r'', ''.obsidian'', ''sandbox''] Dir (fs3\<lparr>real_path := rp\<rparr>)) = (Inr (), fs5 rp)"
  using game_nodes(5) [of "[]"] game_nodes(5) [of "[''restore_0a1b2c3d'']"]
  by (simp_all add: create_dir_all_def Let_def fs3_nodes object_at_def game_nodes fs5_def frame_simps)

lemma prepared:
  "prepare_restore sample_crates game_env game_snap (done_at rp) = (Inr box, (done_at rp)\<lparr>disk := fs5 rp\<rparr>)"
proof -
  let ?e = "(done_at rp)\<lparr>disk := fs5 rp\<rparr>"
  have dir: "snapshot_dir (done_at rp) = snap_dir" "snapshot_dir ?e = snap_dir" by (simp_all add: snapshot_dir_path)
  have paths: "manifest_path (done_at rp) game_snap = snap_dir @ [''snap_0a1b2c3d.json'']" "sig_path ?e game_snap = snap_dir @ [''snap_0a1b2c3d.sig'']"
    by (simp_all add: snapshot_paths dir)
  have m: "fs_read_to_string (fs5 rp) (manifest_path (done_at rp) game_snap) = Inr (postfix game_manifest)"
    by (simp add: paths fs_read_to_string_def fs_read_def fs5_nodes fs3_nodes manifest_bytes_def utf8_postfix codec_simps)
  have ex: "fs_exists (fs3\<lparr>real_path := rp\<rparr>) (manifest_path (done_at rp) game_snap)"
    by (simp add: paths fs_exists_def fs3_nodes)
  have sg: "verify_manifest_signature sample_sign_libs ?e game_snap (postfix game_manifest) = Inr ()"
    by (rule signature_accepted [OF sample_sign_laws, where sg = "\<lparr>signing_key = replicate 32 7, signer_key_path = [''k'']\<rparr>"])
      (simp_all add: paths fs_read_def fs5_nodes fs3_nodes signature_bytes_def manifest_bytes_def)
  have chars: "all_chars sample_crates ''_-'' game_snap" by (simp add: all_chars_def ascii_alphanumeric_def)
  have name: "child [''r'', ''.obsidian'', ''sandbox''] ''restore_0a1b2c3d'' = box" by (simp add: child_name)
  show ?thesis
    unfolding prepare_restore_def Let_def sandbox_names(1) manifest_path_def [symmetric] box_of
    using ex chars by (simp add: on_disk_def sandbox_made name bindS_def readS_def liftS_def returnS_def m sg sample_index_libs_def sample_parse_postfix)
qed

text \<open>A file of the backup goes to its place in the sandbox.\<close>

abbreviation boxed :: "string \<Rightarrow> path" where
  "boxed n \<equiv> [''r'', ''.obsidian'', ''sandbox'', ''restore_0a1b2c3d'', ''world'', n]"

abbreviation boxed_world :: path where
  "boxed_world \<equiv> [''r'', ''.obsidian'', ''sandbox'', ''restore_0a1b2c3d'', ''world'']"

definition fs6 :: fs where "fs6 = set_node (boxed ''a.mca'') (File [4]) (set_node (boxed_world) Dir (fs5 id))"
definition fs7 :: fs where "fs7 = set_node (boxed ''level.dat'') (File [1, 2, 3]) fs6"

lemma fs7_nodes:
  "fs_node fs6 q = (if q = boxed ''a.mca'' then Some (File [4]) else if q = boxed_world then Some Dir else fs_node (fs5 id) q)"
  "fs_node fs7 q = (if q = boxed ''level.dat'' then Some (File [1, 2, 3]) else fs_node fs6 q)"
  "faulty fs6 = []" "faulty fs7 = []" "real_path fs6 = id" "real_path fs7 = id"
  using fs_node_root [of q "fs5 id"] fs_node_root [of q fs6] by (auto simp: fs7_def fs6_def frame_simps fs5_nodes)

lemma box_empty: "fs_node (fs5 rp) (''r'' # ''.obsidian'' # ''sandbox'' # ''restore_0a1b2c3d'' # c # t) = None"
  using game_nodes(5) [of "''restore_0a1b2c3d'' # c # t"] by (simp add: fs5_nodes fs3_nodes object_at_def)

lemma box_dirs:
  "fs_node (fs5 rp) [''r''] = Some Dir" "fs_node (fs5 rp) [''r'', ''.obsidian''] = Some Dir"
  "fs_node (fs5 rp) [''r'', ''.obsidian'', ''sandbox''] = Some Dir" "fs_node (fs5 rp) box = Some Dir"
  by (simp_all add: fs5_nodes fs3_nodes object_at_def game_nodes)

lemma boxed_dirs:
  "fs_node fs6 [''r''] = Some Dir" "fs_node fs6 [''r'', ''.obsidian''] = Some Dir"
  "fs_node fs6 [''r'', ''.obsidian'', ''sandbox''] = Some Dir" "fs_node fs6 box = Some Dir" "fs_node fs6 boxed_world = Some Dir"
  "fs_node fs6 (boxed ''level.dat'') = None"
  by (simp_all add: fs7_nodes box_dirs box_empty)

lemma boxed_writes:
  "write_dest (boxed ''a.mca'') [4] (fs5 id) = (Inr (), fs6)"
  "write_dest (boxed ''level.dat'') [1, 2, 3] fs6 = (Inr (), fs7)"
proof -
  have 1: "create_dir_all boxed_world (fs5 id) = (Inr (), set_node boxed_world Dir (fs5 id))"
    by (simp add: create_dir_all_def Let_def box_dirs box_empty fs5_nodes(2))
  have 2: "fs_write (boxed ''a.mca'') [4] (set_node boxed_world Dir (fs5 id)) = (Inr (), fs6)"
    by (simp add: fs_write_def is_dir_def parent_def box_empty frame_simps fs5_nodes(2) fs6_def)
  show "write_dest (boxed ''a.mca'') [4] (fs5 id) = (Inr (), fs6)" by (simp add: write_dest_def parent_def 1 2)
  have 3: "create_dir_all boxed_world fs6 = (Inr (), fs6)" by (simp add: create_dir_all_def Let_def boxed_dirs)
  have 4: "fs_write (boxed ''level.dat'') [1, 2, 3] fs6 = (Inr (), fs7)"
    by (simp add: fs_write_def is_dir_def parent_def boxed_dirs fs7_nodes(3) fs7_def)
  show "write_dest (boxed ''level.dat'') [1, 2, 3] fs6 = (Inr (), fs7)" by (simp add: write_dest_def parent_def 3 4)
qed

lemma rel_comps_world: "rel_comps ''world/a.mca'' = [''world'', ''a.mca'']" "rel_comps ''world/level.dat'' = [''world'', ''level.dat'']"
  by (simp_all add: rel_comps_def path_of_def)

lemma world_safe: "safe_name ''world/a.mca''" "safe_name ''world/level.dat''"
  by (simp_all add: safe_name_def substring_def upt_rec)

lemma boxed_data:
  "get_file_chunks sample_index_libs ''world/a.mca'' (index_db game_done) = Inr [h1]"
  "get_file_chunks sample_index_libs ''world/level.dat'' (index_db game_done) = Inr [h2]"
  "(\<And>q. \<not> outside store2 q \<Longrightarrow> fs_read f q = fs_read fs3 q) \<Longrightarrow> gather store2 f [h1] = ([4], False)"
  "(\<And>q. \<not> outside store2 q \<Longrightarrow> fs_read f q = fs_read fs3 q) \<Longrightarrow> gather store2 f [h2] = ([1, 2, 3], False)"
proof -
  show "get_file_chunks sample_index_libs ''world/a.mca'' (index_db game_done) = Inr [h1]"
    "get_file_chunks sample_index_libs ''world/level.dat'' (index_db game_done) = Inr [h2]"
    using game_done_index by (simp_all add: file_chunks_def)
  have s: "store_inv store2"
    using game_done_facts(1) by (simp add: engine_inv_def data_inv_def faithful_def game_done_store)
  show "gather store2 f [h1] = ([4], False)" "gather store2 f [h2] = ([1, 2, 3], False)"
    if "\<And>q. \<not> outside store2 q \<Longrightarrow> fs_read f q = fs_read fs3 q"
    using game_done_objects read_object_inside [OF s that] by (simp_all add: read_object_data_def game_done_store done_disk)
qed

lemma reads_same:
  "\<not> outside store2 q \<Longrightarrow> fs_read (fs5 rp) q = fs_read fs3 q" "\<not> outside store2 q \<Longrightarrow> fs_read fs6 q = fs_read fs3 q"
proof -
  have out: "outside store2 ([''r'', ''.obsidian'', ''sandbox''] @ t)" for t
    using sandbox_outside [OF done_placed, of game_env] done_placed
    by (simp add: outside_def below_def placed_def done_fields game_done_store)
  show "fs_read (fs5 rp) q = fs_read fs3 q" "fs_read fs6 q = fs_read fs3 q" if "\<not> outside store2 q"
  proof -
    have n: "q \<noteq> [''r'', ''.obsidian'', ''sandbox'']" "q \<noteq> box" "q \<noteq> boxed_world" "q \<noteq> boxed ''a.mca''"
      using that out [of "[]"] out [of "[''restore_0a1b2c3d'']"] out [of "[''restore_0a1b2c3d'', ''world'']"]
        out [of "[''restore_0a1b2c3d'', ''world'', ''a.mca'']"] by auto
    have "fs_node (fs5 rp) q = fs_node fs3 q" for rp using n fs5_nodes(1) by simp
    moreover have "fs_node fs6 q = fs_node (fs5 id) q" using n fs7_nodes(1) by simp
    ultimately show "fs_read (fs5 rp) q = fs_read fs3 q" "fs_read fs6 q = fs_read fs3 q"
      by (simp_all add: fs_read_def fs7_nodes(3) fs5_nodes(2) fs3_nodes(3) split: option.split node.split)
  qed
qed


text \<open>The swap of a sandbox for the world.\<close>

lemma swap_ok:
  assumes "fs_node f [''r''] = Some Dir" "fs_node f [''r'', ''world''] = Some Dir" "fs_node f [''r'', ''world_old_tmp''] = None"
    "fs_node f box = Some Dir" "faulty f = []"
  shows "\<exists>f'. atomic_swap [''r''] box f = (Inr (), f')"
proof -
  have names: "child [''r''] ''world'' = [''r'', ''world'']" "child [''r''] ''world_old_tmp'' = [''r'', ''world_old_tmp'']"
    by (simp_all add: child_name)
  obtain f1 where 1: "rename [''r'', ''world''] [''r'', ''world_old_tmp''] f = (Inr (), f1)"
    using assms by (simp add: rename_def fs_exists_def is_dir_def parent_def below_def)
  note n = rename_node [OF 1]
  have n1: "fs_node f1 [''r''] = Some Dir" "fs_node f1 [''r'', ''world''] = None" "fs_node f1 box = Some Dir" "faulty f1 = []"
    using n(2) [of "[''r'']"] n(2) [of "[''r'', ''world'']"] n(2) [of box] n(3) assms by (simp_all add: below_def proper_def)
  obtain f2 where 2: "rename box [''r'', ''world''] f1 = (Inr (), f2)"
    using n1 by (simp add: rename_def fs_exists_def is_dir_def parent_def below_def)
  show ?thesis using assms(2) 1 2 by (auto simp: atomic_swap_def Let_def names fs_exists_def bindS_def)
qed

theorem full_restore_places_witness:
  "\<exists>r e'. restore sample_crates game_env game_snap None None game_done = (Inr r, e') \<and> rr_files_restored r = 2 \<and>
     fs_node (disk e') [''r'', ''world'', ''world'', ''level.dat''] = Some (File [1, 2, 3]) \<and>
     (\<forall>b. fs_node (disk e') [''r'', ''world'', ''level.dat''] \<noteq> Some (File b))"
proof -
  let ?ps = "[''world/a.mca'', ''world/level.dat'']"
  have v: "validate_safe_path (fs5 id) box ''world/a.mca'' = Inr (boxed ''a.mca'')"
    "validate_safe_path fs6 box ''world/level.dat'' = Inr (boxed ''level.dat'')"
    using validate_no_links [of "fs5 id" "''world/a.mca''" box] validate_no_links [of fs6 "''world/level.dat''" box] world_safe
    by (simp_all add: rel_comps_world fs5_nodes(3) fs7_nodes(5))
  have "\<exists>r. restore_all sample_crates box ?ps empty_restore ((done_at id)\<lparr>disk := fs5 id\<rparr>) = (Inr r, (done_at id)\<lparr>disk := fs7\<rparr>)"
    using boxed_data(3) [OF reads_same(1), of id] boxed_data(4) [OF reads_same(2)]
    by (simp add: v boxed_data(1,2) on_disk_def boxed_writes bindS_def del: gather.simps)
  then obtain r where r: "restore_all sample_crates box ?ps empty_restore ((done_at id)\<lparr>disk := fs5 id\<rparr>) = (Inr r, (done_at id)\<lparr>disk := fs7\<rparr>)" ..
  have "\<exists>f'. atomic_swap [''r''] box fs7 = (Inr (), f')"
    by (rule swap_ok) (simp_all add: fs7_nodes fs5_nodes fs3_nodes object_at_def game_nodes)
  then obtain f' where f': "atomic_swap [''r''] box fs7 = (Inr (), f')" ..
  have swap: "cfg_atomic_swap (config game_done)" using done_at_fields(6) [of id] by (simp add: done_at_id)
  from r f' obtain e' where run: "restore sample_crates game_env game_snap None None game_done = (Inr r, e')"
    using done_at_fields(6) [of id] unfolding done_at_id [symmetric]
    by (simp add: restore_def prepared done_files readS_def bindS_def returnS_def on_disk_def)
  have files: "get_all_files (cr_index sample_crates) (index_db game_done) = Inr ?ps" by (simp add: done_files)
  have fresh: "fs_node (disk game_done) (sandbox_of game_env game_done @ t) = None" for t
    using box_of(1) [of id] game_nodes(5) [of "''restore_0a1b2c3d'' # t"] by (simp add: done_at_id done_disk fs3_nodes object_at_def)
  have "list_all safe_name ?ps" "distinct (map rel_comps ?ps)" by (simp_all add: world_safe rel_comps_world)
  from full_restore_places [OF run _ swap files _ this game_done_facts(1) done_placed fresh]
  have res: "\<And>t b. fs_node (disk e') (''r'' # ''world'' # t) = Some (File b) \<longleftrightarrow>
       (\<exists>p \<in> set ?ps. t = rel_comps p \<and> b = file_data sample_crates game_done p)" "rr_files_restored r = 2"
    by (simp_all add: done_disk fs3_nodes done_fields)
  have d: "file_data sample_crates game_done ''world/level.dat'' = [1, 2, 3]"
    using file_data_recoverable [OF game_done_facts(3)] by simp
  show ?thesis using run res d by (auto simp: rel_comps_world)
qed

theorem relative_root_empties_world_witness:
  "\<exists>e r e'. server_root e = [''r''] \<and> is_file (disk e) [''r'', ''world'', ''level.dat''] \<and>
     restore sample_crates game_env game_snap None None e = (Inr r, e') \<and> rr_files_restored r = 0 \<and>
     fs_node (disk e') [''r'', ''world'', ''level.dat''] \<noteq> Some (File [1, 2, 3])"
proof -
  let ?ps = "[''world/a.mca'', ''world/level.dat'']"
  let ?rp = "\<lambda>q. ''/'' # ''srv'' # q" let ?e = "done_at ?rp"
  have not: "\<not> fs_exists (fs5 ?rp) (boxed n)" for n
    using box_empty [of ?rp "''world''" "[n]"] by (simp add: fs_exists_def)
  have bad: "\<exists>x. validate_safe_path (fs5 ?rp) box p = Inl x" if "p \<in> set ?ps" for p
  proof (cases "validate_safe_path (fs5 ?rp) box p")
    case (Inr q)
    have "fs_exists (fs5 ?rp) q"
      by (rule validate_relative [OF _ _ _ _ Inr]) (simp_all add: fs5_nodes is_absolute_def fs_exists_def)
    then show ?thesis using validate_safe_path_Inr [OF Inr] that not by (auto simp: rel_comps_world)
  qed simp
  then obtain x y where xy: "validate_safe_path (fs5 ?rp) box ''world/a.mca'' = Inl x" "validate_safe_path (fs5 ?rp) box ''world/level.dat'' = Inl y"
    by (metis list.set_intros(1,2))
  have r: "restore_all sample_crates box ?ps empty_restore (?e\<lparr>disk := fs5 ?rp\<rparr>) = (Inr empty_restore, ?e\<lparr>disk := fs5 ?rp\<rparr>)"
    by (simp add: xy boxed_data(1,2) split_beta)
  have "\<exists>f'. atomic_swap [''r''] box (fs5 ?rp) = (Inr (), f')"
    by (rule swap_ok) (simp_all add: fs5_nodes fs3_nodes object_at_def game_nodes)
  then obtain f' where "atomic_swap [''r''] box (fs5 ?rp) = (Inr (), f')" ..
  with r obtain e' where run: "restore sample_crates game_env game_snap None None ?e = (Inr empty_restore, e')"
    by (simp add: restore_def prepared done_files readS_def bindS_def returnS_def on_disk_def)
  have files: "get_all_files (cr_index sample_crates) (index_db ?e) = Inr ?ps" by (simp add: done_files)
  have fresh: "fs_node (disk ?e) (sandbox_of game_env ?e @ t) = None" for t
    using game_nodes(5) [of "''restore_0a1b2c3d'' # t"] by (simp add: box_of fs3_nodes object_at_def)
  from relative_root_empties_world [OF run _ done_at_fields(6) files _ _ fresh]
  have "fs_node (disk e') [''r'', ''world'', ''level.dat''] \<noteq> Some (File b)" for b by (simp add: is_absolute_def)
  moreover have "is_file (disk ?e) [''r'', ''world'', ''level.dat'']"
    by (simp add: is_file_def fs3_nodes object_at_def) (simp add: fs_node_def game_fs_def)
  ultimately show ?thesis using run by (intro exI [of _ ?e] exI [of _ empty_restore] exI [of _ e']) (simp add: empty_restore_def)
qed

end
