(* ===== verification/Sample_Maintain.thy ===== *)
theory Sample_Maintain
  imports Sample_Restore
begin

text \<open>
  The sample server after its backup, further: its signed manifest, a forged one, its pruning and
  verification, and two backups that do not succeed.
\<close>

section \<open>Signed manifests\<close>

theorem committed_manifest_verifies_witness:
  "\<exists>m. fs_read_to_string (disk game_done) (manifest_path game_done game_snap) = Inr m \<and>
     json_parse sample_index_libs (bytes_of m) = Inr game_manifest \<and>
     verify_manifest_signature sample_sign_libs game_done game_snap m = Inr ()"
  using committed_manifest_verifies [OF game_done_run files_storedD(7) [OF game_stored] game_after_placed slash_free,
      where sg = "\<lparr>signing_key = replicate 32 7, signer_key_path = [''k'']\<rparr>"]
  by (auto simp: sample_sign_laws sample_json_laws game_snap_id game_manifest_def game_engine_def)

text \<open>The same server with an empty signature file.\<close>

definition forged :: "sample_db engine" where
  "forged = game_done\<lparr>disk := set_node (snap_dir @ [''snap_0a1b2c3d.sig'']) (File []) fs3\<rparr>"

lemma forged_fields [simp]:
  "server_root forged = [''r'']" "signer forged = Some \<lparr>signing_key = replicate 32 7, signer_key_path = [''k'']\<rparr>"
  by (simp_all add: forged_def done_fields)

lemma forged_disk:
  "fs_node (disk forged) q = (if q = snap_dir @ [''snap_0a1b2c3d.sig''] then Some (File []) else fs_node fs3 q)"
  "faulty (disk forged) = []"
  using fs_node_root [of q fs3] by (auto simp: forged_def frame_simps fs3_nodes(3))

lemma empty_signature: "\<not> verify_signature sample_sign_libs d [] k"
proof -
  have "trim [] = []" by (rule trim_b64) simp
  then show ?thesis by (simp add: verify_signature_def sample_sign_libs_def SIGNATURE_SIZE_def)
qed

lemma forged_manifest:
  "fs_read_to_string (disk forged) (manifest_path forged game_snap) = Inr (postfix game_manifest)"
  "verify_manifest_signature sample_sign_libs forged game_snap m \<noteq> Inr ()"
proof -
  have dir: "snapshot_dir forged = snap_dir" by (simp add: snapshot_dir_path)
  have paths: "manifest_path forged game_snap = snap_dir @ [''snap_0a1b2c3d.json'']" "sig_path forged game_snap = snap_dir @ [''snap_0a1b2c3d.sig'']"
    by (simp_all add: snapshot_paths dir)
  show "fs_read_to_string (disk forged) (manifest_path forged game_snap) = Inr (postfix game_manifest)"
    by (simp add: paths fs_read_to_string_def fs_read_def forged_disk fs3_nodes manifest_bytes_def utf8_postfix codec_simps)
  have sig: "fs_exists (disk forged) (snap_dir @ [''snap_0a1b2c3d.sig''])"
    "fs_read_to_string (disk forged) (snap_dir @ [''snap_0a1b2c3d.sig'']) = Inr []"
    by (simp_all add: fs_exists_def fs_read_to_string_def fs_read_def forged_disk string_of_def)
  show "verify_manifest_signature sample_sign_libs forged game_snap m \<noteq> Inr ()"
    unfolding verify_manifest_signature_def Let_def sig_path_def [symmetric] paths
    by (simp add: sig [simplified] public_key_bytes_def empty_signature)
qed

theorem tampered_restore_refused_witness:
  "\<exists>x e'. restore sample_crates game_env game_snap None None forged = (Inl x, e') \<and>
     fs_read (disk e') [''r'', ''world'', ''level.dat''] = fs_read (disk forged) [''r'', ''world'', ''level.dat'']"
proof -
  obtain r e' where run: "restore sample_crates game_env game_snap None None forged = (r, e')" by fastforce
  from tampered_restore_refused [OF run slash_free _ forged_manifest(1)] show ?thesis
    using forged_manifest(2) run by auto
qed

section \<open>Pruning\<close>

text \<open>The same server with an older snapshot, of which nothing is on disk.\<close>

definition two_snaps :: "sample_db engine" where
  "two_snaps = game_done\<lparr>snapshots := [
     \<lparr>si_id = ''old'', si_timestamp = ''2023'', si_tag = None, si_files_scanned = 0, si_bytes_processed = 0, si_chunks_total = 0, si_chunks_deduped = 0\<rparr>,
     \<lparr>si_id = game_snap, si_timestamp = ''2024'', si_tag = None, si_files_scanned = 2, si_bytes_processed = 4, si_chunks_total = 2, si_chunks_deduped = 0\<rparr>]\<rparr>"

lemma two_snaps_fields [simp]: "index_db two_snaps = index_db game_done" "disk two_snaps = fs3" "server_root two_snaps = [''r'']"
  "map si_id (snapshots two_snaps) = [''old'', game_snap]" "\<forall>s \<in> set (snapshots two_snaps). CHR ''/'' \<notin> set (si_id s)"
  by (simp_all add: two_snaps_def done_disk done_fields)

theorem prune_keeps_witness:
  "\<exists>r e'. prune_snapshots sample_index_libs 1 two_snaps = (r, e') \<and>
     get_snapshot_files sample_index_libs game_snap (index_db e') = Inr [''world/a.mca'', ''world/level.dat''] \<and>
     fs_read (disk e') (manifest_path two_snaps game_snap) = Inr manifest_bytes"
proof -
  obtain r e' where run: "prune_snapshots sample_index_libs 1 two_snaps = (r, e')" by fastforce
  let ?s = "snapshots two_snaps ! 1"
  have s: "si_id ?s = game_snap" "?s \<in> set (snapshots two_snaps)" by (simp_all add: two_snaps_def)
  have new: "filter (\<lambda>t. t \<noteq> ?s \<and> unpinned two_snaps t \<and> newer t ?s) (snapshots two_snaps) = []"
    by (simp add: two_snaps_def newer_def str_le_def)
  have "fs_read fs3 (manifest_path two_snaps game_snap) = Inr manifest_bytes"
    by (simp add: snapshot_paths snapshot_dir_path fs_read_def fs3_nodes)
  moreover have "get_snapshot_files sample_index_libs game_snap (index_db game_done) = Inr [''world/a.mca'', ''world/level.dat'']"
    using game_done_facts(4) by (simp add: snapshot_files_def)
  ultimately show ?thesis
    using prune_keeps [OF run sample_index_ok, of ?s] run s new
    by (auto simp: snapshot_paths_of_def)
qed

theorem prune_recoverable_witness:
  "\<exists>r e'. prune_snapshots sample_index_libs 1 two_snaps = (r, e') \<and>
     recoverable sample_crates e' ''world/a.mca'' [4] \<and> recoverable sample_crates e' ''world/level.dat'' [1, 2, 3]"
proof -
  obtain r e' where run: "prune_snapshots sample_index_libs 1 two_snaps = (r, e')" by fastforce
  have same: "obj_store two_snaps = obj_store game_done" "fs3 = disk game_done" by (simp_all add: two_snaps_def done_disk)
  have inv: "engine_inv sample_crates game_content two_snaps" "placed two_snaps"
    using game_done_facts(1) done_placed by (simp_all add: engine_inv_def placed_def same done_fields)
  have rec: "recoverable sample_crates two_snaps p b = recoverable sample_crates game_done p b" for p b
    unfolding recoverable_def same(1) two_snaps_fields(1,2) done_disk ..
  have "prune_snapshots (cr_index sample_crates) 1 two_snaps = (r, e')" using run by simp
  from prune_recoverable [OF this inv] show ?thesis
    using run game_done_facts(2,3) by (auto simp: rec)
qed

section \<open>Verification\<close>

lemma loose_never_panics:
  assumes "\<And>h. get_object_kind s h \<noteq> Some KSharded"
  shows "\<exists>q'. for_each (verify_chunk X s r) hs q = (Inr (), q')"
proof (induction hs arbitrary: q)
  case (Cons h hs)
  obtain f c where q: "q = (f, c)" by fastforce
  have "\<exists>q1. verify_chunk X s r h q = (Inr (), q1)"
    using assms [of h] by (auto simp: q verify_chunk_def Let_def split: option.split object_kind.split sum.split)
  with Cons show ?case by auto
qed (simp add: returnS_def)

lemma game_done_known: "st_known (abs_index sample_index_libs (index_db game_done)) h \<longleftrightarrow> h = h1 \<or> h = h2"
proof -
  obtain d1 d2 where
    d: "insert_snapshot_files sample_index_libs game_snap (all_file_paths game_tally) db2 = (Inr (), d1)"
    "flush_wal sample_index_libs d1 = (Inr (), d2)" "index_db game_done = d2"
    by (rule commit_backup_steps [OF game_done_run]) (simp add: that)
  have "abs_index sample_index_libs d1 = set_snap game_snap (all_file_paths game_tally) (abs_index sample_index_libs db2)"
    using insert_snapshot_files_refines [OF sample_index_ok, of game_snap "all_file_paths game_tally" db2] d(1)
    by (auto simp: refines_def)
  moreover have "abs_index sample_index_libs d2 = abs_index sample_index_libs d1"
    using flush_wal_refines [OF sample_index_ok, of d1] d(2) by (auto simp: refines_def)
  moreover have "st_known (abs_index sample_index_libs db2) h \<longleftrightarrow> h = h1 \<or> h = h2"
    using game_index(2) [of h] by (simp add: db2_def set_file_def bump_def)
  ultimately show ?thesis
    by (simp add: d(3) set_snap_def)
qed


section \<open>Backups that do not succeed\<close>


text \<open>A server without worlds, whose index cannot be flushed.\<close>

definition stuck_index :: "sample_db index_libs" where
  "stuck_index = sample_index_libs\<lparr>db_flush_wal := (\<lambda>db. (Inl DbError, db))\<rparr>"

theorem failed_backup_stays_running_witness:
  "\<exists>e'. run_backup (sample_crates\<lparr>cr_index := stuck_index\<rparr>) game_env None False (game_engine\<lparr>disk := game_fs\<lparr>entries := []\<rparr>\<rparr>) = Some (Inl DbError, e') \<and>
     state_name (sys e') = ''backing_up'' \<and> running (sys e')"
proof -
  let ?C = "sample_crates\<lparr>cr_index := stuck_index\<rparr>" and ?e = "game_engine\<lparr>disk := game_fs\<lparr>entries := []\<rparr>\<rparr>"
  have "find_world_directories [''r''] (game_fs\<lparr>entries := []\<rparr>) = []" by code_simp
  then have "files_to_back_up ?C False ?e = Some []"
    by (simp add: files_to_back_up_def scan_world_directory_def sort_by_path_def)
  moreover have "\<exists>e'. finish_empty ?C game_env (begun game_env) e0 = (Inl DbError, e')" for e0
    by (simp add: finish_empty_def on_tx_def commit_def flush_wal_def stuck_index_def bindS_def)
  ultimately obtain e' where "run_backup ?C game_env None False ?e = Some (Inl DbError, e')"
    by (auto simp: run_backup_unfold)
  from failed_backup_stays_running [OF this] this show ?thesis by auto
qed

end
