(* ===== verification/Ipc.thy ===== *)
theory Ipc
  imports Remote
begin

text \<open>
  The command server, \<open>sidecar/src/ipc/server.rs\<close>: the check of the token, the session of one
  client, and the handlers behind the operations.

  A session is a function of the lines the client sends, each a line or the error of reading it;
  its result is that of the connection task, the lines written and the engine.  It is \<open>None\<close> when an
  operation does not return, and \<open>Inl Panic\<close> when one panics, which aborts the process.

  The environment \<open>server_env\<close> of a session holds what the handlers meet: the environment of each
  engine call, the network of the synchronisation, the text of an error, the floating-point
  values of a reply, whether debug messages are formatted, and after how many lines the client
  stops reading.
\<close>

record server_env =
  call_env :: "nat \<Rightarrow> env"
  connect_to :: "nat \<Rightarrow> string \<Rightarrow> u64 \<Rightarrow> error + conn"
  err_text :: "error \<Rightarrow> string"
  float_value :: "string \<Rightarrow> json"
  growth_values :: "int \<Rightarrow> u64 \<Rightarrow> u64 \<Rightarrow> u64 \<Rightarrow> json \<times> json \<times> json"
  debug_on :: bool
  reads_lines :: "nat option"

section \<open>The token\<close>

definition verify_token :: "string \<Rightarrow> SidecarConfig \<Rightarrow> bool" where
  "verify_token token cfg =
     (if token = [] then False
      else
        let expected = (case shared_token (security cfg) of Some t \<Rightarrow> t | None \<Rightarrow> ''obsidian-default-token'') in
        if length token \<noteq> length expected then False
        else fold (\<lambda>(a, b) acc. or acc (xor a b)) (zip (bytes_of token) (bytes_of expected)) 0 = 0)"

section \<open>Parameters and replies\<close>

definition p_str :: "json \<Rightarrow> string \<Rightarrow> string option" where
  "p_str params k = (case jget params k of Some v \<Rightarrow> as_str v | None \<Rightarrow> None)"

definition p_str_or :: "json \<Rightarrow> string \<Rightarrow> string \<Rightarrow> string" where
  "p_str_or params k d = (case p_str params k of Some s \<Rightarrow> s | None \<Rightarrow> d)"

definition p_bool_or :: "json \<Rightarrow> string \<Rightarrow> bool \<Rightarrow> bool" where
  "p_bool_or params k d = (case jget params k of
     Some v \<Rightarrow> (case as_bool v of Some b \<Rightarrow> b | None \<Rightarrow> d) | None \<Rightarrow> d)"

definition p_u64_or :: "json \<Rightarrow> string \<Rightarrow> u64 \<Rightarrow> u64" where
  "p_u64_or params k d = (case jget params k of
     Some v \<Rightarrow> (case as_u64 v of Some n \<Rightarrow> n | None \<Rightarrow> d) | None \<Rightarrow> d)"

definition ok_data :: "string \<Rightarrow> json \<Rightarrow> json" where
  "ok_data tx d = JObj [(''data'', d), (''status'', JStr ''ok''), (''tx_id'', JStr tx)]"

definition ok_message :: "string \<Rightarrow> string \<Rightarrow> json" where
  "ok_message tx s = JObj [(''message'', JStr s), (''status'', JStr ''ok''), (''tx_id'', JStr tx)]"

definition error_message :: "json \<Rightarrow> string \<Rightarrow> json" where
  "error_message tx s = JObj [(''message'', JStr s), (''status'', JStr ''error''), (''tx_id'', tx)]"

text \<open>The reply to the result of an engine call; a panic is passed on.\<close>

definition answer :: "server_env \<Rightarrow> string \<Rightarrow> string \<Rightarrow> ('a \<Rightarrow> json) \<Rightarrow> (error + 'a) \<times> 's \<Rightarrow> (error + json) \<times> 's" where
  "answer V tx failed ok = (\<lambda>(r, s). (case r of
       Inr x \<Rightarrow> Inr (ok x)
     | Inl x \<Rightarrow> if x = Panic then Inl Panic else Inr (error_message (JStr tx) (failed @ err_text V x)), s))"

type_synonym 'db handled = "(error + json) \<times> 'db engine"

section \<open>The handlers\<close>

definition handle_backup :: "'db crates \<Rightarrow> server_env \<Rightarrow> env \<Rightarrow> string \<Rightarrow> json \<Rightarrow> 'db engine \<Rightarrow> 'db handled option" where
  "handle_backup C V v tx params e =
     map_option (answer V tx ''Backup failed: '' (\<lambda>r. ok_data tx (JObj
         [(''bytes_processed'', JNum (br_bytes_processed r)), (''chunks_deduped'', JNum (br_chunks_deduped r)),
          (''chunks_new'', JNum (br_chunks_new r)), (''duration_ms'', JNum (br_duration_ms r)),
          (''files_changed'', JNum (br_files_changed r)), (''files_scanned'', JNum (br_files_scanned r)),
          (''files_skipped'', JNum (br_files_skipped r)), (''snapshot_id'', JStr (br_snapshot_id r))])))
       (run_backup C v (p_str params ''tag'') (p_bool_or params ''incremental'' True) e)"

definition handle_export :: "server_env \<Rightarrow> string \<Rightarrow> json \<Rightarrow> 'db engine \<Rightarrow> 'db handled option" where
  "handle_export V tx params e =
     (let path = p_str_or params ''path'' [] in
      map_option (answer V tx ''Export failed: '' (\<lambda>u. ok_data tx (JObj [(''export_path'', JStr path)])))
        (export_snapshot path e))"

definition handle_import :: "'db crates \<Rightarrow> server_env \<Rightarrow> env \<Rightarrow> string \<Rightarrow> json \<Rightarrow> 'db engine \<Rightarrow> 'db handled option" where
  "handle_import C V v tx params e =
     map_option (answer V tx ''Import failed: '' (\<lambda>r. ok_data tx (JObj
         [(''bytes_processed'', JNum (br_bytes_processed r)), (''files_scanned'', JNum (br_files_scanned r)),
          (''snapshot_id'', JStr (br_snapshot_id r))])))
       (import_snapshot C v (p_str_or params ''path'' []) e)"

definition handle_remote_sync ::
  "'db crates \<Rightarrow> sync_libs \<Rightarrow> server_env \<Rightarrow> nat \<Rightarrow> SidecarConfig \<Rightarrow> string \<Rightarrow> json \<Rightarrow> 'db engine \<Rightarrow> 'db handled" where
  "handle_remote_sync C S V n cfg tx params e =
     (let action = p_str_or params ''action'' ''push''; snapshot_id = p_str_or params ''snapshot_id'' [];
          rcfg = remote_sync cfg in
      answer V tx ''Remote sync failed: '' (\<lambda>u. ok_message tx (''Remote sync ('' @ action @ '') complete''))
        (if action = ''push'' then with_peer rcfg (connect_to V n) (push_snapshot C S rcfg snapshot_id) e
         else if action = ''pull'' then with_peer rcfg (connect_to V n) (pull_snapshot C S rcfg snapshot_id) e
         else if action = ''serve'' then (Inr (), e)
         else (Inl (Failure (''unknown remote_sync action: '' @ action)), e)))"

definition json_opt :: "string option \<Rightarrow> json" where
  "json_opt m = (case m of None \<Rightarrow> JNull | Some s \<Rightarrow> JStr s)"

definition handle_status :: "server_env \<Rightarrow> string \<Rightarrow> 'db engine \<Rightarrow> 'db handled" where
  "handle_status V tx e =
     (let st = get_state e in
      (Inr (ok_data tx (JObj
         [(''cpu_percent'', float_value V ''cpu_percent''), (''current_tx'', json_opt (current_tx st)),
          (''disk_iops_read'', float_value V ''disk_iops_read''), (''disk_iops_write'', float_value V ''disk_iops_write''),
          (''memory_mb'', float_value V ''memory_mb''), (''network_upload_mbps'', float_value V ''network_upload_mbps''),
          (''queue_status'', JObj
             [(''chunk'', JNum (chunk_queue st)), (''compress'', JNum (compress_queue st)),
              (''encrypt'', JNum (encrypt_queue st)), (''scanner'', JNum (scanner_queue st)),
              (''upload'', JNum (upload_queue st))]),
          (''running'', JBool (running st)), (''state'', JStr (state_name st)),
          (''storage_stats'', JObj
             [(''dedup_ratio'', float_value V ''dedup_ratio''), (''packfile_count'', JNum (stat_packfile_count st)),
              (''total_size_bytes'', JNum (total_size_bytes st)), (''total_snapshots'', JNum (total_snapshots st))]),
          (''tps'', float_value V ''tps'')])), e))"

definition handle_restore :: "'db crates \<Rightarrow> server_env \<Rightarrow> env \<Rightarrow> string \<Rightarrow> json \<Rightarrow> 'db engine \<Rightarrow> 'db handled" where
  "handle_restore C V v tx params e =
     (let snapshot_id = p_str_or params ''snapshot_id'' ''latest'' in
      answer V tx ''Restore failed: '' (\<lambda>r. ok_data tx (JObj
          [(''bytes_restored'', JNum (rr_bytes_restored r)), (''files_restored'', JNum (rr_files_restored r)),
           (''sandbox_used'', JBool (rr_sandbox_used r)), (''snapshot_id'', JStr snapshot_id)]))
        (restore C v snapshot_id (p_str params ''file_path'') (p_str params ''chunk_coord'') e))"

definition handle_top :: "'db crates \<Rightarrow> server_env \<Rightarrow> string \<Rightarrow> json \<Rightarrow> 'db engine \<Rightarrow> 'db handled" where
  "handle_top C V tx params e =
     answer V tx ''Top analysis failed: '' (\<lambda>files. ok_data tx (JObj
         [(''dedup_ratio'', float_value V ''dedup_ratio''), (''dict_gain'', float_value V ''dict_gain''),
          (''files'', JArr (map (\<lambda>t. JObj [(''path'', JStr (tf_path t)), (''reason'', json_opt (tf_reason t)),
                                        (''size'', JNum (tf_size t))]) files))]))
       (get_top_files (cr_index C) (unat (p_u64_or params ''limit'' 5)) e, e)"

definition handle_diff :: "'db crates \<Rightarrow> server_env \<Rightarrow> string \<Rightarrow> json \<Rightarrow> 'db engine \<Rightarrow> 'db handled" where
  "handle_diff C V tx params e =
     answer V tx ''Diff failed: '' (\<lambda>d. ok_data tx (JObj
         [(''added'', json_strings (df_added d)), (''deleted'', json_strings (df_deleted d)),
          (''modified'', json_strings (df_modified d))]))
       (diff_snapshots (cr_index C) (p_str_or params ''id_a'' []) (p_str_or params ''id_b'' []) e, e)"

definition handle_browse :: "'db crates \<Rightarrow> server_env \<Rightarrow> string \<Rightarrow> json \<Rightarrow> 'db engine \<Rightarrow> 'db handled" where
  "handle_browse C V tx params e =
     (let snapshot_id = p_str_or params ''snapshot_id'' [] in
      answer V tx ''Browse failed: '' (\<lambda>entries. ok_data tx (JObj
          [(''entries'', JArr entries), (''snapshot_id'', JStr snapshot_id)]))
        (browse_snapshot (cr_index C) snapshot_id (p_str params ''path'') e, e))"

definition handle_clone :: "'db crates \<Rightarrow> server_env \<Rightarrow> string \<Rightarrow> json \<Rightarrow> 'db engine \<Rightarrow> 'db handled" where
  "handle_clone C V tx params e =
     (let new_name = p_str_or params ''new_name'' ''clone'' in
      answer V tx ''Clone failed: '' (\<lambda>u. ok_message tx (''World cloned as '' @ [CHR 0x27] @ new_name @ [CHR 0x27]))
        (clone_world C (p_str_or params ''snapshot_id'' []) new_name e))"

definition handle_rollback :: "'db crates \<Rightarrow> server_env \<Rightarrow> env \<Rightarrow> string \<Rightarrow> json \<Rightarrow> 'db engine \<Rightarrow> 'db handled" where
  "handle_rollback C V v tx params e =
     (let duration = p_str_or params ''duration'' ''1m'' in
      answer V tx ''Rollback failed: '' (\<lambda>u. ok_message tx (''Rolled back '' @ duration)) (rollback C v duration e))"

definition handle_verify :: "'db crates \<Rightarrow> server_env \<Rightarrow> string \<Rightarrow> json \<Rightarrow> 'db engine \<Rightarrow> 'db handled" where
  "handle_verify C V tx params e =
     answer V tx ''Verify failed: '' (\<lambda>r. ok_data tx (JObj
         [(''corrupted'', JNum (vr_corrupted r)), (''healthy'', JNum (vr_healthy r)),
          (''repaired'', JNum (vr_repaired r)), (''total_checked'', JNum (vr_total_checked r))]))
       (verify C (p_bool_or params ''repair'' False) e)"

definition handle_pin :: "'db crates \<Rightarrow> server_env \<Rightarrow> env \<Rightarrow> string \<Rightarrow> json \<Rightarrow> 'db engine \<Rightarrow> 'db handled" where
  "handle_pin C V v tx params e =
     (let snapshot_id = p_str_or params ''snapshot_id'' []; days = p_u64_or params ''days'' 30 in
      answer V tx ''Pin failed: ''
        (\<lambda>u. ok_message tx (''Snapshot '' @ snapshot_id @ '' pinned for '' @ show_nat (unat days) @ '' days''))
        (pin_snapshot C v snapshot_id days e))"

definition handle_prune :: "'db crates \<Rightarrow> server_env \<Rightarrow> string \<Rightarrow> json \<Rightarrow> 'db engine \<Rightarrow> 'db handled" where
  "handle_prune C V tx params e =
     (let keep = p_u64_or params ''keep'' 10 in
      answer V tx ''Prune failed: '' (\<lambda>removed. ok_data tx (JObj [(''keep'', JNum keep), (''removed'', JNum removed)]))
        (prune_snapshots (cr_index C) (unat keep) e))"

definition handle_cancel :: "server_env \<Rightarrow> string \<Rightarrow> 'db engine \<Rightarrow> 'db handled" where
  "handle_cancel V tx e =
     answer V tx ''Cancel failed: '' (\<lambda>u. ok_message tx ''Transaction cancelled and rolled back'') (cancel e)"

definition handle_forecast :: "'db crates \<Rightarrow> server_env \<Rightarrow> string \<Rightarrow> 'db engine \<Rightarrow> 'db handled" where
  "handle_forecast C V tx e =
     answer V tx ''Forecast failed: '' (\<lambda>(days, growth, capacity). ok_data tx (JObj
         [(''days_remaining'', days), (''growth_rate_mb_per_day'', growth), (''total_capacity_gb'', capacity)]))
       (forecast C (growth_values V) e, e)"

section \<open>Dispatch\<close>

definition dispatch ::
  "'db crates \<Rightarrow> sync_libs \<Rightarrow> server_env \<Rightarrow> SidecarConfig \<Rightarrow> nat \<Rightarrow> json \<Rightarrow> 'db engine \<Rightarrow> 'db handled option" where
  "dispatch C S V cfg n request e =
     (let tx = p_str_or request ''tx_id'' ''unknown''; v = call_env V n in
      case p_str request ''op'' of
        None \<Rightarrow> Some (Inr (error_message (JStr tx) (''Missing '' @ [CHR 0x27] @ ''op'' @ [CHR 0x27] @ '' field in request'')), e)
      | Some opn \<Rightarrow>
          let params = (case jget request ''params'' of Some p \<Rightarrow> p | None \<Rightarrow> JObj []) in
          if opn = ''backup'' then handle_backup C V v tx params e
          else if opn = ''status'' then Some (handle_status V tx e)
          else if opn = ''restore'' then Some (handle_restore C V v tx params e)
          else if opn = ''top'' then Some (handle_top C V tx params e)
          else if opn = ''diff'' then Some (handle_diff C V tx params e)
          else if opn = ''browse'' then Some (handle_browse C V tx params e)
          else if opn = ''clone'' then Some (handle_clone C V tx params e)
          else if opn = ''rollback'' then Some (handle_rollback C V v tx params e)
          else if opn = ''verify'' then Some (handle_verify C V tx params e)
          else if opn = ''pin'' then Some (handle_pin C V v tx params e)
          else if opn = ''prune'' then Some (handle_prune C V tx params e)
          else if opn = ''cancel'' then Some (handle_cancel V tx e)
          else if opn = ''forecast'' then Some (handle_forecast C V tx e)
          else if opn = ''export'' then handle_export V tx params e
          else if opn = ''import'' then handle_import C V v tx params e
          else if opn = ''remote_sync'' then Some (handle_remote_sync C S V n cfg tx params e)
          else Some (Inr (error_message (JStr tx) (''Unknown operation: '' @ opn)), e))"

section \<open>A session\<close>

text \<open>Writing a line to a client that reads a limited number of them.\<close>

definition write_line :: "server_env \<Rightarrow> string \<Rightarrow> string list \<Rightarrow> (error + unit) \<times> string list" where
  "write_line V s out = (case reads_lines V of
     Some k \<Rightarrow> if length out < k then (Inr (), out @ [s]) else (Inl IoError, out)
   | None \<Rightarrow> (Inr (), out @ [s]))"

definition respond :: "'db index_libs \<Rightarrow> server_env \<Rightarrow> json \<Rightarrow> string list \<Rightarrow> (error + unit) \<times> string list" where
  "respond L V j out = (case json_print L j of Inl x \<Rightarrow> (Inl x, out) | Inr s \<Rightarrow> write_line V s out)"

text \<open>\<open>&line[..line.len().min(200)]\<close> panics unless the cut is at the start of a character; the
  argument of \<open>debug!\<close> is only evaluated when debug messages are on.\<close>

definition log_panics :: "server_env \<Rightarrow> string \<Rightarrow> bool" where
  "log_panics V s = (debug_on V \<and> 200 < length s \<and> 128 \<le> (of_char (s ! 200) :: nat) \<and> (of_char (s ! 200) :: nat) < 192)"

fun serve_lines ::
  "'db crates \<Rightarrow> sync_libs \<Rightarrow> server_env \<Rightarrow> SidecarConfig \<Rightarrow> nat \<Rightarrow> (error + string) list \<Rightarrow> string list \<Rightarrow> 'db engine
     \<Rightarrow> ((error + unit) \<times> string list \<times> 'db engine) option" where
  "serve_lines C S V cfg n [] out e = Some (Inr (), out, e)"
| "serve_lines C S V cfg n (Inl x # ls) out e = Some (Inr (), out, e)"
| "serve_lines C S V cfg n (Inr l # ls) out e =
     (if trim l = [] then serve_lines C S V cfg n ls out e
      else if log_panics V l then Some (Inl Panic, out, e)
      else case (case json_parse (cr_index C) (bytes_of l) of
                   Inl x \<Rightarrow> Some (Inr (error_message JNull (''Invalid JSON: '' @ err_text V x)), e)
                 | Inr request \<Rightarrow> dispatch C S V cfg n request e) of
          None \<Rightarrow> None
        | Some (Inl x, e1) \<Rightarrow> Some (Inl x, out, e1)
        | Some (Inr response, e1) \<Rightarrow>
            (case respond (cr_index C) V response out of
               (Inl x, out1) \<Rightarrow> Some (Inl x, out1, e1)
             | (Inr u, out1) \<Rightarrow> serve_lines C S V cfg (Suc n) ls out1 e1))"

definition authenticated :: "'db index_libs \<Rightarrow> SidecarConfig \<Rightarrow> (error + string) list \<Rightarrow> bool" where
  "authenticated L cfg ls =
     (case ls of
        Inr l # ls' \<Rightarrow>
          (if trim l = [] then False
           else case json_parse L (bytes_of l) of
               Inr req \<Rightarrow>
                 (if p_str req ''op'' = Some ''auth''
                  then verify_token (case jget req ''params'' of Some p \<Rightarrow> p_str_or p ''token'' [] | None \<Rightarrow> []) cfg
                  else False)
             | Inl x \<Rightarrow> False)
      | _ \<Rightarrow> False)"

definition refusal :: json where
  "refusal = error_message JNull ''Authentication failed: invalid or missing token''"

definition greeting :: json where
  "greeting = JObj [(''message'', JStr ''authenticated''), (''status'', JStr ''ok''), (''tx_id'', JNull)]"

definition handle_connection ::
  "'db crates \<Rightarrow> sync_libs \<Rightarrow> server_env \<Rightarrow> SidecarConfig \<Rightarrow> (error + string) list \<Rightarrow> 'db engine
     \<Rightarrow> ((error + unit) \<times> string list \<times> 'db engine) option" where
  "handle_connection C S V cfg ls e =
     (if \<not> authenticated (cr_index C) cfg ls then
        (case respond (cr_index C) V refusal [] of
           (Inl x, out) \<Rightarrow> Some (Inl x, out, e)
         | (Inr u, out) \<Rightarrow> Some (Inl (Failure ''IPC authentication failed''), out, e))
      else
        (case respond (cr_index C) V greeting [] of
           (Inl x, out) \<Rightarrow> Some (Inl x, out, e)
         | (Inr u, out) \<Rightarrow> serve_lines C S V cfg 0 (tl ls) out e))"

end
