(* ===== verification/Cli.thy ===== *)
theory Cli
  imports Ipc
begin

text \<open>
  The command-line client, \<open>client-cli/src/main.rs\<close>: its commands, the request it sends for each, and
  what it prints for the reply.  The parsing of the arguments (clap), the socket and the spinner are
  left out.  Colours, sizes for humans, floating-point numbers and the text of a JSON value are
  parameters, collected in \<open>cli_libs\<close>.  What is printed is the list of lines, each with the stream
  it goes to.
\<close>

datatype command =
    Backup "string option" bool
  | Status
  | Restore string "string option" "string option"
  | Top u64
  | Diff string string
  | Browse string "string option"
  | Clone string string
  | Rollback string
  | Verify bool
  | Pin string u64
  | Forecast
  | Cancel
  | Export string
  | RemoteSync string string
  | Import string
  | Prune u64

definition build_request :: "command \<Rightarrow> string \<times> json" where
  "build_request cmd = (case cmd of
     Backup tag full \<Rightarrow> (''backup'', JObj [(''incremental'', JBool (\<not> full)), (''tag'', json_opt tag)])
   | Status \<Rightarrow> (''status'', JObj [])
   | Restore i f c \<Rightarrow> (''restore'', JObj [(''chunk_coord'', json_opt c), (''file_path'', json_opt f), (''snapshot_id'', JStr i)])
   | Top n \<Rightarrow> (''top'', JObj [(''limit'', JNum n)])
   | Diff a b \<Rightarrow> (''diff'', JObj [(''id_a'', JStr a), (''id_b'', JStr b)])
   | Browse i p \<Rightarrow> (''browse'', JObj [(''path'', json_opt p), (''snapshot_id'', JStr i)])
   | Clone i n \<Rightarrow> (''clone'', JObj [(''new_name'', JStr n), (''snapshot_id'', JStr i)])
   | Rollback d \<Rightarrow> (''rollback'', JObj [(''duration'', JStr d)])
   | Verify r \<Rightarrow> (''verify'', JObj [(''repair'', JBool r)])
   | Pin i d \<Rightarrow> (''pin'', JObj [(''days'', JNum d), (''snapshot_id'', JStr i)])
   | Forecast \<Rightarrow> (''forecast'', JObj [])
   | Cancel \<Rightarrow> (''cancel'', JObj [])
   | Export p \<Rightarrow> (''export'', JObj [(''path'', JStr p)])
   | Import p \<Rightarrow> (''import'', JObj [(''path'', JStr p)])
   | RemoteSync a i \<Rightarrow> (''remote_sync'', JObj [(''action'', JStr a), (''snapshot_id'', JStr i)])
   | Prune k \<Rightarrow> (''prune'', JObj [(''keep'', JNum k)]))"

definition cli_request :: "string \<Rightarrow> command \<Rightarrow> json" where
  "cli_request tx cmd = (let (opn, params) = build_request cmd in
     JObj [(''op'', JStr opn), (''params'', params), (''tx_id'', JStr tx)])"

section \<open>Printing a reply\<close>

record cli_libs =
  paint :: "string \<Rightarrow> string \<Rightarrow> string"
  format_size :: "u64 \<Rightarrow> string"
  fixed :: "nat \<Rightarrow> json \<Rightarrow> string"              \<comment> \<open>a number as \<open>f64\<close> with some decimals\<close>
  seconds :: "u64 \<Rightarrow> string"                   \<comment> \<open>milliseconds as seconds with one decimal\<close>
  json_text :: "json \<Rightarrow> string"
  json_text_pretty :: "json \<Rightarrow> string"

datatype out = Stdout string | Stderr string

definition bars :: string where "bars = string_of (concat (replicate 3 [226, 148, 128]))"
definition check_mark :: string where "check_mark = string_of [226, 156, 147]"
definition disc :: string where "disc = string_of [226, 151, 143]"
definition circle :: string where "circle = string_of [226, 151, 139]"
definition warning_sign :: string where "warning_sign = string_of [226, 154, 160]"

text \<open>\<open>v.get(k).and_then(|v| v.as_f64()).unwrap_or(0.0)\<close>.\<close>

definition p_f64 :: "json \<Rightarrow> string \<Rightarrow> json" where
  "p_f64 j k = (case jget j k of Some (JNum n) \<Rightarrow> JNum n | Some (JFloat s) \<Rightarrow> JFloat s | _ \<Rightarrow> JFloat ''0.0'')"

definition p_len :: "json \<Rightarrow> string \<Rightarrow> nat" where
  "p_len j k = (case jget j k of Some (JArr js) \<Rightarrow> length js | _ \<Rightarrow> 0)"

text \<open>\<open>v[k]\<close>: a member that is missing is null.\<close>

definition at :: "json \<Rightarrow> string \<Rightarrow> json" where
  "at j k = (case jget j k of Some v \<Rightarrow> v | None \<Rightarrow> JNull)"

definition num :: "u64 \<Rightarrow> string" where
  "num n = show_nat (unat n)"

definition show_status :: "cli_libs \<Rightarrow> json \<Rightarrow> out list" where
  "show_status U d =
     (let q = at d ''queue_status''; t = \<lambda>k. json_text U (at q k) in
      [Stdout (paint U ''yellow bold'' (bars @ '' Obsidian Sidecar Status '' @ bars)),
       Stdout (''  State: '' @ (if p_bool_or d ''running'' False then paint U ''green'' disc else paint U ''dimmed'' circle) @ '' '' @
               paint U ''bold'' (p_str_or d ''state'' ''unknown'')),
       Stdout (''  TPS: '' @ fixed U 2 (p_f64 d ''tps'') @ ''  |  CPU: '' @ fixed U 1 (p_f64 d ''cpu_percent'') @ ''%''),
       Stdout (''  Queue: scanner='' @ t ''scanner'' @ '' chunk='' @ t ''chunk'' @ '' compress='' @ t ''compress'' @
               '' encrypt='' @ t ''encrypt'' @ '' upload='' @ t ''upload'')] @
      (case jget d ''storage_stats'' of
         Some st \<Rightarrow> [Stdout (''  Snapshots: '' @ num (p_u64_or st ''total_snapshots'' 0) @ ''  |  Size: '' @
            format_size U (p_u64_or st ''total_size_bytes'' 0) @ ''  |  Dedup: '' @ fixed U 1 (p_f64 st ''dedup_ratio'') @ ''%'')]
       | None \<Rightarrow> []))"

definition show_backup :: "cli_libs \<Rightarrow> json \<Rightarrow> out list" where
  "show_backup U d =
     [Stdout (paint U ''green bold'' check_mark @ '' Backup complete!''),
      Stdout (''  Snapshot: '' @ paint U ''bold'' (p_str_or d ''snapshot_id'' ''-'')),
      Stdout (''  Files: '' @ num (p_u64_or d ''files_scanned'' 0) @ ''  |  Size: '' @ format_size U (p_u64_or d ''bytes_processed'' 0)),
      Stdout (''  Chunks: '' @ num (p_u64_or d ''chunks_new'' 0) @ '' new + '' @ num (p_u64_or d ''chunks_deduped'' 0) @ '' deduped''),
      Stdout (''  Duration: '' @ seconds U (p_u64_or d ''duration_ms'' 0) @ ''s'')]"

definition show_restore :: "cli_libs \<Rightarrow> json option \<Rightarrow> out list" where
  "show_restore U d =
     Stdout (paint U ''green bold'' check_mark @ '' Restore complete!'') #
     (case d of
        Some j \<Rightarrow> [Stdout (''  Files: '' @ num (p_u64_or j ''files_restored'' 0) @ ''  |  Size: '' @
                           format_size U (p_u64_or j ''bytes_restored'' 0))]
      | None \<Rightarrow> [])"

fun show_top_files :: "cli_libs \<Rightarrow> nat \<Rightarrow> json list \<Rightarrow> out list" where
  "show_top_files U i [] = []"
| "show_top_files U i (j # js) =
     Stdout (''  '' @ show_nat (i + 1) @ ''. '' @ p_str_or j ''path'' ''-'' @ '' ['' @ format_size U (p_u64_or j ''size'' 0) @ ''] '' @
        (case p_str j ''reason'' of Some r \<Rightarrow> ''('' @ r @ '')'' | None \<Rightarrow> [])) # show_top_files U (Suc i) js"

definition show_top :: "cli_libs \<Rightarrow> json \<Rightarrow> out list" where
  "show_top U d =
     Stdout (paint U ''purple bold'' bars @ '' Storage Top Files (Dedup: '' @ fixed U 1 (p_f64 d ''dedup_ratio'') @ ''%)'') #
     (case jget d ''files'' of Some (JArr js) \<Rightarrow> show_top_files U 0 js | _ \<Rightarrow> [])"

definition show_diff :: "cli_libs \<Rightarrow> json \<Rightarrow> out list" where
  "show_diff U d =
     [Stdout (paint U ''yellow bold'' bars @ '' Snapshot Diff:''),
      Stdout (''  + '' @ show_nat (p_len d ''added'') @ '' added  |  * '' @ show_nat (p_len d ''modified'') @
              '' modified  |  - '' @ show_nat (p_len d ''deleted'') @ '' deleted'')]"

definition show_verify :: "cli_libs \<Rightarrow> json \<Rightarrow> out list" where
  "show_verify U d =
     (let bad = p_u64_or d ''corrupted'' 0 in
      [Stdout (paint U ''purple bold'' bars @ '' Verify Complete:''),
       Stdout (''  Total: '' @ num (p_u64_or d ''total_checked'' 0) @ ''  |  Healthy: '' @ num (p_u64_or d ''healthy'' 0) @
               ''  |  Corrupted: '' @ num bad @ ''  |  Repaired: '' @ num (p_u64_or d ''repaired'' 0))] @
      (if 0 < bad then [Stdout (''  '' @ paint U ''yellow'' warning_sign @ '' '' @ num bad @ '' corrupted snapshots detected!'')]
       else []))"

definition show_forecast :: "cli_libs \<Rightarrow> json \<Rightarrow> out list" where
  "show_forecast U d =
     [Stdout (paint U ''cyan bold'' bars @ '' Storage Forecast:''),
      Stdout (''  Capacity: '' @ fixed U 1 (p_f64 d ''total_capacity_gb'') @ '' GB  |  Growth: '' @
              fixed U 1 (p_f64 d ''growth_rate_mb_per_day'') @ '' MB/day  |  Remaining: '' @
              fixed U 1 (p_f64 d ''days_remaining'') @ '' days'')]"

definition show_prune :: "cli_libs \<Rightarrow> json \<Rightarrow> out list" where
  "show_prune U d =
     [Stdout (paint U ''green bold'' check_mark @ '' Pruned '' @ num (p_u64_or d ''removed'' 0) @ '' snapshots (kept '' @
              num (p_u64_or d ''keep'' 0) @ '')'')]"

definition if_data :: "json option \<Rightarrow> (json \<Rightarrow> out list) \<Rightarrow> out list" where
  "if_data d f = (case d of Some j \<Rightarrow> f j | None \<Rightarrow> [])"

definition display_response :: "cli_libs \<Rightarrow> command \<Rightarrow> json \<Rightarrow> out list" where
  "display_response U cmd response =
     (let status = p_str_or response ''status'' ''error''; message = p_str response ''message''; d = jget response ''data'' in
      if status = ''error'' then
        [Stderr (paint U ''red bold'' ''Error:'' @ '' '' @ (case message of Some s \<Rightarrow> s | None \<Rightarrow> ''Unknown error''))]
      else case cmd of
          Status \<Rightarrow> if_data d (show_status U)
        | Backup t f \<Rightarrow> if_data d (show_backup U)
        | Restore i f c \<Rightarrow> show_restore U d
        | Top n \<Rightarrow> if_data d (show_top U)
        | Diff a b \<Rightarrow> if_data d (show_diff U)
        | Verify r \<Rightarrow> if_data d (show_verify U)
        | Forecast \<Rightarrow> if_data d (show_forecast U)
        | Prune k \<Rightarrow> if_data d (show_prune U)
        | _ \<Rightarrow> [Stdout (case message of Some s \<Rightarrow> paint U ''green'' check_mark @ '' '' @ s | None \<Rightarrow> json_text_pretty U response)])"

section \<open>One run of the client\<close>

text \<open>The line it sends, and from the line it then reads (a time-out or an I/O error is an error, the
  end of the connection is \<open>None\<close>) its result and what it prints.\<close>

definition cli_line :: "'db index_libs \<Rightarrow> string \<Rightarrow> command \<Rightarrow> error + string" where
  "cli_line L tx cmd = json_print L (cli_request tx cmd)"

definition cli_finish :: "'db index_libs \<Rightarrow> cli_libs \<Rightarrow> command \<Rightarrow> error + string option \<Rightarrow> (error + unit) \<times> out list" where
  "cli_finish L U cmd reply = (case reply of
     Inl x \<Rightarrow> (Inl x, [])
   | Inr None \<Rightarrow> (Inl (Failure ''Sidecar did not respond''), [Stderr (paint U ''red bold'' ''Error:'' @ '' No response from Sidecar'')])
   | Inr (Some l) \<Rightarrow> (case json_parse L (bytes_of l) of
       Inl x \<Rightarrow> (Inl x, [])
     | Inr response \<Rightarrow> (Inr (), display_response U cmd response)))"

section \<open>Client and server\<close>

lemma build_request_op: "fst (build_request cmd) \<noteq> ''auth''"
  by (cases cmd) (simp_all add: build_request_def)

lemma json_opt_wf [simp]: "json_wf (json_opt m)"
  by (simp add: json_opt_def split: option.splits)

lemma build_request_wf: "json_wf (snd (build_request cmd))"
  by (cases cmd) (simp_all add: build_request_def)

lemma cli_request_wf: "json_wf (cli_request tx cmd)"
  using build_request_wf [of cmd] by (cases "build_request cmd") (simp add: cli_request_def)

lemma p_str_simps [simp]: "p_str (JObj kvs) k = (case map_of kvs k of Some v \<Rightarrow> as_str v | None \<Rightarrow> None)"
  by (simp add: p_str_def jget_def)

lemma as_str_simps [simp]: "as_str (JStr s) = Some s" "as_str (json_opt m) = m" "as_str JNull = None"
  by (simp_all add: as_str_def json_opt_def split: option.splits)

end
