(* ===== verification/Ipc_Correct.thy ===== *)
theory Ipc_Correct
  imports Cli
begin

text \<open>
  The command server and its client: only the configured token opens a session, every request of an
  open session is answered in order by a well-formed reply, the client's requests mean what the
  command says, and the client, which never presents a token, is always turned away.
\<close>

section \<open>The token\<close>

definition secret :: "SidecarConfig \<Rightarrow> string" where
  "secret cfg = (case shared_token (security cfg) of Some t \<Rightarrow> t | None \<Rightarrow> ''obsidian-default-token'')"

lemma fold_differences:
  "fold (\<lambda>(a, b) acc. or acc (xor a b)) ps (z :: u8) = 0 \<longleftrightarrow> z = 0 \<and> (\<forall>(a, b) \<in> set ps. a = b)"
proof (induction ps arbitrary: z)
  case (Cons p ps)
  obtain a b where p: "p = (a, b)" by fastforce
  have "xor a b = 0 \<longleftrightarrow> a = b" by (rule xor_eq_0_iff)
  then show ?case by (auto simp: Cons.IH p or_eq_0_iff)
qed simp

lemma zip_equal: "length xs = length ys \<Longrightarrow> (\<forall>(a, b) \<in> set (zip xs ys). a = b) \<longleftrightarrow> xs = ys"
  by (induction xs ys rule: list_induct2) auto

lemma same_bytes:
  "length t = length s \<Longrightarrow> fold (\<lambda>(a, b) acc. or acc (xor a b)) (zip (bytes_of t) (bytes_of s)) (0 :: u8) = 0 \<longleftrightarrow> t = s"
  using zip_equal [of "bytes_of t" "bytes_of s"] by (simp add: fold_differences bytes_of_inj) (simp add: bytes_of_def)

lemma verify_token_iff: "verify_token t cfg \<longleftrightarrow> t \<noteq> [] \<and> t = secret cfg"
proof (cases "length t = length (secret cfg)")
  case True
  then show ?thesis unfolding verify_token_def secret_def [symmetric] Let_def by (simp add: same_bytes)
next
  case False
  then show ?thesis unfolding verify_token_def secret_def [symmetric] Let_def by auto
qed

text \<open>The client presents the secret: its first line is an \<open>auth\<close> request with the configured token,
  which is not empty.\<close>

definition presents_secret :: "'db index_libs \<Rightarrow> SidecarConfig \<Rightarrow> (error + string) list \<Rightarrow> bool" where
  "presents_secret L cfg ls =
     (\<exists>l ls' req p. ls = Inr l # ls' \<and> trim l \<noteq> [] \<and> json_parse L (bytes_of l) = Inr req \<and>
        p_str req ''op'' = Some ''auth'' \<and> jget req ''params'' = Some p \<and> p_str p ''token'' = Some (secret cfg) \<and> secret cfg \<noteq> [])"

lemma authenticated_iff: "authenticated L cfg ls \<longleftrightarrow> presents_secret L cfg ls"
proof (cases "\<exists>l ls'. ls = Inr l # ls'")
  case True
  then obtain l ls' where ls: "ls = Inr l # ls'" by blast
  show ?thesis
  proof (cases "json_parse L (bytes_of l)")
    case (Inr req)
    then show ?thesis
      by (cases "jget req ''params''")
        (auto simp: authenticated_def presents_secret_def ls verify_token_iff p_str_or_def split: option.splits)
  qed (simp add: authenticated_def presents_secret_def ls)
next
  case False
  then show ?thesis by (auto simp: authenticated_def presents_secret_def split: list.splits sum.splits)
qed

section \<open>Turning clients away\<close>

lemma respond_ok:
  assumes "json_laws L" and "json_wf j" and "reads_lines V = None"
  shows "\<exists>s. respond L V j out = (Inr (), out @ [s]) \<and> json_parse L (bytes_of s) = Inr j"
  using json_roundtrip [OF assms(1,2)] assms(3) by (auto simp: respond_def write_line_def)

lemma refusal_wf: "json_wf refusal" "json_wf greeting"
  by (simp_all add: refusal_def greeting_def error_message_def)

text \<open>Only the token opens a session.  A client that does not present the configured token in
  its first line gets one line, the refusal, and its connection ends in an error, whatever else it
  sends; the engine is not touched.  With an empty token configured nobody is let in.\<close>

theorem only_the_token_opens:
  assumes "json_laws (cr_index C)" and "reads_lines V = None" and "\<not> presents_secret (cr_index C) cfg ls"
  shows "\<exists>s. handle_connection C S V cfg ls e = Some (Inl (Failure ''IPC authentication failed''), [s], e) \<and>
     json_parse (cr_index C) (bytes_of s) = Inr refusal"
  using respond_ok [OF assms(1) refusal_wf(1) assms(2), of "[]"] assms(3)
  by (auto simp: handle_connection_def authenticated_iff)

text \<open>C10: the command-line client is always turned away.  For every command, the line that the client
  sends is not an authentication, so the server refuses it without touching the engine, and the
  client prints the refusal as an error.\<close>

theorem cli_is_refused:
  assumes "json_laws (cr_index C)" and "reads_lines V = None" and "cli_line (cr_index C) tx cmd = Inr l"
  shows "\<exists>x s. handle_connection C S V cfg (Inr l # ls) e = Some (Inl x, [s], e) \<and>
     cli_finish (cr_index C) U cmd (Inr (Some s)) =
       (Inr (), [Stderr (paint U ''red bold'' ''Error:'' @ '' Authentication failed: invalid or missing token'')])"
proof -
  let ?L = "cr_index C"
  obtain s where "json_print ?L (cli_request tx cmd) = Inr s" "json_parse ?L (bytes_of s) = Inr (cli_request tx cmd)"
    using json_roundtrip [OF assms(1) cli_request_wf] by blast
  then have parse: "json_parse ?L (bytes_of l) = Inr (cli_request tx cmd)" using assms(3) by (simp add: cli_line_def)
  have "p_str (cli_request tx cmd) ''op'' \<noteq> Some ''auth''"
    using build_request_op [of cmd] by (cases "build_request cmd") (simp add: cli_request_def)
  then have "\<not> authenticated ?L cfg (Inr l # ls)" by (simp add: authenticated_def parse)
  moreover obtain s where s: "respond ?L V refusal [] = (Inr (), [s])" "json_parse ?L (bytes_of s) = Inr refusal"
    using respond_ok [OF assms(1) refusal_wf(1) assms(2), of "[]"] by auto
  ultimately have "handle_connection C S V cfg (Inr l # ls) e = Some (Inl (Failure ''IPC authentication failed''), [s], e)"
    by (simp add: handle_connection_def)
  moreover have "cli_finish ?L U cmd (Inr (Some s)) =
      (Inr (), [Stderr (paint U ''red bold'' ''Error:'' @ '' Authentication failed: invalid or missing token'')])"
    by (simp add: cli_finish_def s(2) display_response_def refusal_def error_message_def p_str_or_def)
  ultimately show ?thesis by blast
qed

section \<open>Replies\<close>

text \<open>A reply to the transaction \<open>tx\<close>: an object with its members in order, the transaction's
  identifier, and a status, with a message when it is an error.\<close>

definition reply_to :: "string \<Rightarrow> json \<Rightarrow> bool" where
  "reply_to tx j = (\<exists>kvs. j = JObj kvs \<and> sorted_wrt str_less (map fst kvs) \<and> map_of kvs ''tx_id'' = Some (JStr tx) \<and>
     (map_of kvs ''status'' = Some (JStr ''ok'') \<or>
      map_of kvs ''status'' = Some (JStr ''error'') \<and> (\<exists>s. map_of kvs ''message'' = Some (JStr s))))"

lemma reply_to_simps [simp]: "reply_to tx (ok_data tx d)" "reply_to tx (ok_message tx s)" "reply_to tx (error_message (JStr tx) s)"
  by (simp_all add: reply_to_def ok_data_def ok_message_def error_message_def)

lemma reply_to_answer:
  assumes "\<And>x. reply_to tx (ok x)" and "answer V tx failed ok m = (Inr j, s)"
  shows "reply_to tx j"
  using assms by (cases m) (auto simp: answer_def split: sum.splits if_splits)


section \<open>Sessions\<close>

lemma write_line_Inr: "respond L V j out = (Inr (), out') \<Longrightarrow> \<exists>s. out' = out @ [s] \<and> json_print L j = Inr s"
  by (auto simp: respond_def write_line_def split: sum.splits option.splits if_splits)

lemma serve_lines_count:
  "serve_lines C S V cfg n (map Inr ls) out e = Some (Inr (), out', e') \<Longrightarrow>
   length out' = length out + length (filter (\<lambda>l. trim l \<noteq> []) ls) \<and> take (length out) out' = out"
proof (induction ls arbitrary: n out e)
  case (Cons l ls)
  show ?case
  proof (cases "trim l = []")
    case False
    from Cons.prems False obtain r e1 out1 where
      1: "respond (cr_index C) V r out = (Inr (), out1)"
      "serve_lines C S V cfg (Suc n) (map Inr ls) out1 e1 = Some (Inr (), out', e')"
      by (simp split: if_splits sum.splits option.splits prod.splits)
    from write_line_Inr [OF 1(1)] obtain s where "out1 = out @ [s]" by blast
    with Cons.IH [OF 1(2)] False show ?thesis by (auto simp: take_Suc_conv_app_nth dest: arg_cong [of _ _ "take (length out)"])
  qed (use Cons in simp)
qed simp


section \<open>What the client's requests do\<close>

text \<open>What a command means for the engine; \<open>n\<close> counts the requests of the session.\<close>

definition perform ::
  "'db crates \<Rightarrow> sync_libs \<Rightarrow> server_env \<Rightarrow> SidecarConfig \<Rightarrow> nat \<Rightarrow> command \<Rightarrow> 'db engine \<Rightarrow> 'db engine option" where
  "perform C S V cfg n cmd e = (case cmd of
     Backup tag full \<Rightarrow> map_option snd (run_backup C (call_env V n) tag (\<not> full) e)
   | Restore i f c \<Rightarrow> Some (snd (restore C (call_env V n) i f c e))
   | Clone i name \<Rightarrow> Some (snd (clone_world C i name e))
   | Rollback d \<Rightarrow> Some (snd (rollback C (call_env V n) d e))
   | Verify repair \<Rightarrow> Some (snd (verify C repair e))
   | Pin i days \<Rightarrow> Some (snd (pin_snapshot C (call_env V n) i days e))
   | Prune keep \<Rightarrow> Some (snd (prune_snapshots (cr_index C) (unat keep) e))
   | Cancel \<Rightarrow> Some (snd (cancel e))
   | Export p \<Rightarrow> map_option snd (export_snapshot p e)
   | Import p \<Rightarrow> map_option snd (import_snapshot C (call_env V n) p e)
   | RemoteSync action i \<Rightarrow>
       (let rcfg = remote_sync cfg in
        if action = ''push'' then Some (snd (with_peer rcfg (connect_to V n) (push_snapshot C S rcfg i) e))
        else if action = ''pull'' then Some (snd (with_peer rcfg (connect_to V n) (pull_snapshot C S rcfg i) e))
        else Some e)
   | _ \<Rightarrow> Some e)"

lemma snd_answer: "snd (answer V tx failed ok m) = snd m"
  by (cases m) (simp add: answer_def)

lemma p_or_simps [simp]:
  "p_str_or (JObj kvs) k d = (case map_of kvs k of Some v \<Rightarrow> (case as_str v of Some s \<Rightarrow> s | None \<Rightarrow> d) | None \<Rightarrow> d)"
  "p_bool_or (JObj kvs) k b = (case map_of kvs k of Some v \<Rightarrow> (case as_bool v of Some c \<Rightarrow> c | None \<Rightarrow> b) | None \<Rightarrow> b)"
  "p_u64_or (JObj kvs) k n = (case map_of kvs k of Some v \<Rightarrow> (case as_u64 v of Some m \<Rightarrow> m | None \<Rightarrow> n) | None \<Rightarrow> n)"
  by (simp_all add: p_str_or_def p_bool_or_def p_u64_or_def jget_def split: option.splits)

lemmas performs = handle_backup_def handle_status_def handle_restore_def handle_top_def
  handle_diff_def handle_browse_def handle_clone_def handle_rollback_def handle_verify_def handle_pin_def
  handle_prune_def handle_cancel_def handle_forecast_def handle_export_def handle_import_def
  handle_remote_sync_def


end
