(* ===== verification/Sample_Ipc.thy ===== *)
theory Sample_Ipc
  imports Ipc_Correct Sample_Sync
begin

text \<open>
  Sessions of the command server of \<open>Sample_Run\<close> for the witnesses of \<open>Ipc_Correct\<close>.  Lines are
  JSON in the postfix form of \<open>Sample_Db\<close>, which holds no white space.
\<close>

section \<open>Lines\<close>

lemma b64_halves: "list_all b64_char (halves s)"
proof (induction s)
  case (Cons c s)
  have "b64_char (half n)" if "n < 16" for n
    using that half_value [OF that] by (simp add: b64_char_def)
  with char_halves [of c] Cons show ?case by (simp add: halves_def)
qed (simp add: halves_def)

lemma b64_concat: "(\<And>s. s \<in> set ss \<Longrightarrow> list_all b64_char s) \<Longrightarrow> list_all b64_char (concat ss)"
  by (induction ss) auto

lemma b64_marks [simp]: "list_all b64_char ''ntfdeskabo''" "b64_char (CHR ''n'')" "b64_char (CHR ''t'')"
  "b64_char (CHR ''f'')" "b64_char (CHR ''d'')" "b64_char (CHR ''e'')" "b64_char (CHR ''s'')" "b64_char (CHR ''k'')"
  "b64_char (CHR ''a'')" "b64_char (CHR ''b'')" "b64_char (CHR ''o'')"
  by (simp_all add: b64_char_def)

lemma b64_postfix: "list_all b64_char (postfix j)"
proof (induction j)
  case (JArr js)
  have "list_all b64_char (concat (map postfix js))" by (rule b64_concat) (use JArr in auto)
  then show ?case by simp
next
  case (JObj kvs)
  have "list_all b64_char (concat (map (\<lambda>(k, v). halves k @ ''k'' @ postfix v) kvs))"
    by (rule b64_concat) (use JObj b64_halves in \<open>auto split: prod.splits\<close>)
  then show ?case by simp
qed (simp_all add: b64_halves)

lemma postfix_not_blank [simp]: "trim (postfix j) \<noteq> []"
  unfolding trim_b64 [OF b64_postfix] by (cases j) simp_all

lemma blank [simp]: "trim '' '' = []"
  by code_simp

lemma parse_postfix [simp]: "json_parse sample_index_libs (bytes_of (postfix j)) = Inr j"
  by (simp add: sample_index_libs_def sample_parse_postfix)

lemma print_postfix [simp]: "json_print sample_index_libs j = Inr (postfix j)"
  by (simp add: sample_index_libs_def)

declare postfix.simps [simp del]

section \<open>A server and its clients\<close>

definition sample_server :: server_env where
  "sample_server = \<lparr>call_env = (\<lambda>n. game_env), connect_to = (\<lambda>n p t. Inl IoError), err_text = (\<lambda>x. ''error''),
     float_value = JFloat, growth_values = (\<lambda>h a b c. (JNum a, JNum b, JNum c)), debug_on = False, reads_lines = None\<rparr>"

definition token_config :: SidecarConfig where
  "token_config = SidecarConfig_default\<lparr>security := SecurityConfig_default\<lparr>shared_token := Some ''secret''\<rparr>\<rparr>"

definition auth_line :: "string \<Rightarrow> string" where
  "auth_line t = postfix (JObj [(''op'', JStr ''auth''), (''params'', JObj [(''token'', JStr t)])])"

definition sample_libs_cli :: cli_libs where
  "sample_libs_cli = \<lparr>paint = (\<lambda>c s. s), format_size = num, fixed = (\<lambda>n j. postfix j), seconds = num,
     json_text = postfix, json_text_pretty = postfix\<rparr>"

lemma server_simps [simp]: "reads_lines sample_server = None" "debug_on sample_server = False"
  "err_text sample_server x = ''error''" "secret token_config = ''secret''"
  by (simp_all add: sample_server_def token_config_def secret_def)

lemma presents_auth: "presents_secret sample_index_libs token_config (Inr (auth_line t) # ls) \<longleftrightarrow> t = ''secret''"
  by (auto simp: presents_secret_def auth_line_def jget_def)

section \<open>Witnesses\<close>

theorem only_the_token_opens_witness:
  "\<exists>s. handle_connection sample_crates sample_sync sample_server token_config
      [Inr (auth_line ''guess''), Inr (postfix (cli_request ''t1'' (Prune 0)))] game_engine =
    Some (Inl (Failure ''IPC authentication failed''), [s], game_engine)"
proof -
  have "json_laws (cr_index sample_crates)" by (simp add: sample_json_laws)
  from only_the_token_opens [OF this, of sample_server token_config
      "[Inr (auth_line ''guess''), Inr (postfix (cli_request ''t1'' (Prune 0)))]" sample_sync game_engine]
  show ?thesis by (auto simp: presents_auth)
qed

theorem cli_is_refused_witness:
  "\<exists>x s. handle_connection sample_crates sample_sync sample_server token_config [Inr (postfix (cli_request ''t1'' (Prune 0)))] game_engine =
     Some (Inl x, [s], game_engine) \<and>
   cli_finish sample_index_libs sample_libs_cli (Prune 0) (Inr (Some s)) =
     (Inr (), [Stderr ''Error: Authentication failed: invalid or missing token''])"
proof -
  have "json_laws (cr_index sample_crates)" by (simp add: sample_json_laws)
  from cli_is_refused [OF this, of sample_server "''t1''" "Prune 0" "postfix (cli_request ''t1'' (Prune 0))" sample_sync
      token_config "[]" game_engine sample_libs_cli]
  show ?thesis by (simp add: cli_line_def sample_libs_cli_def)
qed

lemma cancel_refused:
  "dispatch sample_crates sample_sync sample_server token_config n (cli_request ''t1'' Cancel) game_engine =
     Some (Inr (error_message (JStr ''t1'') ''Cancel failed: error''), game_engine)"
  by (simp add: cli_request_def build_request_def dispatch_def jget_def handle_cancel_def cancel_def answer_def game_engine_def)



end
