(* ===== verification/Startup.thy ===== *)
theory Startup
  imports Cli
begin

text \<open>
  The process of the sidecar, \<open>sidecar/src/main.rs\<close>, with the loop of the command server
  (\<open>IpcServer::run\<close>) and the names of its endpoint, \<open>sidecar/src/ipc/transport.rs\<close> and
  \<open>client-cli/src/main.rs\<close>.  Logging, the parsing of the arguments, sockets and pipes are left out:
  the clients and peers that connect are the events a daemon handles, one after the other.
\<close>

section \<open>Opening the parts\<close>

record args =
  config_path :: path
  socket_path :: path
  args_root :: path              \<comment> \<open>\<open>server_root\<close>\<close>
  oneshot :: bool
  args_tag :: "string option"    \<comment> \<open>\<open>tag\<close>\<close>

text \<open>\<open>DB::open_cf_descriptors\<close> is the parameter \<open>open_cf\<close>; its options are left out.\<close>

definition BlockIndex_open :: "(path \<Rightarrow> string list \<Rightarrow> error + 'db) \<Rightarrow> path \<Rightarrow> error + 'db" where
  "BlockIndex_open open_cf p = open_cf p [CF_FILE_CHUNKS, CF_CHUNK_REFS, CF_CHUNK_META, CF_SNAPSHOT, CF_FILE_META]"

text \<open>What the process runs on: the crates, the YAML parser, the database, a fresh key, and the times of
  the files.\<close>

record ('db, 'y) platform =
  pl_crates :: "'db crates"
  pl_yaml :: "'y yaml_libs"
  pl_open :: "path \<Rightarrow> string list \<Rightarrow> error + 'db"
  pl_key :: bytes
  pl_mtimes :: "path \<Rightarrow> u64"

text \<open>\<open>engine.load_snapshots().await?\<close> on the engine that \<open>BackupEngine::new\<close> returns.\<close>

definition with_snapshots :: "'db index_libs \<Rightarrow> 'db engine \<Rightarrow> (error + 'db engine) \<times> fs" where
  "with_snapshots L e = (case load_snapshots L e of
     (Inl x, e') \<Rightarrow> (Inl x, disk e') | (Inr u, e') \<Rightarrow> (Inr e', disk e'))"

definition start_engine :: "('db, 'y) platform \<Rightarrow> args \<Rightarrow> (fs, 'db engine) step" where
  "start_engine P a =
     bindS (\<lambda>f. (SidecarConfig_load (pl_yaml P) f (config_path a), f)) (\<lambda>cfg.
     bindS (create_dir_all (child (args_root a) ''.obsidian/store'')) (\<lambda>_.
     bindS (create_dir_all (child (args_root a) ''.obsidian/rocksdb'')) (\<lambda>_.
     bindS (liftS (BlockIndex_open (pl_open P) (child (args_root a) ''.obsidian/rocksdb''))) (\<lambda>db.
     bindS (ObjectStore_new (child (args_root a) ''.obsidian/store'') (erasure_on (erasure_coding (storage cfg)))
              (pack_limit_mb (packfile (storage cfg)))) (\<lambda>store f.
     with_snapshots (cr_index (pl_crates P))
       (BackupEngine_new (cr_sign (pl_crates P)) (pl_key P) (args_root a) db store cfg f (pl_mtimes P)))))))"

section \<open>The daemon\<close>

text \<open>A stale socket is removed and its directory made; then \<open>IpcListener::bind\<close> removes a socket
  once more, without regard to errors, and binds, which is the parameter \<open>bind\<close>.\<close>

definition prepare_socket :: "path \<Rightarrow> (fs, unit) step" where
  "prepare_socket p =
     bindS (\<lambda>f. if fs_exists f p then remove_file p f else (Inr (), f)) (\<lambda>_.
     if p = [] \<or> p = [''/''] then returnS () else create_dir_all (parent p))"

definition bind_socket :: "(path \<Rightarrow> error + unit) \<Rightarrow> path \<Rightarrow> (fs, unit) step" where
  "bind_socket bind p = bindS (ignore_errors (remove_file p)) (\<lambda>_. liftS (bind p))"

text \<open>What happens to a daemon: a client of the command server connects and sends lines, a peer of the
  synchronisation connects, or accepting a client fails, which ends the server.\<close>

datatype event = Client "(error + string) list" | Peer conn | AcceptFails

definition listens :: "SidecarConfig \<Rightarrow> bool" where
  "listens cfg = (sync_enabled (remote_sync cfg) \<and> listen_addr (remote_sync cfg) \<noteq> None)"

fun daemon :: "'db crates \<Rightarrow> sync_libs \<Rightarrow> server_env \<Rightarrow> SidecarConfig \<Rightarrow> event list \<Rightarrow> 'db engine \<Rightarrow> 'db engine option" where
  "daemon C S V cfg [] e = Some e"
| "daemon C S V cfg (Client ls # evs) e =
     (case handle_connection C S V cfg ls e of
        None \<Rightarrow> None
      | Some (r, out, e1) \<Rightarrow> daemon C S V cfg evs e1)"
| "daemon C S V cfg (Peer c # evs) e =
     daemon C S V cfg evs
       (if listens cfg then fst (snd (handle_incoming C S (sync_token (remote_sync cfg)) (e, c))) else e)"
| "daemon C S V cfg (AcceptFails # evs) e = Some e"

definition main_process ::
  "('db, 'y) platform \<Rightarrow> sync_libs \<Rightarrow> server_env \<Rightarrow> env \<Rightarrow> (path \<Rightarrow> error + unit) \<Rightarrow> args \<Rightarrow> event list \<Rightarrow> fs
     \<Rightarrow> ((error + unit) \<times> fs) option" where
  "main_process P S V v bind a evs f =
     (case start_engine P a f of
        (Inl x, f1) \<Rightarrow> Some (Inl x, f1)
      | (Inr e, f1) \<Rightarrow>
          if oneshot a then
            (case run_backup (pl_crates P) v (args_tag a) True e of
               None \<Rightarrow> None
             | Some (Inl x, e1) \<Rightarrow> Some (Inl x, disk e1)
             | Some (Inr r, e1) \<Rightarrow> Some (Inr (), disk e1))
          else
            (case bindS (on_disk (prepare_socket (socket_path a))) (\<lambda>_. on_disk (bind_socket bind (socket_path a))) e of
               (Inl x, e1) \<Rightarrow> Some (Inl x, disk e1)
             | (Inr u, e1) \<Rightarrow> map_option (\<lambda>e2. (Inr (), disk e2)) (daemon (pl_crates P) S V (config e) evs e1)))"

section \<open>The names of the endpoint on Windows\<close>

text \<open>A name stands for itself in ASCII, character by character; any other character becomes one dash.\<close>

definition pipe_char :: "string \<Rightarrow> char" where
  "pipe_char u = (case u of
     [c] \<Rightarrow> (if (of_char c :: nat) < 128 \<and> (ascii_alphanumeric c \<or> c = CHR ''-'' \<or> c = CHR ''_'') then c else CHR ''-'')
   | _ \<Rightarrow> CHR ''-'')"

definition pipe_path :: "string \<Rightarrow> string \<Rightarrow> string" where
  "pipe_path prefix addr = prefix @ ''pipe'' @ [CHR 0x5C] @ map pipe_char (utf8_chars addr)"

text \<open>The server joins \<open>r"\\.\pipe\"\<close> and the name, the client \<open>r"\.\pipe\"\<close> and the name.\<close>

definition pipe_name :: "string \<Rightarrow> string" where
  "pipe_name addr = pipe_path [CHR 0x5C, CHR 0x5C, CHR ''.'', CHR 0x5C] addr"

definition client_pipe_name :: "string \<Rightarrow> string" where
  "client_pipe_name addr = pipe_path [CHR 0x5C, CHR ''.'', CHR 0x5C] addr"

text \<open>So no client finds the pipe of a server.\<close>

lemma pipe_names_differ: "client_pipe_name a \<noteq> pipe_name b"
  by (simp add: client_pipe_name_def pipe_name_def pipe_path_def)

end
