(* ===== verification/Restart.thy ===== *)
theory Restart
  imports Restore_Correct Startup Durability
begin

text \<open>
  Restarting the sidecar: a process that starts on the disk and the database that another left
  recovers every file that the other could recover, and lists its snapshots.
\<close>

section \<open>The signing key\<close>

text \<open>Loading or making the key touches the key files and the directories above them only.\<close>

lemma load_or_create_effect:
  assumes "load_or_create S fresh kp f = (r, g)"
  shows "faulty g = faulty f" "is_dir f q \<Longrightarrow> is_dir g q"
    "\<not> below q kp \<Longrightarrow> q \<noteq> public_key_path kp \<Longrightarrow> fs_node g q = fs_node f q"
proof -
  have "faulty g = faulty f \<and> (\<forall>q. is_dir f q \<longrightarrow> is_dir g q) \<and>
     (\<forall>q. \<not> below q kp \<longrightarrow> q \<noteq> public_key_path kp \<longrightarrow> fs_node g q = fs_node f q)"
  proof (cases "fs_exists f kp")
    case True
    then have "g = f" using assms by (auto simp: load_or_create_def split: sum.splits if_splits)
    then show ?thesis by simp
  next
    case False
    define m where "m = (if kp = [] then returnS () else create_dir_all (parent kp))"
    obtain r1 f1 where 1: "m f = (r1, f1)" by fastforce
    obtain r2 f2 where 2: "fs_write kp fresh f1 = (r2, f2)" by fastforce
    obtain r3 f3 where 3: "fs_write (public_key_path kp) (ed_public S fresh) f2 = (r3, f3)" by fastforce
    have g: "g = f1 \<or> g = f2 \<or> g = f3"
      using assms False 1 2 3 unfolding m_def by (cases r1; cases r2; cases r3) (auto simp: load_or_create_def bindS_def)
    have w: "faulty b = faulty a \<and> (\<forall>q. is_dir a q \<longrightarrow> is_dir b q) \<and> (\<forall>q. q \<noteq> p \<longrightarrow> fs_node b q = fs_node a q)"
      if "fs_write p d a = (x, b)" for p d a b x
    proof (cases x)
      case (Inr u)
      then have "fs_write p d a = (Inr (), b)" using that by simp
      from fs_node_write [OF this] is_dir_write [OF this] fs_write_frame [OF this] show ?thesis by auto
    qed (use that in \<open>auto simp: fs_write_def split: if_splits\<close>)
    have "\<not> below q kp \<Longrightarrow> \<not> below q (parent kp)" for q by (cases kp rule: rev_cases) (auto simp: below_iff parent_def)
    then have f1: "faulty f1 = faulty f \<and> (\<forall>q. is_dir f q \<longrightarrow> is_dir f1 q) \<and> (\<forall>q. \<not> below q kp \<longrightarrow> fs_node f1 q = fs_node f q)"
      using 1 create_dir_all_frame [of "parent kp" f r1 f1] create_dir_all_node [of "parent kp" f r1 f1]
      by (auto simp: m_def returnS_def split: if_splits)
    have kp: "\<not> below q kp \<Longrightarrow> q \<noteq> kp" for q by (auto simp: below_def)
    show ?thesis using g f1 w [OF 2] w [OF 3] kp by auto
  qed
  then show "faulty g = faulty f" "is_dir f q \<Longrightarrow> is_dir g q"
    "\<not> below q kp \<Longrightarrow> q \<noteq> public_key_path kp \<Longrightarrow> fs_node g q = fs_node f q" by blast+
qed

text \<open>The key is not kept inside the store.\<close>

definition key_apart :: "path \<Rightarrow> SidecarConfig \<Rightarrow> bool" where
  "key_apart root cfg = (let kp = sign_key_path root cfg; st = root @ [''.obsidian'', ''store''] in
     \<not> below st kp \<and> \<not> below st (public_key_path kp))"

lemma BackupEngine_new_disk:
  assumes "key_apart root cfg" and e_def: "e = BackupEngine_new S fresh root db store cfg f mt"
  shows "faulty (disk e) = faulty f" "is_dir f q \<Longrightarrow> is_dir (disk e) q"
    "below (root @ [''.obsidian'', ''store'']) q \<Longrightarrow> fs_node (disk e) q = fs_node f q"
proof -
  let ?kp = "sign_key_path root cfg"
  obtain r g where g: "load_or_create S fresh ?kp f = (r, g)" by fastforce
  have d: "disk e = (if signing_enabled cfg then g else f)"
    by (cases r) (simp_all add: e_def BackupEngine_new_def g)
  note l = load_or_create_effect [OF g]
  show "faulty (disk e) = faulty f" "is_dir f q \<Longrightarrow> is_dir (disk e) q" by (simp_all add: d l(1,2))
  have "below (root @ [''.obsidian'', ''store'']) ?kp" if "below (root @ [''.obsidian'', ''store'']) q" "below q ?kp"
    using that by (auto simp: below_iff)
  then show "fs_node (disk e) q = fs_node f q" if "below (root @ [''.obsidian'', ''store'']) q"
    using l(3) [of q] that assms(1) by (auto simp: d key_apart_def Let_def)
qed

lemma BackupEngine_new_fields [simp]:
  "server_root (BackupEngine_new S fresh root db store cfg f mt) = root"
  "index_db (BackupEngine_new S fresh root db store cfg f mt) = db"
  "obj_store (BackupEngine_new S fresh root db store cfg f mt) = store"
  "config (BackupEngine_new S fresh root db store cfg f mt) = cfg"
  by (simp_all add: BackupEngine_new_def split_beta)

section \<open>Listing the snapshots again\<close>

lemma split_on_json: "split_on (CHR ''.'') (i @ ''.json'') = split_on (CHR ''.'') i @ [''json'']"
proof (induction i)
  case (Cons c i)
  then show ?case using split_on_ne [of "CHR ''.''" i] by (cases "split_on (CHR ''.'') i") auto
qed simp

lemma json_extension:
  assumes "i \<noteq> []" shows "extension (i @ ''.json'') = Some ''json''"
proof -
  have ne: "length (split_on (CHR ''.'') i) \<noteq> 0" using split_on_ne by simp
  have "concat (split_on (CHR ''.'') i) \<noteq> []" if one: "length (split_on (CHR ''.'') i) = 1"
  proof
    assume c: "concat (split_on (CHR ''.'') i) = []"
    obtain x where x: "split_on (CHR ''.'') i = [x]" using one by (auto simp: length_Suc_conv)
    with c have "split_on (CHR ''.'') i = [[]]" by simp
    then show False using assms split_on_ne [of "CHR ''.''" "tl i"] by (cases i) (auto split: list.splits if_splits)
  qed
  moreover have "i @ ''.json'' \<noteq> ''..''" by (cases i) auto
  ultimately show ?thesis using ne
    by (cases "length (split_on (CHR ''.'') i) = 1") (simp_all add: extension_def split_on_json Let_def)
qed

lemma read_manifests_finds:
  assumes "n \<in> set ns" "extension n = Some ''json''" "\<not> ends_with ''.pin'' n"
    and "fs_read_to_string f (dir @ [n]) = Inr s" "json_parse L (bytes_of s) = Inr m"
  shows "info_of (jstr m ''snapshot_id'') m \<in> set (read_manifests L f dir ns)"
  using assms by (induction ns) (auto split: sum.split)

lemma sort_by_time_set [simp]: "set (sort_by_time xs) = set xs"
proof -
  have "set (insert_by_time x xs) = insert x (set xs)" for x xs by (induction xs) auto
  then show ?thesis unfolding sort_by_time_def by (induction xs) auto
qed

section \<open>Starting on what another process left\<close>

text \<open>The process is started for the same server: it finds the same database and a configuration that
  keeps the key out of the store, and the database directory is there.\<close>

definition same_server :: "('db, 'y) platform \<Rightarrow> args \<Rightarrow> SidecarConfig \<Rightarrow> 'db engine \<Rightarrow> bool" where
  "same_server P a cfg e =
     (args_root a = server_root e \<and> SidecarConfig_load (pl_yaml P) (disk e) (config_path a) = Inr cfg \<and>
      key_apart (server_root e) cfg \<and> all_dirs (disk e) (server_root e @ [''.obsidian'', ''rocksdb'']) \<and>
      BlockIndex_open (pl_open P) (server_root e @ [''.obsidian'', ''rocksdb'']) = Inr (index_db e))"

lemma store_paths:
  "child root ''.obsidian/store'' = root @ [''.obsidian'', ''store'']" "child root ''.obsidian/rocksdb'' = root @ [''.obsidian'', ''rocksdb'']"
  by (simp_all add: child_def path_of_def join_def is_absolute_def)

text \<open>Loading the snapshots into a new engine.\<close>

lemma with_snapshots_loads:
  assumes "is_dir (disk e) (snapshot_dir e) \<or> \<not> fs_exists (disk e) (snapshot_dir e)" and "snapshot_dir e \<notin> set (faulty (disk e))"
  obtains e' where "with_snapshots L e = (Inr e', disk e')" "disk e' = disk e" "obj_store e' = obj_store e" "index_db e' = index_db e"
    "server_root e' = server_root e" "config e' = config e"
    "is_dir (disk e) (snapshot_dir e) \<longrightarrow> (\<exists>ns. set ns = {n. fs_exists (disk e) (snapshot_dir e @ [n])} \<and>
       snapshots e' = sort_by_time (read_manifests L (disk e) (snapshot_dir e) ns))"
proof (cases "is_dir (disk e) (snapshot_dir e)")
  case True
  moreover have "snapshot_dir e \<noteq> []" by (simp add: snapshot_dir_path)
  ultimately obtain ns where ns: "read_dir (disk e) (snapshot_dir e) = Inr ns"
    "\<And>n. n \<in> set ns \<longleftrightarrow> fs_exists (disk e) (snapshot_dir e @ [n])" using read_dir_lists assms(2) by blast
  have "fs_exists (disk e) (snapshot_dir e)" using True by (simp add: fs_exists_def is_dir_def)
  moreover have "set ns = {n. fs_exists (disk e) (snapshot_dir e @ [n])}" using ns(2) by auto
  ultimately show ?thesis
    by (intro that [of "update_storage_stats (e\<lparr>snapshots := sort_by_time (read_manifests L (disk e) (snapshot_dir e) ns)\<rparr>)"])
      (auto simp: with_snapshots_def load_snapshots_def Let_def update_storage_stats_def ns(1) intro!: exI [of _ ns])
next
  case False
  then have "\<not> fs_exists (disk e) (snapshot_dir e)" using assms(1) by simp
  with False show ?thesis by (intro that [of e]) (simp_all add: with_snapshots_def load_snapshots_def)
qed

text \<open>An engine with another index of the same objects, on a disk that differs outside the store only.\<close>

lemma same_objects_engine:
  assumes inv: "engine_inv C content e" "placed e" and t: "same_objects (obj_store e) t" "store_inv t" "durable t (disk e)"
    and fields: "obj_store e' = t" "index_db e' = index_db e" "server_root e' = server_root e"
    and disk: "\<And>q. below (server_root e @ [''.obsidian'', ''store'']) q \<Longrightarrow> fs_node (disk e') q = fs_node (disk e) q"
    and grown: "faulty (disk e') = faulty (disk e)" "\<And>q. is_dir (disk e) q \<Longrightarrow> is_dir (disk e') q"
  shows "engine_inv C content e'" "placed e'" "durable (obj_store e') (disk e')" "recoverable C e' = recoverable C e"
proof -
  let ?s = "obj_store e" and ?root = "server_root e @ [''.obsidian'', ''store'']"
  have si: "store_inv ?s" using inv(1) by (simp add: engine_inv_def data_inv_def faithful_def)
  have od: "objects_dir ?s = ?root @ [''objects'']" "packfile_dir ?s = ?root @ [''packfiles'']" using inv(2) by (simp_all add: placed_def)
  have inside: "fs_read (disk e') q = fs_read (disk e) q" if "\<not> outside ?s q" for q
    by (rule fs_read_same [OF disk grown(1)]) (use that in \<open>auto simp: outside_def od below_iff\<close>)
  have same_read: "read_object t (disk e') = read_object ?s (disk e)"
    using read_object_inside [OF si inside] same_objectsD(2) [OF t(1), of "disk e'"] by simp
  have "faithful content t (disk e')"
    using inv(1) t(2) same_objectsD(1) [OF t(1)] by (simp add: engine_inv_def data_inv_def faithful_def same_read)
  then show "engine_inv C content e'"
    using inv(1) same_objectsD(1) [OF t(1)] by (simp add: engine_inv_def data_inv_def fields)
  show "placed e'" using inv(2) same_objectsD(3) [OF t(1)] by (simp add: placed_def fields same_frame_def)
  have "durable t (disk e')"
  proof (rule durable_elsewhere [OF t(3) store_invD(1) [OF t(2)] grown(2,1)])
    fix q assume "below (objects_dir t) q \<or> below (packfile_dir t) q"
    then have "below ?root q" using same_objectsD(3) [OF t(1)] by (auto simp: same_frame_def od below_iff)
    then show "fs_node (disk e') q = fs_node (disk e) q" by (rule disk)
  qed
  then show "durable (obj_store e') (disk e')" by (simp add: fields)
  have gs: "gather t (disk e') hs = gather ?s (disk e) hs" for hs
    using same_read by (induction hs) (simp_all add: fun_eq_iff)
  show "recoverable C e' = recoverable C e"
    by (simp add: fun_eq_iff recoverable_def fields(1,2) gs split: sum.split)
qed

lemma start_engine_again:
  assumes inv: "engine_inv (pl_crates P) content e" "placed e" and dur: "durable (obj_store e) (disk e)"
    and same: "same_server P a cfg e"
    and snaps: "is_dir (disk e) (snapshot_dir e) \<or> \<not> fs_exists (disk e) (snapshot_dir e)" "snapshot_dir e \<notin> set (faulty (disk e))"
  obtains e' where "start_engine P a (disk e) = (Inr e', disk e')"
    "engine_inv (pl_crates P) content e'" "placed e'" "durable (obj_store e') (disk e')"
    "recoverable (pl_crates P) e' = recoverable (pl_crates P) e"
    "index_db e' = index_db e" "config e' = cfg" "server_root e' = server_root e"
    "is_dir (disk e) (snapshot_dir e) \<longrightarrow> (\<exists>ns. set ns = {n. fs_exists (disk e) (snapshot_dir e @ [n])} \<and>
       snapshots e' = sort_by_time (read_manifests (cr_index (pl_crates P)) (disk e') (snapshot_dir e) ns))"
    "\<forall>q. below (server_root e @ [''.obsidian'', ''store'']) q \<longrightarrow> fs_node (disk e') q = fs_node (disk e) q" "faulty (disk e') = faulty (disk e)"
proof -
  let ?s = "obj_store e" and ?f = "disk e" and ?root = "server_root e @ [''.obsidian'', ''store'']" and ?L = "cr_index (pl_crates P)"
  have si: "store_inv ?s" and ok: "index_ok ?L (index_db e)" using inv(1) by (simp_all add: engine_inv_def data_inv_def faithful_def)
  have od: "objects_dir ?s = ?root @ [''objects'']" "packfile_dir ?s = ?root @ [''packfiles'']" using inv(2) by (simp_all add: placed_def)
  obtain t where t: "ObjectStore_new ?root (erasure_on (erasure_coding (storage cfg))) (pack_limit_mb (packfile (storage cfg))) ?f = (Inr t, ?f)"
    "same_objects ?s t" "store_inv t" "durable t ?f" by (rule reopen_durable [OF dur si od(1)])
  have rd: "all_dirs ?f ?root" using all_dirs_prefix [of ?f ?root "[''objects'']"] durableD(1) [OF dur] by (simp add: od)
  let ?n = "BackupEngine_new (cr_sign (pl_crates P)) (pl_key P) (server_root e) (index_db e) t cfg ?f (pl_mtimes P)"
  have "key_apart (server_root e) cfg" using same by (simp add: same_server_def)
  note n = BackupEngine_new_disk [where e = ?n, OF this refl]
  have sd: "snapshot_dir ?n = snapshot_dir e" "below ?root (snapshot_dir e @ q)" for q
    by (simp_all add: snapshot_dir_path) (simp add: below_def)
  have listed: "fs_node (disk ?n) (snapshot_dir e @ q) = fs_node ?f (snapshot_dir e @ q)" for q
    by (rule n(3) [OF sd(2)])
  have dir: "is_dir (disk ?n) (snapshot_dir ?n) \<or> \<not> fs_exists (disk ?n) (snapshot_dir ?n)" "snapshot_dir ?n \<notin> set (faulty (disk ?n))"
    using snaps listed [of "[]"] n(1) by (simp_all add: sd(1) is_dir_def fs_exists_def)
  obtain e' where start: "with_snapshots ?L ?n = (Inr e', disk e')"
    and fields: "disk e' = disk ?n" "obj_store e' = obj_store ?n" "index_db e' = index_db ?n" "server_root e' = server_root ?n" "config e' = config ?n"
    and sn: "is_dir (disk ?n) (snapshot_dir ?n) \<longrightarrow> (\<exists>ns. set ns = {n. fs_exists (disk ?n) (snapshot_dir ?n @ [n])} \<and>
         snapshots e' = sort_by_time (read_manifests ?L (disk ?n) (snapshot_dir ?n) ns))" by (rule with_snapshots_loads [OF dir])
  note fields = fields(1) fields(2-5) [unfolded BackupEngine_new_fields]
  from start have run: "start_engine P a ?f = (Inr e', disk e')"
    using same create_dir_all_there [OF rd] t(1)
    by (simp add: start_engine_def same_server_def store_paths bindS_def liftS_def create_dir_all_there)
  have node: "fs_node (disk e') q = fs_node ?f q" if "below ?root q" for q unfolding fields by (rule n(3) [OF that])
  have grown: "faulty (disk e') = faulty ?f" "is_dir ?f q \<Longrightarrow> is_dir (disk e') q" for q unfolding fields by (rule n(1)) (rule n(2))
  note k = same_objects_engine [OF inv t(2-4) fields(2,3,4) node grown]
  have "is_dir ?f (snapshot_dir e) \<longrightarrow> (\<exists>ns. set ns = {n. fs_exists ?f (snapshot_dir e @ [n])} \<and>
       snapshots e' = sort_by_time (read_manifests ?L (disk e') (snapshot_dir e) ns))"
    using sn listed [of "[]"] by (simp add: sd(1) is_dir_def fs_exists_def listed fields(1))
  then show ?thesis
    by (intro that [OF run k fields(3,5,4) _ _ grown(1)]) (use node in auto)
qed

section \<open>A backup keeps the store durable\<close>

text \<open>The hashes the crates compute are names that the store can list.\<close>

definition name_laws :: "libs \<Rightarrow> bool" where
  "name_laws X = (\<forall>d. hash_name (content_hash X d))"

definition store_kept :: "object_store \<Rightarrow> fs \<Rightarrow> object_store \<Rightarrow> fs \<Rightarrow> bool" where
  "store_kept s f t g = ((durable s f \<longrightarrow> durable t g) \<and> grows f g)"

lemma store_kept_trans: "store_kept s f s1 f1 \<Longrightarrow> store_kept s1 f1 t g \<Longrightarrow> store_kept s f t g"
  unfolding store_kept_def using grows_trans by blast

lemma record_chunk_kept:
  assumes laws: "rs_laws X" "hash_laws X" and inv: "data_inv L content (cx_db cx) (cx_store cx) (cx_disk cx)"
    and fits: "chunk_fits X L cx ck" and name: "hash_name (ck_hash ck)"
    and run: "record_chunk X L rel ck cx = (Inr (), cx')"
  shows "store_kept (cx_store cx) (cx_disk cx) (cx_store cx') (cx_disk cx')"
proof (cases "chunk_exists L (ck_hash ck) (cx_db cx) = Inr True")
  case True
  then have "cx_store cx' = cx_store cx" "cx_disk cx' = cx_disk cx" using run by (auto simp: record_chunk_def Let_def)
  then show ?thesis by (simp add: store_kept_def)
next
  case False
  then have room: "room (cx_store cx, cx_disk cx) (ck_hash ck) (ck_data ck)"
    and ok: "fst (write_object X (ck_hash ck) (ck_data ck) (of_nat (ck_size ck)) (cx_store cx, cx_disk cx)) = Inr ()"
    using fits by (simp_all add: chunk_fits_def)
  then obtain t g where w: "write_object X (ck_hash ck) (ck_data ck) (of_nat (ck_size ck)) (cx_store cx, cx_disk cx) = (Inr (), (t, g))"
    by (metis prod.collapse)
  have cx': "cx_store cx' = t" "cx_disk cx' = g"
    using run False w by (auto simp: record_chunk_def Let_def split: sum.splits bool.splits)
  have "store_inv (cx_store cx)" using inv by (simp add: data_inv_def faithful_def)
  then show ?thesis
    using durable_write [OF _ _ room name laws w] write_object_grows [OF w hash_nameD(1) [OF name]]
    by (simp add: store_kept_def cx')
qed

lemma deliver_kept:
  assumes laws: "rs_laws X" "hash_laws X"
    and "data_inv L content (cx_db cx) (cx_store cx) (cx_disk cx)"
    and "all_along (chunk_fits X L) (record_chunk X L rel) cks cx"
    and "\<forall>ck \<in> set cks. content (ck_hash ck) = ck_data ck \<and> hash_name (ck_hash ck)"
    and "deliver (record_chunk X L rel) cks cx = (Inr (), cx')"
  shows "store_kept (cx_store cx) (cx_disk cx) (cx_store cx') (cx_disk cx')"
  using assms(3-)
proof (induction cks arbitrary: cx)
  case Nil
  then show ?case by (simp add: store_kept_def)
next
  case (Cons ck cks)
  have ck: "chunk_fits X L cx ck" "content (ck_hash ck) = ck_data ck" "hash_name (ck_hash ck)" using Cons.prems(2,3) by simp_all
  from record_chunk_step [OF laws(1) Cons.prems(1) ck(1,2), of rel] obtain cx1 where
    1: "record_chunk X L rel ck cx = (Inr (), cx1)" "ctx_step X L content [ck_hash ck] cx cx1" by blast
  have "data_inv L content (cx_db cx1) (cx_store cx1) (cx_disk cx1)" using 1(2) by (simp add: ctx_step_def)
  moreover have "all_along (chunk_fits X L) (record_chunk X L rel) cks cx1" "deliver (record_chunk X L rel) cks cx1 = (Inr (), cx')"
    using Cons.prems(2,4) 1(1) by simp_all
  ultimately have "store_kept (cx_store cx1) (cx_disk cx1) (cx_store cx') (cx_disk cx')"
    using Cons.IH Cons.prems(3) by simp
  with record_chunk_kept [OF laws Cons.prems(1) ck(1,3) 1(1)] show ?case by (rule store_kept_trans)
qed

lemma backup_file_kept:
  assumes laws: "rs_laws (cr_libs C)" "hash_laws (cr_libs C)" "name_laws (cr_libs C)" and inv: "engine_inv C content e"
    and ok: "file_ok C v content fe e" and run: "backup_file C v fe e = Some (r, e')"
  shows "store_kept (obj_store e) (disk e) (obj_store e') (disk e')"
proof -
  let ?X = "cr_libs C" and ?L = "cr_index C" and ?rel = "rel_of e fe"
  obtain b where read: "fs_read (disk e) (fe_path fe) = Inr b" using file_ok_read [OF ok] by blast
  define cks where "cks = file_chunk_list ?X (reads v b)"
  have r: "reader_ok (reads v b)" and cont: "\<forall>ck \<in> set cks. content (ck_hash ck) = ck_data ck"
    and fits: "all_along (chunk_fits ?X ?L) (record_chunk ?X ?L ?rel) cks (open_ctx e)"
    using ok read by (simp_all add: file_ok_def Let_def cks_def list_all_iff)
  have names: "\<forall>ck \<in> set cks. hash_name (ck_hash ck)"
    using chunk_reader_file(3) [OF r] laws(3) by (simp add: cks_def name_laws_def)
  have d: "data_inv ?L content (cx_db (open_ctx e)) (cx_store (open_ctx e)) (cx_disk (open_ctx e))"
    using inv by (simp add: engine_inv_def open_ctx_def)
  from deliver_chunks [OF laws(1) d fits cont] obtain cx where
    cx: "deliver (record_chunk ?X ?L ?rel) cks (open_ctx e) = (Inr (), cx)" by blast
  have "store_kept (cx_store (open_ctx e)) (cx_disk (open_ctx e)) (cx_store cx) (cx_disk cx)"
    by (rule deliver_kept [OF laws(1,2) d fits _ cx]) (use cont names in blast)
  moreover have "obj_store e' = cx_store cx" "disk e' = cx_disk cx"
    using run by (auto simp: backup_file_def Let_def read chunk_reader_file(1) [OF r] cx [unfolded cks_def] close_ctx_def)
  ultimately show ?thesis by (simp add: open_ctx_def)
qed

lemma run_tasks_kept:
  assumes laws: "rs_laws (cr_libs C)" "hash_laws (cr_libs C)" "name_laws (cr_libs C)"
  shows "engine_inv C content e \<Longrightarrow> tasks_ok C v content ts e \<Longrightarrow> run_tasks C v ts e = Some (rs, e') \<Longrightarrow>
    store_kept (obj_store e) (disk e) (obj_store e') (disk e')"
proof (induction ts arbitrary: e rs)
  case Nil
  then show ?case by (simp add: store_kept_def)
next
  case (Cons t ts)
  obtain i fe where t: "t = (i, fe)" by fastforce
  have ok: "file_ok C v content fe e" using Cons.prems(2) by (simp add: t)
  then obtain b where b: "fs_read (disk e) (fe_path fe) = Inr b" using file_ok_read by blast
  from backup_file_stores [OF laws(1) Cons.prems(1) ok b] obtain q e1 where
    1: "backup_file C v fe e = Some (q, e1)" and st: "files_stored C content [(rel_of e fe, b)] e e1" by blast
  obtain rs' where "run_tasks C v ts e1 = Some (rs', e')" using Cons.prems(3) by (auto simp: t 1 split: option.splits)
  moreover have "tasks_ok C v content ts e1" using Cons.prems(2) by (simp add: t 1)
  ultimately have "store_kept (obj_store e1) (disk e1) (obj_store e') (disk e')"
    using Cons.IH [OF files_storedD(7) [OF st]] by blast
  with backup_file_kept [OF laws Cons.prems(1) ok 1] show ?case by (rule store_kept_trans)
qed

section \<open>The commit and the next process\<close>

lemma commit_kept:
  assumes run: "commit_backup C v tx tag n t e = (Inr r, e')" and inv: "engine_inv C content e" and placed: "placed e"
    and uuid: "CHR ''/'' \<notin> set (uuid8 v)"
  shows "store_kept (obj_store e) (disk e) (obj_store e') (disk e')" and "is_dir (disk e') (snapshot_dir e')" and "placed e'"
proof -
  let ?i = "''snap_'' @ uuid8 v" and ?f = "disk e"
  obtain f1 s f2 f3 where
    f1: "create_dir_all (snapshot_dir e) ?f = (Inr (), f1)" and f2: "fs_write (manifest_path e ?i) (bytes_of s) f1 = (Inr (), f2)"
    and f3: "case signer e of None \<Rightarrow> f3 = f2
     | Some sg \<Rightarrow> fs_write (sig_path e ?i) (bytes_of (sign (cr_sign C) sg (bytes_of s))) f2 = (Inr (), f3)"
    and e': "disk e' = f3" "obj_store e' = obj_store e" "server_root e' = server_root e"
    by (rule commit_backup_steps [OF run])
  have ni: "CHR ''/'' \<notin> set ?i" using uuid by simp
  have sig: "grows f2 f3 \<and> (\<forall>q. q \<noteq> sig_path e ?i \<longrightarrow> fs_node f3 q = fs_node f2 q)"
    using f3 by (cases "signer e") (simp_all add: fs_write_grows fs_node_write)
  have g: "grows f1 f3" using grows_trans [OF fs_write_grows [OF f2]] sig by blast
  have grown: "grows ?f f3" by (rule grows_trans [OF create_dir_all_grows [OF f1] g])
  show "is_dir (disk e') (snapshot_dir e')"
    using create_dir_all_dir [OF f1] g by (simp add: snapshot_dir_def e' grows_def)
  show "placed e'" using placed by (simp add: placed_def e')
  have nodes: "fs_node f3 q = fs_node ?f q" if "below (objects_dir (obj_store e)) q \<or> below (packfile_dir (obj_store e)) q" for q
  proof -
    have "\<not> outside (obj_store e) q" using that by (auto simp: outside_def)
    moreover have "outside (obj_store e) (snapshot_dir e @ t)" for t by (rule outside_snapshots [OF placed])
    ultimately have "q \<noteq> manifest_path e ?i" "q \<noteq> sig_path e ?i" unfolding snapshot_paths [OF ni] by metis+
    moreover have "\<not> below q (snapshot_dir e)" using that placed by (auto simp: below_iff placed_def snapshot_dir_path)
    ultimately show ?thesis using sig fs_node_write [OF f2] create_dir_all_node [OF f1] by simp
  qed
  have lay: "layout (obj_store e)" using inv by (simp add: engine_inv_def data_inv_def faithful_def store_invD(1))
  have "durable (obj_store e) f3" if "durable (obj_store e) ?f"
    by (rule durable_elsewhere [OF that lay _ _ nodes]) (use grown in \<open>auto simp: grows_def\<close>)
  then show "store_kept (obj_store e) ?f (obj_store e') (disk e')" using grown by (simp add: store_kept_def e')
qed

text \<open>The new process finds the manifest of the snapshot among the names of the snapshot directory.\<close>

lemma snapshot_listed:
  fixes L :: "'db index_libs"
  assumes laws: "json_laws L" and s: "json_pretty L (manifest_of e v tag n t) = Inr s"
    and read: "fs_read f (dir @ [''snap_'' @ uuid8 v @ ''.json'']) = Inr (bytes_of s)"
    and ns: "(''snap_'' @ uuid8 v @ ''.json'') \<in> set ns"
  shows "\<exists>x \<in> set (read_manifests L f dir ns). si_id x = ''snap_'' @ uuid8 v \<and> si_timestamp x = now v \<and> si_tag x = tag"
proof -
  let ?m = "manifest_of e v tag n t" and ?n = "''snap_'' @ uuid8 v @ ''.json''"
  have s': "utf8_valid (bytes_of s)" "json_parse L (bytes_of s) = Inr ?m"
    using pretty_roundtrip [OF laws manifest_wf [of e v tag n t]] s by auto
  have "extension ?n = Some ''json''" using json_extension [of "''snap_'' @ uuid8 v"] by simp
  moreover have "\<not> ends_with ''.pin'' (i @ ''.json'')" for i by (simp add: ends_with_def)
  from this [of "''snap_'' @ uuid8 v"] have "\<not> ends_with ''.pin'' ?n" by simp
  moreover have "fs_read_to_string f (dir @ [?n]) = Inr s"
    using read s'(1) by (simp add: fs_read_to_string_def codec_simps)
  ultimately have "info_of (jstr ?m ''snapshot_id'') ?m \<in> set (read_manifests L f dir ns)"
    by (rule read_manifests_finds [OF ns _ _ _ s'(2)])
  moreover have "jstr ?m ''snapshot_id'' = ''snap_'' @ uuid8 v" "jstr ?m ''timestamp'' = now v" "jtag ?m = tag"
    by (simp_all add: manifest_of_def jstr_def jtag_def jget_def as_str_def split: option.split)
  ultimately show ?thesis by (intro bexI [of _ "info_of (jstr ?m ''snapshot_id'') ?m"]) (simp_all add: info_of_def)
qed

text \<open>C2: a backup survives a restart.  After a backup that reports success the process may end: a process
  that starts on the disk and the database it left opens the store and the index, recovers every file the
  backup read and every file that could be recovered before, and lists the snapshot.\<close>

theorem backup_survives_restart:
  fixes P :: "('db, 'y) platform"
  assumes C: "C = pl_crates P" and laws: "rs_laws (cr_libs C)" "hash_laws (cr_libs C)" "name_laws (cr_libs C)"
    and start: "engine_inv C content e" "placed e" "durable (obj_store e) (disk e)" "snapshot_dir e \<notin> set (faulty (disk e))"
    and files: "files_to_back_up C incremental e = Some files" "files \<noteq> []"
    and sched: "cancelled v = None" "fair v (length files)" and dist: "distinct (map (rel_of e) files)"
    and tasks: "tasks_ok C v content (task_list v files) (processing v e)" and uuid: "CHR ''/'' \<notin> set (uuid8 v)"
    and run: "run_backup C v tag incremental e = Some (Inr r, e')"
    and again: "same_server P a cfg e'"
  shows "\<exists>e2. start_engine P a (disk e') = (Inr e2, disk e2) \<and> engine_inv C content e2 \<and>
     (\<forall>fe \<in> set files. recoverable C e2 (rel_of e fe) (bytes_at (disk e) (fe_path fe))) \<and>
     (\<forall>p b. p \<notin> rel_of e ` set files \<longrightarrow> recoverable C e p b \<longrightarrow> recoverable C e2 p b) \<and>
     get_snapshot_files (cr_index C) (br_snapshot_id r) (index_db e2) = Inr (map (rel_of e) files) \<and>
     durable (obj_store e2) (disk e2) \<and>
     (\<exists>s \<in> set (snapshots e2). si_id s = br_snapshot_id r \<and> si_timestamp s = now v \<and> si_tag s = tag)"
proof -
  let ?p = "processing v e"
  obtain rs e1 where commit: "commit_backup C v (begun v) tag (length files) (tally_all rs) e1 = (Inr r, e')"
    and proc: "process_files C v files ?p = Some (rs, e1)"
    and paths: "all_file_paths (tally_all rs) = map (rel_of e) files" "length rs = length files"
    and e1: "engine_inv C content e1" "placed e1" and root: "server_root e' = server_root e"
    and kept: "\<forall>fe \<in> set files. recoverable C e' (rel_of e fe) (bytes_at (disk e) (fe_path fe))"
      "\<forall>p b. p \<notin> rel_of e ` set files \<longrightarrow> recoverable C e p b \<longrightarrow> recoverable C e' p b"
      "get_snapshot_files (cr_index C) (br_snapshot_id r) (index_db e') = Inr (map (rel_of e) files)" and inv': "engine_inv C content e'"
    by (rule backup_outcome [OF laws(1) start(1,2) files sched dist tasks uuid run])
  have same: "disk ?p = disk e" "obj_store ?p = obj_store e" "engine_inv C content ?p"
    using start(1) by (simp_all add: processing_def engine_inv_def)
  obtain rs' where "run_tasks C v (task_list v files) ?p = Some (rs', e1)"
    using proc sched(1) by (auto simp: process_files_def task_list_def Let_def)
  from run_tasks_kept [OF laws same(3) tasks this]
  have s1: "store_kept (obj_store e) (disk e) (obj_store e1) (disk e1)" by (simp add: same)
  note c = commit_kept [OF commit e1 uuid]
  have s2: "store_kept (obj_store e) (disk e) (obj_store e') (disk e')" by (rule store_kept_trans [OF s1 c(1)])
  then have dur: "durable (obj_store e') (disk e')" "faulty (disk e') = faulty (disk e)"
    using start(3) by (simp_all add: store_kept_def grows_def)
  have r: "br_snapshot_id r = ''snap_'' @ uuid8 v" by (rule commit_backup_steps [OF commit]) (simp add: result_of_def)
  have sd: "snapshot_dir e' \<notin> set (faulty (disk e'))" using start(4) dur(2) root by (simp add: snapshot_dir_def)
  obtain e2 where e2: "start_engine P a (disk e') = (Inr e2, disk e2)" "engine_inv C content e2" "placed e2"
    "durable (obj_store e2) (disk e2)" "recoverable C e2 = recoverable C e'" "index_db e2 = index_db e'" "config e2 = cfg" "server_root e2 = server_root e'"
    and list: "is_dir (disk e') (snapshot_dir e') \<longrightarrow> (\<exists>ns. set ns = {n. fs_exists (disk e') (snapshot_dir e' @ [n])} \<and>
       snapshots e2 = sort_by_time (read_manifests (cr_index C) (disk e2) (snapshot_dir e') ns))"
    and rd: "\<forall>q. below (server_root e' @ [''.obsidian'', ''store'']) q \<longrightarrow> fs_node (disk e2) q = fs_node (disk e') q"
    and fy: "faulty (disk e2) = faulty (disk e')"
    unfolding C by (rule start_engine_again [OF inv' [unfolded C] c(3) dur(1) again disjI1 [OF c(2)] sd])
  obtain ns where ns: "set ns = {n. fs_exists (disk e') (snapshot_dir e' @ [n])}"
    and snaps: "snapshots e2 = sort_by_time (read_manifests (cr_index C) (disk e2) (snapshot_dir e') ns)"
    using list c(2) by blast
  let ?n = "''snap_'' @ uuid8 v @ ''.json''"
  obtain s where s: "json_pretty (cr_index C) (manifest_of e1 v tag (length files) (tally_all rs)) = Inr s"
    and read: "fs_read (disk e') (manifest_path e' (br_snapshot_id r)) = Inr (bytes_of s)"
    using commit_backup_effect(4) [OF commit e1 uuid] by blast
  have "manifest_path e' (br_snapshot_id r) = snapshot_dir e' @ [?n]"
    using snapshot_paths(1) [of "br_snapshot_id r" e'] uuid by (simp add: r)
  then have read: "fs_read (disk e') (snapshot_dir e' @ [?n]) = Inr (bytes_of s)" using read by metis
  moreover have "below (server_root e' @ [''.obsidian'', ''store'']) (snapshot_dir e' @ [?n])"
    unfolding snapshot_dir_path below_iff by simp
  ultimately have read2: "fs_read (disk e2) (snapshot_dir e' @ [?n]) = Inr (bytes_of s)" using fs_read_same [OF _ fy] rd by metis
  have listed: "?n \<in> set ns"
    using fs_read_InrD [OF read] unfolding ns mem_Collect_eq by (auto simp: fs_exists_def)
  have "json_laws (cr_index C)" using inv' by (simp add: engine_inv_def data_inv_def index_ok_def)
  from snapshot_listed [OF this s read2 listed]
  have "\<exists>s \<in> set (snapshots e2). si_id s = br_snapshot_id r \<and> si_timestamp s = now v \<and> si_tag s = tag"
    unfolding snaps sort_by_time_set r .
  with e2 kept show ?thesis by (intro exI [of _ e2]) (simp only: e2 kept simp_thms)
qed

text \<open>C3: a crash between two file tasks loses nothing.  When the process ends after any of the file tasks
  of a backup, long before the commit, a process that starts on the disk and the database it left
  recovers every file that could be recovered before, and the files of the finished tasks.\<close>

theorem crash_between_files:
  fixes P :: "('db, 'y) platform"
  assumes C: "C = pl_crates P" and laws: "rs_laws (cr_libs C)" "hash_laws (cr_libs C)" "name_laws (cr_libs C)"
    and start: "engine_inv C content e" "placed e" "durable (obj_store e) (disk e)"
      "is_dir (disk e) (snapshot_dir e)" "snapshot_dir e \<notin> set (faulty (disk e))"
    and dist: "distinct (map (\<lambda>(i, fe). rel_of e fe) ts)" and out: "\<forall>(i, fe) \<in> set ts. outside (obj_store e) (fe_path fe)"
    and tasks: "tasks_ok C v content ts e" and run: "run_tasks C v ts e = Some (rs, e')" and again: "same_server P a cfg e'"
  shows "\<exists>e2. start_engine P a (disk e') = (Inr e2, disk e2) \<and> engine_inv C content e2 \<and> durable (obj_store e2) (disk e2) \<and>
     (\<forall>(i, fe) \<in> set ts. recoverable C e2 (rel_of e fe) (bytes_at (disk e) (fe_path fe))) \<and>
     (\<forall>p b. p \<notin> (\<lambda>(i, fe). rel_of e fe) ` set ts \<longrightarrow> recoverable C e p b \<longrightarrow> recoverable C e2 p b)"
proof -
  from run_tasks_stores [OF laws(1) start(1) tasks dist out] run have
    st: "files_stored C content (map (\<lambda>(i, fe). file_content e fe) ts) e e'" by auto
  from run_tasks_kept [OF laws start(1) tasks run] start(3)
  have dur: "durable (obj_store e') (disk e')" and gr: "grows (disk e) (disk e')" by (simp_all add: store_kept_def)
  have "\<exists>db s f tr. e' = e\<lparr>index_db := db, obj_store := s, disk := f, transients := tr\<rparr>"
    using st unfolding files_stored_def by blast
  then have root: "server_root e' = server_root e" by auto
  have pl: "placed e'" using files_storedD(5,6) [OF st] start(2) by (simp add: placed_def root)
  have sd: "is_dir (disk e') (snapshot_dir e')" "snapshot_dir e' \<notin> set (faulty (disk e'))"
    using start(4,5) gr by (simp_all add: grows_def snapshot_dir_def root)
  obtain e2 where e2: "start_engine P a (disk e') = (Inr e2, disk e2)" "engine_inv C content e2" "placed e2"
    "durable (obj_store e2) (disk e2)" "recoverable C e2 = recoverable C e'" "index_db e2 = index_db e'" "config e2 = cfg" "server_root e2 = server_root e'"
    "is_dir (disk e') (snapshot_dir e') \<longrightarrow> (\<exists>ns. set ns = {n. fs_exists (disk e') (snapshot_dir e' @ [n])} \<and>
       snapshots e2 = sort_by_time (read_manifests (cr_index C) (disk e2) (snapshot_dir e') ns))"
    "\<forall>q. below (server_root e' @ [''.obsidian'', ''store'']) q \<longrightarrow> fs_node (disk e2) q = fs_node (disk e') q"
    "faulty (disk e2) = faulty (disk e')"
    unfolding C by (rule start_engine_again [OF files_storedD(7) [OF st, unfolded C] pl dur again disjI1 [OF sd(1)] sd(2)])
  have fst_set: "fst ` set (map (\<lambda>(i, fe). file_content e fe) ts) = (\<lambda>(i, fe). rel_of e fe) ` set ts"
    by (auto simp: file_content_def image_image split_beta)
  have 1: "recoverable C e' (rel_of e fe) (bytes_at (disk e) (fe_path fe))" if "(i, fe) \<in> set ts" for i fe
    by (rule files_storedD(1) [OF st]) (use that in \<open>force simp: file_content_def\<close>)
  have 2: "recoverable C e' p b" if "p \<notin> (\<lambda>(i, fe). rel_of e fe) ` set ts" "recoverable C e p b" for p b
    by (rule files_storedD(2) [OF st]) (use that in \<open>simp_all only: fst_set not_False_eq_True\<close>)
  show ?thesis using 1 2 by (intro exI [of _ e2]) (auto simp only: e2)
qed

end
