(* ===== verification/Lifecycle.thy ===== *)
theory Lifecycle
  imports Restart Maintenance_Correct
begin

text \<open>
  The life of a server: backups, cancelled, failed and interrupted ones, restarts, pruning and pinning in
  any order.  The states of the machine are an engine with the archive it stands for, the map from the
  names of files to the content that was last backed up under them; every step of the engine is
  matched by a step of the archive.  \<open>keeps\<close> is the contract of the engine's steps: a step that meets it
  leaves a server healthy and its files recoverable, whether it succeeds or not.
\<close>

section \<open>A server in good health\<close>

definition healthy :: "'db crates \<Rightarrow> (string \<Rightarrow> bytes) \<Rightarrow> 'db engine \<Rightarrow> bool" where
  "healthy C content e = (engine_inv C content e \<and> placed e \<and> durable (obj_store e) (disk e) \<and>
     snapshot_dir e \<notin> set (faulty (disk e)) \<and> \<not> is_file (disk e) (snapshot_dir e))"

definition archived :: "'db crates \<Rightarrow> 'db engine \<Rightarrow> (string \<rightharpoonup> bytes) \<Rightarrow> bool" where
  "archived C e M = (\<forall>p b. M p = Some b \<longrightarrow> recoverable C e p b)"

lemma archivedI:
  assumes "archived C e M" and "\<forall>(p, b) \<in> set ch. recoverable C e' p b"
    and "\<And>p b. p \<notin> fst ` set ch \<Longrightarrow> recoverable C e p b \<Longrightarrow> recoverable C e' p b"
  shows "archived C e' (M ++ map_of ch)"
proof -
  have "recoverable C e' p b" if "(M ++ map_of ch) p = Some b" for p b
  proof (cases "map_of ch p")
    case None
    then have "p \<notin> fst ` set ch" "M p = Some b" using that by (simp_all add: map_add_def) (simp add: map_of_eq_None_iff)
    then show ?thesis using assms(1,3) by (simp add: archived_def)
  next
    case (Some c)
    then have "(p, b) \<in> set ch" using that by (simp add: map_add_def map_of_SomeD)
    then show ?thesis using assms(2) by blast
  qed
  then show ?thesis by (simp add: archived_def)
qed

lemma recoverable_cong:
  assumes "index_db e' = index_db e" "obj_store e' = obj_store e" "disk e' = disk e"
  shows "recoverable C e' = recoverable C e"
  unfolding fun_eq_iff recoverable_def assms by simp

lemma healthy_cong:
  assumes "index_db e' = index_db e" "obj_store e' = obj_store e" "disk e' = disk e" "server_root e' = server_root e"
  shows "healthy C content e' = healthy C content e"
  by (simp add: healthy_def engine_inv_def placed_def snapshot_dir_def assms)

lemma snapshot_dir_root: "server_root e' = server_root e \<Longrightarrow> snapshot_dir e' = snapshot_dir e"
  by (simp add: snapshot_dir_def)

text \<open>The directory stays a directory, or absent, when reading it gives the same.\<close>

lemma not_file_kept:
  assumes "\<not> is_file f p" and "p \<notin> set (faulty f)" and "faulty g = faulty f" and "fs_read g p = fs_read f p"
  shows "\<not> is_file g p"
  using assms by (auto simp: is_file_def fs_read_def split: option.splits node.splits if_splits)

lemma healthy_dir: "healthy C content e \<Longrightarrow> is_dir (disk e) (snapshot_dir e) \<or> \<not> fs_exists (disk e) (snapshot_dir e)"
  by (auto simp: healthy_def is_dir_def is_file_def fs_exists_def split: option.splits node.splits)

section \<open>Steps that keep a server healthy\<close>

text \<open>Steps that leave the store as it is and change no file of it.\<close>

lemma healthy_beside:
  assumes h: "healthy C content e" and inv: "engine_inv C content e'" and st: "obj_store e' = obj_store e" "server_root e' = server_root e"
    and o: "only_files P (disk e) (disk e')" and P: "\<And>q. q \<in> P \<Longrightarrow> \<exists>n. q = snapshot_dir e @ [n]"
  shows "healthy C content e'"
proof -
  have placed: "placed e" and d: "durable (obj_store e) (disk e)" and lay: "layout (obj_store e)"
    using h by (simp_all add: healthy_def engine_inv_def data_inv_def faithful_def store_invD(1))
  have "fs_node (disk e') q = fs_node (disk e) q" if "below (objects_dir (obj_store e)) q \<or> below (packfile_dir (obj_store e)) q" for q
  proof -
    have "\<not> outside (obj_store e) q" using that by (auto simp: outside_def)
    then have "q \<notin> P" using P outside_snapshots [OF placed] by blast
    then show ?thesis using o by (simp add: only_files_def)
  qed
  then have "durable (obj_store e') (disk e')"
    unfolding st by (intro durable_elsewhere [OF d lay]) (use o in \<open>simp_all add: only_files_def\<close>)
  moreover have "snapshot_dir e \<notin> P" using P by fastforce
  then have "fs_node (disk e') (snapshot_dir e) = fs_node (disk e) (snapshot_dir e)" "faulty (disk e') = faulty (disk e)"
    using o by (simp_all add: only_files_def)
  ultimately show ?thesis
    using h inv by (simp add: healthy_def placed_def st snapshot_dir_root [OF st(2)] is_file_def)
qed

lemma healthy_restart:
  assumes h: "healthy (pl_crates P) content e" and same: "same_server P a cfg e"
  obtains e' where "start_engine P a (disk e) = (Inr e', disk e')" "healthy (pl_crates P) content e'"
    "recoverable (pl_crates P) e' = recoverable (pl_crates P) e"
proof -
  have hd: "engine_inv (pl_crates P) content e" "placed e" "durable (obj_store e) (disk e)" "snapshot_dir e \<notin> set (faulty (disk e))"
    "\<not> is_file (disk e) (snapshot_dir e)" using h by (simp_all add: healthy_def)
  obtain e' where e': "start_engine P a (disk e) = (Inr e', disk e')" "engine_inv (pl_crates P) content e'" "placed e'"
    "durable (obj_store e') (disk e')" "recoverable (pl_crates P) e' = recoverable (pl_crates P) e" "index_db e' = index_db e"
    "config e' = cfg" "server_root e' = server_root e"
    "is_dir (disk e) (snapshot_dir e) \<longrightarrow> (\<exists>ns. set ns = {n. fs_exists (disk e) (snapshot_dir e @ [n])} \<and>
       snapshots e' = sort_by_time (read_manifests (cr_index (pl_crates P)) (disk e') (snapshot_dir e) ns))"
    "\<forall>q. below (server_root e @ [''.obsidian'', ''store'']) q \<longrightarrow> fs_node (disk e') q = fs_node (disk e) q"
    "faulty (disk e') = faulty (disk e)"
    by (rule start_engine_again [OF hd(1-3) same healthy_dir [OF h] hd(4)])
  have "below (server_root e @ [''.obsidian'', ''store'']) (snapshot_dir e)"
    by (simp add: snapshot_dir_path below_iff)
  then have "is_file (disk e') (snapshot_dir e) = is_file (disk e) (snapshot_dir e)" using e'(10) by (simp add: is_file_def)
  with e' hd(4,5) have "healthy (pl_crates P) content e'"
    by (simp add: healthy_def snapshot_dir_root [OF e'(8)])
  with that e'(1,5) show ?thesis by blast
qed

text \<open>File tasks of a backup.\<close>

lemma healthy_tasks:
  assumes laws: "rs_laws (cr_libs C)" "hash_laws (cr_libs C)" "name_laws (cr_libs C)" and h: "healthy C content e"
    and tasks: "tasks_ok C v content ts e" "distinct (map (\<lambda>(i, fe). rel_of e fe) ts)" "\<forall>(i, fe) \<in> set ts. outside (obj_store e) (fe_path fe)"
    and run: "run_tasks C v ts e = Some (rs, e')"
  shows "healthy C content e'" and "files_stored C content (map (\<lambda>(i, fe). file_content e fe) ts) e e'"
proof -
  have inv: "engine_inv C content e" and placed: "placed e" using h by (simp_all add: healthy_def)
  from run_tasks_stores [OF laws(1) inv tasks(1-3)] run
  show st: "files_stored C content (map (\<lambda>(i, fe). file_content e fe) ts) e e'" by auto
  have "data_only e e'" by (rule run_tasks_data [OF run])
  then have root: "server_root e' = server_root e" by (auto simp: data_only_def)
  from run_tasks_kept [OF laws inv tasks(1) run] h have d: "durable (obj_store e') (disk e')" "grows (disk e) (disk e')"
    by (simp_all add: store_kept_def healthy_def)
  have "fs_read (disk e') (snapshot_dir e) = fs_read (disk e) (snapshot_dir e)"
    using files_storedD(4) [OF st outside_snapshots [OF placed, of "[]"]] by simp
  then have "\<not> is_file (disk e') (snapshot_dir e)"
    by (rule not_file_kept [rotated 3]) (use h d(2) in \<open>simp_all add: healthy_def grows_def\<close>)
  then show "healthy C content e'"
    using files_storedD(5-7) [OF st] h d by (simp add: healthy_def placed_def root grows_def snapshot_dir_root [OF root])
qed

lemma healthy_index:
  assumes h: "healthy C content e" and ok: "index_ok (cr_index C) (index_db e')"
    and files: "st_files (abs_index (cr_index C) (index_db e')) = st_files (abs_index (cr_index C) (index_db e))"
    and known: "\<And>h. st_known (abs_index (cr_index C) (index_db e')) h \<Longrightarrow> st_known (abs_index (cr_index C) (index_db e)) h"
    and same: "obj_store e' = obj_store e" "disk e' = disk e" "server_root e' = server_root e"
  shows "healthy C content e'" and "recoverable C e' p b = recoverable C e p b"
proof -
  have inv: "engine_inv C content e" using h by (simp add: healthy_def)
  show "recoverable C e' p b = recoverable C e p b"
    by (rule engine_keeps(2) [OF inv ok files known same(1)]) (simp_all add: same(2))
  have "engine_inv C content e'"
    by (rule engine_keeps(1) [OF inv ok files known same(1)]) (simp_all add: same(2))
  then show "healthy C content e'"
    using h by (simp add: healthy_def placed_def same snapshot_dir_root [OF same(3)])
qed

lemma healthy_disk:
  assumes h: "healthy C content e" and same: "index_db e' = index_db e" "obj_store e' = obj_store e" "server_root e' = server_root e"
    and g: "grows (disk e) (disk e')" and f: "\<not> is_file (disk e') (snapshot_dir e)"
    and node: "\<And>q. below (objects_dir (obj_store e)) q \<or> below (packfile_dir (obj_store e)) q \<Longrightarrow> fs_node (disk e') q = fs_node (disk e) q"
  shows "healthy C content e'" and "recoverable C e' = recoverable C e"
proof -
  have inv: "engine_inv C content e" and d: "durable (obj_store e) (disk e)" and lay: "layout (obj_store e)"
    and ok: "index_ok (cr_index C) (index_db e)"
    using h by (simp_all add: healthy_def engine_inv_def data_inv_def faithful_def store_invD(1))
  have inside: "fs_read (disk e') q = fs_read (disk e) q" if "\<not> outside (obj_store e) q" for q
    by (rule fs_read_same) (use node that g in \<open>auto simp: outside_def grows_def\<close>)
  have k: "engine_inv C content e'" "recoverable C e' p b = recoverable C e p b" for p b
    using engine_keeps [OF inv _ _ _ same(2) inside] ok by (simp_all add: same(1))
  then show "recoverable C e' = recoverable C e" by (simp add: fun_eq_iff)
  have "durable (obj_store e') (disk e')"
    unfolding same(2) by (rule durable_elsewhere [OF d lay _ _ node]) (use g in \<open>auto simp: grows_def\<close>)
  then show "healthy C content e'"
    using h k(1) g f by (simp add: healthy_def placed_def same(2,3) snapshot_dir_root [OF same(3)] grows_def)
qed

text \<open>Steps on the server at \<open>R\<close> that keep it healthy and its files recoverable, whether they succeed or not.\<close>

definition keeps :: "'db crates \<Rightarrow> (string \<Rightarrow> bytes) \<Rightarrow> path \<Rightarrow> ('db engine, 'a) step \<Rightarrow> bool" where
  "keeps C content R m = (\<forall>e. healthy C content e \<longrightarrow> server_root e = R \<longrightarrow>
     healthy C content (snd (m e)) \<and> server_root (snd (m e)) = R \<and> recoverable C (snd (m e)) = recoverable C e)"

lemma keepsD:
  assumes "keeps C content R m" and "healthy C content e" and "server_root e = R"
  shows "healthy C content (snd (m e))" and "server_root (snd (m e)) = R" and "recoverable C (snd (m e)) = recoverable C e"
  using assms unfolding keeps_def by blast+

lemma keeps_bindS:
  assumes "keeps C content R m" and "\<And>x. keeps C content R (k x)" shows "keeps C content R (bindS m k)"
  unfolding keeps_def
proof (intro allI impI)
  fix e assume e: "healthy C content e" "server_root e = R"
  obtain r e1 where m: "m e = (r, e1)" by fastforce
  note 1 = keepsD [OF assms(1) e, unfolded m snd_conv]
  show "healthy C content (snd (bindS m k e)) \<and> server_root (snd (bindS m k e)) = R \<and> recoverable C (snd (bindS m k e)) = recoverable C e"
    using 1 keepsD [OF assms(2) 1(1,2)] by (cases r) (simp_all add: bindS_def m)
qed

lemma keeps_pure: "keeps C content R (liftS x)" "keeps C content R (returnS y)" "keeps C content R (failS z)"
  by (simp_all add: keeps_def liftS_def returnS_def failS_def)

lemma keeps_upd:
  assumes "\<And>e. index_db (g e) = index_db e \<and> obj_store (g e) = obj_store e \<and> disk (g e) = disk e \<and> server_root (g e) = server_root e"
  shows "keeps C content R (upd g)"
proof -
  have "recoverable C (g e) = recoverable C e" for e by (rule recoverable_cong) (use assms [of e] in simp_all)
  moreover have "healthy C content (g e) = healthy C content e" for e by (rule healthy_cong) (use assms [of e] in simp_all)
  ultimately show ?thesis using assms by (simp add: keeps_def upd_def)
qed

definition index_keeps :: "'db index_libs \<Rightarrow> ('db, 'a) step \<Rightarrow> bool" where
  "index_keeps L m = (\<forall>db. index_ok L db \<longrightarrow> index_ok L (snd (m db)) \<and>
     st_files (abs_index L (snd (m db))) = st_files (abs_index L db) \<and>
     (\<forall>h. st_known (abs_index L (snd (m db))) h \<longrightarrow> st_known (abs_index L db) h))"

lemma keeps_db:
  assumes "index_keeps (cr_index C) m" and "healthy C content e" and "index_db e' = snd (m (index_db e))"
    and "obj_store e' = obj_store e" "disk e' = disk e" "server_root e' = server_root e"
  shows "healthy C content e'" and "recoverable C e' = recoverable C e"
proof -
  have "index_ok (cr_index C) (index_db e)" using assms(2) by (simp add: healthy_def engine_inv_def data_inv_def)
  with assms(1) have k: "index_ok (cr_index C) (index_db e')"
    "st_files (abs_index (cr_index C) (index_db e')) = st_files (abs_index (cr_index C) (index_db e))"
    "st_known (abs_index (cr_index C) (index_db e')) h \<Longrightarrow> st_known (abs_index (cr_index C) (index_db e)) h" for h
    unfolding index_keeps_def assms(3) by blast+
  show "healthy C content e'" "recoverable C e' = recoverable C e"
    using healthy_index [OF assms(2) k assms(4-6)] by (simp_all add: fun_eq_iff)
qed

lemma keeps_index: "index_keeps (cr_index C) m \<Longrightarrow> keeps C content R (on_index m)"
  by (auto simp: keeps_def on_index_def split_beta intro: keeps_db keeps_db(2) [THEN fun_cong])

lemma keeps_on_tx:
  fixes m :: "('db tx_manager, 'a) step"
  assumes "\<And>ts. index_keeps (cr_index C) (\<lambda>db. (Inr (), tm_db (snd (m \<lparr>tm_db = db, transient_objects = ts\<rparr>))))"
  shows "keeps C content R (on_tx m)"
  unfolding keeps_def
proof (intro allI impI)
  fix e :: "'db engine" assume e: "healthy C content e" "server_root e = R"
  have "index_db (snd (on_tx m e)) = snd ((\<lambda>db. (Inr (), tm_db (snd (m \<lparr>tm_db = db, transient_objects = transients e\<rparr>)))) (index_db e))"
    "obj_store (snd (on_tx m e)) = obj_store e" "disk (snd (on_tx m e)) = disk e" "server_root (snd (on_tx m e)) = server_root e"
    by (simp_all add: on_tx_def split_beta)
  from keeps_db [OF assms e(1) this] e(2) this(4)
  show "healthy C content (snd (on_tx m e)) \<and> server_root (snd (on_tx m e)) = R \<and> recoverable C (snd (on_tx m e)) = recoverable C e"
    by simp
qed

lemma refines_keeps:
  assumes "\<And>db. index_ok L db \<Longrightarrow> refines L m () g db"
    and "\<And>a. st_files (g a) = st_files a" "\<And>a. st_known (g a) = st_known a"
  shows "index_keeps L m"
  unfolding index_keeps_def
proof (intro allI impI)
  fix db assume "index_ok L db"
  from refinesE [OF assms(1) [OF this]] obtain db' where "m db = (Inr (), db')" "index_ok L db'" "abs_index L db' = g (abs_index L db)" .
  then show "index_ok L (snd (m db)) \<and> st_files (abs_index L (snd (m db))) = st_files (abs_index L db) \<and>
      (\<forall>h. st_known (abs_index L (snd (m db))) h \<longrightarrow> st_known (abs_index L db) h)"
    by (simp add: assms(2,3))
qed

text \<open>The steps of the transactions.\<close>

lemma keeps_commit_tx: "keeps C content R (on_tx (commit (cr_index C) True tx))"
proof (rule keeps_on_tx)
  fix ts
  have k: "index_keeps (cr_index C) (flush_wal (cr_index C))" by (rule refines_keeps [OF flush_wal_refines]) simp_all
  have "tm_db (snd (commit (cr_index C) True tx \<lparr>tm_db = db, transient_objects = ts\<rparr>)) = snd (flush_wal (cr_index C) db)" for db
    by (simp add: commit_def clear_transients_def split: prod.split sum.split)
  with k show "index_keeps (cr_index C) (\<lambda>db. (Inr (), tm_db (snd (commit (cr_index C) True tx \<lparr>tm_db = db, transient_objects = ts\<rparr>))))"
    by (simp add: index_keeps_def)
qed

lemma release_all_chunks: "release_all L xs db = release_chunks L (map chunk_hash xs) db"
  by (induction xs arbitrary: db) simp_all

lemma keeps_rollback: "keeps C content R (on_tx (rollback_tx (cr_index C) True tx))"
  by (rule keeps_on_tx)
    (use release_chunks_effect [of "cr_index C"] in \<open>simp add: index_keeps_def rollback_tx_def clear_transients_def release_all_chunks\<close>)

text \<open>The steps in the directory of the snapshots.\<close>

lemma keeps_disk:
  assumes "\<And>e. healthy C content e \<Longrightarrow> server_root e = R \<Longrightarrow> grows (disk e) (snd (m (disk e))) \<and>
      is_file (snd (m (disk e))) (snapshot_dir e) = is_file (disk e) (snapshot_dir e) \<and>
      (\<forall>q. below (objects_dir (obj_store e)) q \<or> below (packfile_dir (obj_store e)) q \<longrightarrow> fs_node (snd (m (disk e))) q = fs_node (disk e) q)"
  shows "keeps C content R (on_disk m)"
  unfolding keeps_def
proof (intro allI impI)
  fix e assume e: "healthy C content e" "server_root e = R"
  let ?e = "snd (on_disk m e)"
  have f: "index_db ?e = index_db e" "obj_store ?e = obj_store e" "server_root ?e = server_root e" "disk ?e = snd (m (disk e))"
    by (simp_all add: on_disk_def split_beta)
  have "\<not> is_file (disk ?e) (snapshot_dir e)" using e(1) assms [OF e] by (simp add: healthy_def f(4))
  from healthy_disk [OF e(1) f(1-3) _ this] assms [OF e] e(2)
  show "healthy C content ?e \<and> server_root ?e = R \<and> recoverable C ?e = recoverable C e" by (simp add: f)
qed

lemma store_apart:
  assumes "placed e" and "below (objects_dir (obj_store e)) q \<or> below (packfile_dir (obj_store e)) q"
  shows "q \<noteq> snapshot_dir e @ t" and "\<not> below q (snapshot_dir e)"
proof -
  have "\<not> outside (obj_store e) q" using assms(2) by (auto simp: outside_def)
  then show "q \<noteq> snapshot_dir e @ t" using outside_snapshots [OF assms(1)] by blast
  show "\<not> below q (snapshot_dir e)" using assms by (auto simp: below_iff placed_def snapshot_dir_path)
qed

lemma keeps_write:
  assumes "\<And>e :: 'db engine. server_root e = R \<Longrightarrow> p = snapshot_dir e @ [n]"
  shows "keeps (C :: 'db crates) content R (on_disk (fs_write p b))"
proof (rule keeps_disk)
  fix e :: "'db engine" assume e: "healthy C content e" "server_root e = R"
  have placed: "placed e" using e(1) by (simp add: healthy_def)
  have o: "only_files {p} (disk e) (snd (fs_write p b (disk e)))"
  proof (cases "fst (fs_write p b (disk e))")
    case (Inr u)
    then have "fs_write p b (disk e) = (Inr (), snd (fs_write p b (disk e)))" by (simp add: prod_eq_iff)
    then show ?thesis by (rule only_files_write)
  qed (auto simp: fs_write_def split: if_splits)
  have "q \<noteq> p" if "below (objects_dir (obj_store e)) q \<or> below (packfile_dir (obj_store e)) q" for q
    using store_apart(1) [OF placed that] assms [OF e(2)] by blast
  moreover have "snapshot_dir e \<noteq> p" by (simp add: assms [OF e(2)])
  ultimately show "grows (disk e) (snd (fs_write p b (disk e))) \<and>
      is_file (snd (fs_write p b (disk e))) (snapshot_dir e) = is_file (disk e) (snapshot_dir e) \<and>
      (\<forall>q. below (objects_dir (obj_store e)) q \<or> below (packfile_dir (obj_store e)) q \<longrightarrow>
         fs_node (snd (fs_write p b (disk e))) q = fs_node (disk e) q)"
    using o only_files_grows [OF o] by (simp add: only_files_def is_file_def)
qed

lemma keeps_create:
  assumes "\<And>e :: 'db engine. server_root e = R \<Longrightarrow> p = snapshot_dir e"
  shows "keeps (C :: 'db crates) content R (on_disk (create_dir_all p))"
proof (rule keeps_disk)
  fix e :: "'db engine" assume e: "healthy C content e" "server_root e = R"
  have placed: "placed e" using e(1) by (simp add: healthy_def)
  obtain r g where c: "create_dir_all p (disk e) = (r, g)" by fastforce
  have "is_file h q \<longleftrightarrow> (\<exists>b. fs_node h q = Some (File b))" for h q
    by (auto simp: is_file_def split: option.split node.split)
  then have "is_file g q = is_file (disk e) q" for q using create_dir_all_frame [OF c] by simp
  moreover have "fs_node g q = fs_node (disk e) q" if "below (objects_dir (obj_store e)) q \<or> below (packfile_dir (obj_store e)) q" for q
    using create_dir_all_node [OF c, of q] store_apart(2) [OF placed that] assms [OF e(2)] by simp
  ultimately show "grows (disk e) (snd (create_dir_all p (disk e))) \<and>
      is_file (snd (create_dir_all p (disk e))) (snapshot_dir e) = is_file (disk e) (snapshot_dir e) \<and>
      (\<forall>q. below (objects_dir (obj_store e)) q \<or> below (packfile_dir (obj_store e)) q \<longrightarrow>
         fs_node (snd (create_dir_all p (disk e))) q = fs_node (disk e) q)"
    using create_dir_all_grows [OF c] by (simp add: c)
qed

section \<open>The operations\<close>

lemma keeps_abort: "keeps C content R (abort_backup C tx)"
  unfolding abort_backup_def by (intro keeps_bindS keeps_rollback keeps_upd keeps_pure) (simp add: set_state_def)

lemma keeps_empty: "keeps C content R (finish_empty C v tx)"
  unfolding finish_empty_def by (intro keeps_bindS keeps_commit_tx keeps_upd keeps_pure) (simp add: set_state_def)

lemma keeps_pin:
  fixes C :: "'db crates"
  assumes "CHR ''/'' \<notin> set i" shows "keeps C content R (pin_snapshot C v i days)"
  unfolding keeps_def
proof (intro allI impI)
  fix e :: "'db engine" assume e: "healthy C content e" "server_root e = R"
  have w: "child (snapshot_dir e) (i @ ''.pin'') = snapshot_dir e @ [i @ ''.pin'']" using assms by (simp add: child_name)
  have dir: "server_root e' = R \<Longrightarrow> snapshot_dir e' = snapshot_dir e" for e' :: "'db engine" by (simp add: snapshot_dir_def e(2))
  have k: "keeps C content R (on_disk (fs_write (child (snapshot_dir e) (i @ ''.pin'')) b))" for b
    by (intro keeps_write [where n = "i @ ''.pin''"]) (simp only: dir w)
  have "keeps C content R (bindS (liftS (json_pretty (cr_index C) (pin_json v i days x))) (\<lambda>s.
      on_disk (fs_write (child (snapshot_dir e) (i @ ''.pin'')) (bytes_of s))))" for x
    by (intro keeps_bindS keeps_pure k)
  from keepsD [OF this e] e
  show "healthy C content (snd (pin_snapshot C v i days e)) \<and> server_root (snd (pin_snapshot C v i days e)) = R \<and>
      recoverable C (snd (pin_snapshot C v i days e)) = recoverable C e"
    by (simp add: pin_snapshot_def split: option.split)
qed

text \<open>The steps of a commit on the disk and in the index, for the manifest \<open>s\<close>.\<close>

definition commit_steps ::
  "'db crates \<Rightarrow> env \<Rightarrow> transaction \<Rightarrow> tally \<Rightarrow> string \<Rightarrow> 'db engine \<Rightarrow> ('db engine, unit) step list" where
  "commit_steps C v tx t s e =
     (let i = ''snap_'' @ uuid8 v; dir = snapshot_dir e in
      [on_disk (create_dir_all dir),
       on_disk (fs_write (child dir (i @ ''.json'')) (bytes_of s)),
       (case signer e of None \<Rightarrow> returnS ()
        | Some sg \<Rightarrow> on_disk (fs_write (child dir (i @ ''.sig'')) (bytes_of (sign (cr_sign C) sg (bytes_of s))))),
       on_index (insert_snapshot_files (cr_index C) i (all_file_paths t)),
       on_tx (commit (cr_index C) True tx)])"

lemma bindS_assoc: "bindS (bindS m k) l = bindS m (\<lambda>x. bindS (k x) l)"
  by (rule ext) (simp add: bindS_def split: prod.split sum.split)

lemma commit_in_steps:
  assumes "json_pretty (cr_index C) (manifest_of e v tag n t) = Inr s"
  shows "commit_backup C v tx tag n t e = bindS (for_each id (commit_steps C v tx t s e)) (\<lambda>_.
      bindS (upd (\<lambda>e. e\<lparr>snapshots := snapshots e @ [\<lparr>si_id = ''snap_'' @ uuid8 v, si_timestamp = now v, si_tag = tag,
               si_files_scanned = of_nat n, si_bytes_processed = t_bytes t,
               si_chunks_total = t_chunks t, si_chunks_deduped = t_deduped t\<rparr>]\<rparr>)) (\<lambda>_.
      bindS (upd (\<lambda>e. update_storage_stats (set_state ''idle'' None e))) (\<lambda>_. returnS (result_of v n t)))) (update_queues 0 0 0 0 0 e)"
proof -
  let ?q = "update_queues 0 0 0 0 0 e"
  have q: "snapshot_dir ?q = snapshot_dir e" "manifest_of ?q v tag n t = manifest_of e v tag n t"
    by (simp_all add: snapshot_dir_def manifest_of_def)
  have lift: "bindS (liftS (Inr x)) k = k x" for x :: string and k by (rule ext) (simp add: liftS_def bindS_def)
  have ret: "bindS (returnS ()) k = k ()" for k by (rule ext) (simp add: returnS_def bindS_def)
  show ?thesis
    unfolding commit_backup_def commit_steps_def Let_def q assms lift update_queues_fields
    by (simp add: bindS_assoc ret)
qed

lemma keeps_commit_steps:
  fixes e :: "'db engine"
  assumes R: "server_root e = R" and uuid: "CHR ''/'' \<notin> set (uuid8 v)" and m: "m \<in> set (commit_steps C v tx t s e)"
  shows "keeps C content R m"
proof -
  let ?i = "''snap_'' @ uuid8 v"
  have dir: "server_root e' = R \<Longrightarrow> snapshot_dir e' = snapshot_dir e" for e' :: "'db engine" by (simp add: snapshot_dir_def R)
  have w: "child (snapshot_dir e) (?i @ x) = snapshot_dir e @ [?i @ x]" if "CHR ''/'' \<notin> set x" for x
    using uuid that by (intro child_name) auto
  have 1: "keeps C content R (on_disk (create_dir_all (snapshot_dir e)))" by (rule keeps_create) (simp only: dir)
  have 2: "keeps C content R (on_disk (fs_write (child (snapshot_dir e) (?i @ x)) b))" if "CHR ''/'' \<notin> set x" for x b
    by (rule keeps_write [where n = "?i @ x"]) (simp only: dir w [OF that])
  have 3: "keeps C content R (on_index (insert_snapshot_files (cr_index C) ?i fs))" for fs
    by (rule keeps_index [OF refines_keeps [OF insert_snapshot_files_refines]]) (simp_all add: set_snap_def)
  show ?thesis
    using m 1 2 [of "''.json''"] 2 [of "''.sig''"] 3 keeps_commit_tx [of C content R tx] keeps_pure(2) [of C content R "()"]
    by (auto simp: commit_steps_def Let_def split: option.splits)
qed

lemma keeps_for_each: "(\<And>m. m \<in> set ms \<Longrightarrow> keeps C content R m) \<Longrightarrow> keeps C content R (for_each id ms)"
  by (induction ms) (simp_all add: keeps_pure keeps_bindS)

lemma processing_fields [simp]:
  "index_db (processing v e) = index_db e" "obj_store (processing v e) = obj_store e" "disk (processing v e) = disk e"
  "server_root (processing v e) = server_root e" "active_transaction (processing v e) = Some (begun v)"
  by (simp_all add: processing_def)

lemma healthy_processing: "healthy C content (processing v e) = healthy C content e"
  by (rule healthy_cong) simp_all

lemma recoverable_processing: "recoverable C (processing v e) = recoverable C e"
  by (rule recoverable_cong) simp_all

lemma file_content_processing: "file_content (processing v e) = file_content e"
  by (simp add: file_content_def rel_of_def fun_eq_iff)

text \<open>The tasks of some of the files.\<close>

definition tasks_for :: "nat list \<Rightarrow> file_entry list \<Rightarrow> (nat \<times> file_entry) list" where
  "tasks_for js files = map (\<lambda>j. (j, files ! j)) js"

definition task_contents :: "'db engine \<Rightarrow> (nat \<times> file_entry) list \<Rightarrow> (string \<times> bytes) list" where
  "task_contents e ts = map (\<lambda>(j, fe). file_content e fe) ts"

lemma healthy_some_tasks:
  assumes laws: "rs_laws (cr_libs C)" "hash_laws (cr_libs C)" "name_laws (cr_libs C)" and h: "healthy C content e"
    and files: "files_to_back_up C incremental e = Some files" "distinct (map (rel_of e) files)"
    and js: "distinct js" "set js \<subseteq> {..<length files}" and tasks: "tasks_ok C v content (tasks_for js files) (processing v e)"
    and run: "run_tasks C v (tasks_for js files) (processing v e) = Some (rs, e')"
  shows "healthy C content e'" and "\<forall>(p, b) \<in> set (task_contents e (tasks_for js files)). recoverable C e' p b"
    and "p \<notin> fst ` set (task_contents e (tasks_for js files)) \<Longrightarrow> recoverable C e p b \<Longrightarrow> recoverable C e' p b"
proof -
  let ?p = "processing v e"
  have placed: "placed e" using h by (simp add: healthy_def)
  have rel: "rel_of ?p = rel_of e" by (simp add: rel_of_def fun_eq_iff)
  have "inj_on (\<lambda>j. rel_of e (files ! j)) (set js)"
    using files(2) js(2) by (auto simp: inj_on_def distinct_conv_nth)
  then have d: "distinct (map (\<lambda>(j, fe). rel_of ?p fe) (tasks_for js files))"
    using js(1) by (simp add: tasks_for_def rel comp_def distinct_map)
  have "outside (obj_store e) (fe_path fe)" if "fe \<in> set files" for fe
    by (rule scan_outside [OF files(1) [unfolded files_to_back_up_def] that placed])
  then have out: "\<forall>(j, fe) \<in> set (tasks_for js files). outside (obj_store ?p) (fe_path fe)"
    using js(2) by (auto simp: tasks_for_def)
  have hp: "healthy C content ?p" using h by (simp add: healthy_processing)
  note t = healthy_tasks [OF laws hp tasks d out run]
  show "healthy C content e'" by (rule t(1))
  note st = t(2) [unfolded file_content_processing, folded task_contents_def]
  show "\<forall>(p, b) \<in> set (task_contents e (tasks_for js files)). recoverable C e' p b"
    using files_storedD(1) [OF st] by blast
  show "p \<notin> fst ` set (task_contents e (tasks_for js files)) \<Longrightarrow> recoverable C e p b \<Longrightarrow> recoverable C e' p b"
    using files_storedD(2) [OF st] by (simp only: recoverable_processing)
qed

text \<open>The commit, whether it succeeds or fails.\<close>

lemma healthy_commit:
  assumes h: "healthy C content e" and uuid: "CHR ''/'' \<notin> set (uuid8 v)" and run: "commit_backup C v tx tag n t e = (r, e')"
  shows "healthy C content e'" and "recoverable C e' = recoverable C e"
proof -
  let ?q = "update_queues 0 0 0 0 0 e" and ?R = "server_root e"
  have q: "healthy C content ?q" "server_root ?q = ?R" "recoverable C ?q = recoverable C e"
    using h by (simp_all add: healthy_cong [of ?q e] recoverable_cong [of ?q e])
  have dir: "snapshot_dir ?q = snapshot_dir e" "manifest_of ?q v tag n t = manifest_of e v tag n t"
    by (simp_all add: snapshot_dir_def manifest_of_def)
  have "healthy C content e' \<and> recoverable C e' = recoverable C ?q"
  proof (cases "json_pretty (cr_index C) (manifest_of e v tag n t)")
    case (Inl x)
    have "on_disk (create_dir_all (snapshot_dir e)) \<in> set (commit_steps C v tx t s e)" for s
      by (simp add: commit_steps_def Let_def)
    from keeps_commit_steps [OF refl uuid this] keepsD [OF _ q(1,2)]
    have k: "healthy C content (snd (on_disk (create_dir_all (snapshot_dir e)) ?q))"
      "recoverable C (snd (on_disk (create_dir_all (snapshot_dir e)) ?q)) = recoverable C ?q" by blast+
    have "e' = snd (on_disk (create_dir_all (snapshot_dir e)) ?q)"
      using run by (auto simp: commit_backup_def Let_def dir bindS_def liftS_def Inl split: prod.splits sum.splits)
    with k show ?thesis by simp
  next
    case (Inr s)
    let ?c = "bindS (for_each id (commit_steps C v tx t s e)) (\<lambda>_.
      bindS (upd (\<lambda>e. e\<lparr>snapshots := snapshots e @ [\<lparr>si_id = ''snap_'' @ uuid8 v, si_timestamp = now v, si_tag = tag,
               si_files_scanned = of_nat n, si_bytes_processed = t_bytes t,
               si_chunks_total = t_chunks t, si_chunks_deduped = t_deduped t\<rparr>]\<rparr>)) (\<lambda>_.
      bindS (upd (\<lambda>e. update_storage_stats (set_state ''idle'' None e))) (\<lambda>_. returnS (result_of v n t))))"
    have k: "keeps C content ?R ?c"
      by (intro keeps_bindS keeps_for_each keeps_commit_steps [OF refl uuid] keeps_upd keeps_pure)
        (auto simp: update_storage_stats_def set_state_def)
    have c: "?c ?q = (r, e')" unfolding commit_in_steps [OF Inr, symmetric] by (rule run)
    show ?thesis using keepsD(1,3) [OF k q(1,2), unfolded c snd_conv] by simp
  qed
  then show "healthy C content e'" "recoverable C e' = recoverable C e" using q(3) by simp_all
qed

section \<open>Crashes\<close>

text \<open>Where a backup is when its process dies: between two file tasks; in a file task, after \<open>m\<close> chunks
  of the file; or in the commit of the manifest \<open>s\<close>, after \<open>m\<close> steps of it.\<close>

datatype death = Between_Tasks | In_File file_entry nat | In_Commit tally string nat

definition dies :: "'db crates \<Rightarrow> env \<Rightarrow> death \<Rightarrow> 'db engine \<Rightarrow> 'db engine" where
  "dies C v d e = (case d of
     Between_Tasks \<Rightarrow> e
   | In_File fe m \<Rightarrow>
      (case fs_read (disk e) (fe_path fe) of
         Inl x \<Rightarrow> e
       | Inr b \<Rightarrow> close_ctx (snd (deliver (record_chunk (cr_libs C) (cr_index C) (rel_of e fe))
           (take m (file_chunk_list (cr_libs C) (reads v b))) (open_ctx e))) e)
   | In_Commit t s m \<Rightarrow> snd (for_each id (take m (commit_steps C v (begun v) t s e)) (update_queues 0 0 0 0 0 e)))"

lemma all_along_take: "all_along P f xs s \<Longrightarrow> all_along P f (take m xs) s"
  by (induction P f xs s arbitrary: m rule: all_along.induct) (simp_all add: take_Cons split: nat.split)

lemma healthy_in_file:
  assumes laws: "rs_laws (cr_libs C)" "hash_laws (cr_libs C)" "name_laws (cr_libs C)" and h: "healthy C content e"
    and ok: "file_ok C v content fe e"
  shows "healthy C content (dies C v (In_File fe m) e)" and "recoverable C e p b \<Longrightarrow> recoverable C (dies C v (In_File fe m) e) p b"
proof -
  let ?X = "cr_libs C" and ?L = "cr_index C" and ?r = "record_chunk (cr_libs C) (cr_index C) (rel_of e fe)" and ?e = "dies C v (In_File fe m) e"
  obtain c where c: "fs_read (disk e) (fe_path fe) = Inr c" using file_ok_read [OF ok] by blast
  define cks where "cks = take m (file_chunk_list ?X (reads v c))"
  have ck: "reader_ok (reads v c)" "\<forall>ck \<in> set cks. content (ck_hash ck) = ck_data ck"
    "all_along (chunk_fits ?X ?L) ?r cks (open_ctx e)"
    using ok c by (auto simp: file_ok_def Let_def cks_def list_all_iff all_along_take dest: in_set_takeD)
  have names: "\<forall>ck \<in> set cks. hash_name (ck_hash ck)"
    using chunk_reader_file(3) [OF ck(1)] laws(3) by (auto simp: cks_def name_laws_def dest: in_set_takeD)
  have inv: "engine_inv C content e" and placed: "placed e" using h by (simp_all add: healthy_def)
  have d: "data_inv ?L content (cx_db (open_ctx e)) (cx_store (open_ctx e)) (cx_disk (open_ctx e))"
    using inv by (simp add: engine_inv_def open_ctx_def)
  from deliver_chunks [OF laws(1) d ck(3,2)] obtain cx where cx: "deliver ?r cks (open_ctx e) = (Inr (), cx)"
    "ctx_step ?X ?L content (map ck_hash cks) (open_ctx e) cx" by blast
  have "store_kept (cx_store (open_ctx e)) (cx_disk (open_ctx e)) (cx_store cx) (cx_disk cx)"
    by (rule deliver_kept [OF laws(1,2) d ck(3) _ cx(1)]) (use ck(2) names in blast)
  then have k: "durable (obj_store e) (disk e) \<longrightarrow> durable (cx_store cx) (cx_disk cx)" "grows (disk e) (cx_disk cx)"
    by (simp_all add: store_kept_def open_ctx_def)
  have e': "?e = close_ctx cx e" by (simp add: dies_def c cx(1) flip: cks_def)
  have f: "index_db ?e = cx_db cx" "obj_store ?e = cx_store cx" "disk ?e = cx_disk cx" "server_root ?e = server_root e"
    by (simp_all add: e' close_ctx_def)
  note st = cx(2) [unfolded ctx_step_def open_ctx_def, simplified]
  have inv': "engine_inv C content ?e" using st by (simp add: engine_inv_def f)
  have "fs_read (cx_disk cx) (snapshot_dir e) = fs_read (disk e) (snapshot_dir e)"
    using st outside_snapshots [OF placed, of "[]"] by simp
  then have "\<not> is_file (cx_disk cx) (snapshot_dir e)"
    by (rule not_file_kept [rotated 3]) (use h k(2) in \<open>simp_all add: healthy_def grows_def\<close>)
  then show "healthy C content ?e"
    using h k st inv' by (simp add: healthy_def placed_def f grows_def snapshot_dir_root [OF f(4)])
  have "get_file_chunks ?L p (index_db ?e) = get_file_chunks ?L p (index_db e)"
    using st inv inv' get_file_chunks_ok [of ?L "index_db e" p] get_file_chunks_ok [of ?L "index_db ?e" p]
    by (simp add: engine_inv_def data_inv_def f)
  then show "recoverable C ?e p b" if "recoverable C e p b"
    using that inv inv' st gather_keep [of content "obj_store e" "disk e" "obj_store ?e" "disk ?e"]
    by (simp add: recoverable_def engine_inv_def data_inv_def f split: sum.splits)
qed

lemma healthy_death:
  assumes laws: "rs_laws (cr_libs C)" "hash_laws (cr_libs C)" "name_laws (cr_libs C)" and h: "healthy C content e"
    and ok: "\<And>fe m. d = In_File fe m \<Longrightarrow> file_ok C v content fe e" and uuid: "CHR ''/'' \<notin> set (uuid8 v)"
  shows "healthy C content (dies C v d e)" and "recoverable C e p b \<Longrightarrow> recoverable C (dies C v d e) p b"
proof -
  have "healthy C content (dies C v d e) \<and> (recoverable C e p b \<longrightarrow> recoverable C (dies C v d e) p b)"
  proof (cases d)
    case Between_Tasks
    then show ?thesis using h by (simp add: dies_def)
  next
    case (In_File fe m)
    from healthy_in_file [OF laws h ok [OF this], where m = m] show ?thesis unfolding In_File by blast
  next
    case (In_Commit t s m)
    let ?q = "update_queues 0 0 0 0 0 e"
    have q: "healthy C content ?q" "server_root ?q = server_root e" "recoverable C ?q = recoverable C e"
      using h by (simp_all add: healthy_cong [of ?q e] recoverable_cong [of ?q e])
    have "keeps C content (server_root e) (for_each id (take m (commit_steps C v (begun v) t s e)))"
      by (rule keeps_for_each, rule keeps_commit_steps [OF refl uuid]) (erule in_set_takeD)
    from keepsD(1,3) [OF this q(1,2)] q(3) show ?thesis by (simp add: dies_def In_Commit)
  qed
  then show "healthy C content (dies C v d e)" "recoverable C e p b \<Longrightarrow> recoverable C (dies C v d e) p b" by blast+
qed

section \<open>The life of a server\<close>

text \<open>One step, on the engine and the archive together.  The premises of a backup say that no file task is
  stopped (\<open>tasks_ok\<close>) and that the scheduler runs each task once (\<open>fair\<close>); it commits, or fails to, or it
  is cancelled before the file \<open>k\<close> and aborts after the tasks that were started.  A process may die between two
  chunks and between two steps of the commit, whatever it was about to write there.  The clock, the
  identifiers, the scan, the reader and the database that a restart opens are free.\<close>

inductive life ::
  "'db crates \<Rightarrow> 'y yaml_libs \<Rightarrow> (string \<Rightarrow> bytes) \<Rightarrow> 'db engine \<times> (string \<rightharpoonup> bytes) \<Rightarrow> 'db engine \<times> (string \<rightharpoonup> bytes) \<Rightarrow> bool"
  for C :: "'db crates" and Y :: "'y yaml_libs" and content :: "string \<Rightarrow> bytes"
where
  backed_up:
    "files_to_back_up C incremental e = Some files \<Longrightarrow> files \<noteq> [] \<Longrightarrow> distinct (map (rel_of e) files) \<Longrightarrow>
     n = (case cancelled v of None \<Rightarrow> length files | Some k \<Rightarrow> min k (length files)) \<Longrightarrow> fair v n \<Longrightarrow>
     tasks_ok C v content (tasks_for (order v n) files) (processing v e) \<Longrightarrow> CHR ''/'' \<notin> set (uuid8 v) \<Longrightarrow>
     run_backup C v tag incremental e = Some (r, e') \<Longrightarrow>
     life C Y content (e, M) (e', M ++ map_of (task_contents e (tasks_for (order v n) files)))"
| nothing_new:
    "files_to_back_up C incremental e = Some [] \<Longrightarrow> run_backup C v tag incremental e = Some (r, e') \<Longrightarrow>
     life C Y content (e, M) (e', M)"
| process_died:
    "files_to_back_up C incremental e = Some files \<Longrightarrow> distinct (map (rel_of e) files) \<Longrightarrow>
     fair v (length files) \<Longrightarrow> js = take k (order v (length files)) \<Longrightarrow>
     tasks_ok C v content (tasks_for js files) (processing v e) \<Longrightarrow>
     run_tasks C v (tasks_for js files) (processing v e) = Some (rs, e1) \<Longrightarrow>
     \<forall>fe m. d = In_File fe m \<longrightarrow> file_ok C v content fe e1 \<Longrightarrow> CHR ''/'' \<notin> set (uuid8 v) \<Longrightarrow> e2 = dies C v d e1 \<Longrightarrow>
     pl_crates P = C \<Longrightarrow> pl_yaml P = Y \<Longrightarrow> same_server P a cfg e2 \<Longrightarrow> start_engine P a (disk e2) = (Inr e', f) \<Longrightarrow>
     life C Y content (e, M) (e', M ++ map_of (task_contents e (tasks_for js files)))"
| restarted:
    "pl_crates P = C \<Longrightarrow> pl_yaml P = Y \<Longrightarrow> same_server P a cfg e \<Longrightarrow> start_engine P a (disk e) = (Inr e', f) \<Longrightarrow>
     life C Y content (e, M) (e', M)"
| was_pruned:
    "keep < 2 ^ 64 \<Longrightarrow> distinct (map si_id (snapshots e)) \<Longrightarrow> \<forall>s \<in> set (snapshots e). CHR ''/'' \<notin> set (si_id s) \<Longrightarrow>
     prune_snapshots (cr_index C) keep e = (r, e') \<Longrightarrow> life C Y content (e, M) (e', M)"
| was_pinned:
    "CHR ''/'' \<notin> set i \<Longrightarrow> pin_snapshot C v i days e = (r, e') \<Longrightarrow> life C Y content (e, M) (e', M)"

lemma fair_some:
  assumes "fair v n" and "n \<le> m"
  shows "distinct (take k (order v n)) \<and> set (take k (order v n)) \<subseteq> {..<m}" and "distinct (order v n) \<and> set (order v n) \<subseteq> {..<m}"
  using assms set_take_subset [of k "order v n"] by (auto simp: fair_def)

lemma process_files_tasks:
  assumes "process_files C v files e = Some (rs, e1)"
  obtains rs0 e0 where "run_tasks C v (tasks_for (order v (case cancelled v of None \<Rightarrow> length files | Some k \<Rightarrow> min k (length files))) files) e = Some (rs0, e0)"
    and "e1 = (if cancelled v = None then e0 else mark_aborted e0)"
  using assms by (auto simp: process_files_def Let_def tasks_for_def)

lemma mark_aborted_fields [simp]:
  "index_db (mark_aborted e) = index_db e" "obj_store (mark_aborted e) = obj_store e" "disk (mark_aborted e) = disk e"
  "server_root (mark_aborted e) = server_root e"
  by (simp_all add: mark_aborted_def)

lemma mark_aborted_same: "healthy C content (mark_aborted e) = healthy C content e" "recoverable C (mark_aborted e) = recoverable C e"
  by (rule healthy_cong recoverable_cong; simp)+

text \<open>A backup, whether it commits or aborts: \<open>js\<close> are the tasks it runs.\<close>

lemma healthy_backup:
  assumes laws: "rs_laws (cr_libs C)" "hash_laws (cr_libs C)" "name_laws (cr_libs C)" and h: "healthy C content e" and M: "archived C e M"
    and files: "files_to_back_up C incremental e = Some files" "files \<noteq> []" "distinct (map (rel_of e) files)"
    and n: "n = (case cancelled v of None \<Rightarrow> length files | Some k \<Rightarrow> min k (length files))" and fair: "fair v n"
    and tasks: "tasks_ok C v content (tasks_for (order v n) files) (processing v e)" and uuid: "CHR ''/'' \<notin> set (uuid8 v)"
    and run: "run_backup C v tag incremental e = Some (r, e')"
  shows "healthy C content e' \<and> archived C e' (M ++ map_of (task_contents e (tasks_for (order v n) files)))"
proof -
  obtain rs e1 where p: "process_files C v files (processing v e) = Some (rs, e1)"
    and c: "(if is_aborted e1 then abort_backup C (begun v) e1
        else commit_backup C v (begun v) tag (length files) (tally_all rs) e1) = (r, e')"
    using run files by (auto simp: run_backup_unfold split: option.splits if_splits)
  obtain rs0 e0 where ts: "run_tasks C v (tasks_for (order v n) files) (processing v e) = Some (rs0, e0)"
    and e1: "e1 = (if cancelled v = None then e0 else mark_aborted e0)"
    unfolding n by (rule process_files_tasks [OF p])
  have "n \<le> length files" by (simp add: n split: option.split)
  note js = fair_some(2) [OF fair this]
  note t = healthy_some_tasks [OF laws h files(1,3) conjunct1 [OF js] conjunct2 [OF js] tasks ts]
  have a: "is_aborted e1 \<longleftrightarrow> cancelled v \<noteq> None"
    using data_only_fields [OF run_tasks_data [OF ts]] by (simp add: e1 is_aborted_def mark_aborted_def begun_def)
  have "healthy C content e' \<and> recoverable C e' = recoverable C e0"
  proof (cases "cancelled v")
    case None
    then have "commit_backup C v (begun v) tag (length files) (tally_all rs) e0 = (r, e')" using c a e1 by simp
    from healthy_commit [OF t(1) uuid this] show ?thesis by blast
  next
    case (Some k)
    then have "abort_backup C (begun v) (mark_aborted e0) = (r, e')" using c a e1 by simp
    moreover have "healthy C content (mark_aborted e0)" using t(1) by (simp add: mark_aborted_same)
    ultimately show ?thesis using keepsD(1,3) [OF keeps_abort, of C content "mark_aborted e0", OF _ refl] by (metis mark_aborted_same(2) snd_conv)
  qed
  then show ?thesis using t by (intro conjI archivedI [OF M]) auto
qed

text \<open>One step keeps a server healthy, and its files are those of the archive.\<close>

lemma life_step:
  assumes laws: "rs_laws (cr_libs C)" "hash_laws (cr_libs C)" "name_laws (cr_libs C)"
    and "life C Y content (e, M) (e', M')" and h: "healthy C content e" and M: "archived C e M"
  shows "healthy C content e' \<and> archived C e' M'"
  using assms(4)
proof cases
  case (backed_up incremental files n v tag r)
  show ?thesis unfolding backed_up(1)
    by (rule healthy_backup [OF laws h M backed_up(2-9)])
next
  case (nothing_new incremental v tag r)
  let ?s = "snd (start_backup v e)"
  have "finish_empty C v (begun v) ?s = (r, e')" using nothing_new by (simp add: run_backup_unfold)
  moreover have "healthy C content ?s" "recoverable C ?s = recoverable C e"
    using h by (simp_all add: healthy_cong [of ?s e] recoverable_cong [of ?s e])
  ultimately show ?thesis using keepsD(1,3) [OF keeps_empty, of C content ?s, OF _ refl, of v "begun v"] M nothing_new(1)
    by (simp add: archived_def)
next
  case (process_died incremental files v js k rs e1 d e2 P a cfg f)
  note js = fair_some(1) [OF process_died(4) order_refl, of k, folded process_died(5)]
  note t = healthy_some_tasks [OF laws h process_died(2,3) conjunct1 [OF js] conjunct2 [OF js] process_died(6,7)]
  have ok: "file_ok C v content fe e1" if "d = In_File fe m" for fe m using process_died(8) that by blast
  note w = healthy_death [OF laws t(1) ok process_died(9), of d "\<lambda>fe m. m", simplified, folded process_died(10)]
  obtain e3 where "start_engine P a (disk e2) = (Inr e3, disk e3)" "healthy C content e3" "recoverable C e3 = recoverable C e2"
    by (rule healthy_restart [of P content e2 a cfg]) (use w(1) process_died in auto)
  then have "healthy C content e'" "recoverable C e' = recoverable C e2" using process_died(14) by auto
  then show ?thesis unfolding process_died(1) using t(2,3) w(2) by (intro conjI archivedI [OF M]) auto
next
  case (restarted P a cfg f)
  obtain e2 where "start_engine P a (disk e) = (Inr e2, disk e2)" "healthy C content e2" "recoverable C e2 = recoverable C e"
    by (rule healthy_restart [of P content e a cfg]) (use h restarted in auto)
  then show ?thesis using restarted M by (auto simp: archived_def)
next
  case (was_pruned keep r)
  have e: "engine_inv C content e" "placed e" using h by (simp_all add: healthy_def)
  note p = prune_outcome [OF was_pruned(5) e was_pruned(2-4)]
  have "healthy C content e'" by (rule healthy_beside [OF h p(4,2,3,1)]) auto
  then show ?thesis using M p(5) was_pruned(1) by (simp add: archived_def)
next
  case (was_pinned i v days r)
  with keepsD(1,3) [OF keeps_pin [OF was_pinned(2)] h refl, of v days] M show ?thesis by (simp add: archived_def)
qed

text \<open>C1: the server keeps its archive.  Through any sequence of backups, failed and cancelled ones included,
  crashes between two chunks or two steps of the commit, restarts, prunings and pins, every file can be
  recovered with the content that was last backed up under its name, and at every point a process that
  starts on the disk and the database succeeds and finds it all.\<close>

theorem server_keeps_archive:
  fixes P :: "('db, 'y) platform"
  assumes "rs_laws (cr_libs C)" and "hash_laws (cr_libs C)" and "name_laws (cr_libs C)"
    and "healthy C content e" and "archived C e M" and "(life C Y content)\<^sup>*\<^sup>* (e, M) (e', M')"
  shows "(\<forall>p b. M' p = Some b \<longrightarrow> recoverable C e' p b) \<and>
     (pl_crates P = C \<longrightarrow> same_server P a cfg e' \<longrightarrow>
        (\<exists>e2. start_engine P a (disk e') = (Inr e2, disk e2) \<and> (\<forall>p b. M' p = Some b \<longrightarrow> recoverable C e2 p b)))"
proof -
  have "healthy C content (fst q) \<and> archived C (fst q) (snd q)" if "(life C Y content)\<^sup>*\<^sup>* (e, M) q" for q
    using that
  proof (induction rule: rtranclp_induct)
    case base
    then show ?case using assms(4,5) by simp
  next
    case (step q q')
    then show ?case using life_step [OF assms(1-3), of Y content "fst q" "snd q" "fst q'" "snd q'"] by simp
  qed
  from this [OF assms(6)] have h: "healthy C content e'" and M': "archived C e' M'" by simp_all
  show ?thesis
  proof (intro conjI impI)
    show "\<forall>p b. M' p = Some b \<longrightarrow> recoverable C e' p b" using M' by (simp add: archived_def)
    assume "pl_crates P = C" and "same_server P a cfg e'"
    with h obtain e2 where "start_engine P a (disk e') = (Inr e2, disk e2)" "recoverable C e2 = recoverable C e'"
      by (metis healthy_restart)
    then show "\<exists>e2. start_engine P a (disk e') = (Inr e2, disk e2) \<and> (\<forall>p b. M' p = Some b \<longrightarrow> recoverable C e2 p b)"
      using M' by (auto simp: archived_def)
  qed
qed

end
