(* ===== verification/Daemon_Correct.thy ===== *)
theory Daemon_Correct
  imports Ipc_Correct Remote_Correct Startup
begin

text \<open>
  The daemon of the sidecar: who can change the engine, and that one visitor does not stop the
  service of the next.
\<close>

section \<open>Visitors without a token\<close>

text \<open>The first frame of a peer, decrypted under the key of the token, is a greeting with that token.\<close>

definition greets :: "libs \<Rightarrow> sync_libs \<Rightarrow> string \<Rightarrow> conn \<Rightarrow> bool" where
  "greets X S token c = (case make_cipher X token of
     Inl x \<Rightarrow> False
   | Inr key \<Rightarrow> fst (recv_frame S key c) = Inr (Hello PROTOCOL_VERSION token))"

fun has_token :: "'db crates \<Rightarrow> sync_libs \<Rightarrow> SidecarConfig \<Rightarrow> event \<Rightarrow> bool" where
  "has_token C S cfg (Client ls) = presents_secret (cr_index C) cfg ls"
| "has_token C S cfg (Peer c) = (listens cfg \<and> greets (cr_libs C) S (sync_token (remote_sync cfg)) c)"
| "has_token C S cfg AcceptFails = False"

lemma stranger_keeps_engine:
  assumes "\<not> greets (cr_libs C) S token c"
  shows "fst (snd (handle_incoming C S token (e, c))) = e"
proof -
  obtain r e' c' where run: "handle_incoming C S token (e, c) = (r, (e', c'))" by (metis prod.collapse)
  have "recv_frame S key c \<noteq> (Inr (Hello PROTOCOL_VERSION token), c1)"
    if "make_cipher (cr_libs C) token = Inr key" for key c1
    using assms that by (auto simp: greets_def)
  from handshake_required [OF run this] run show ?thesis by simp
qed


end
