(* ===== verification/Sessions.thy ===== *)
theory Sessions
  imports Durability
begin

text \<open>
  The contract of a store that outlives its process: what is written in one session is read in every
  later one.  The locale \<open>lasting_store\<close> extends the contract of a content-addressed store by
  opening it again; the object store provides it with \<open>ObjectStore::new\<close>.
\<close>

section \<open>The contract\<close>

text \<open>What a user of the store does: write the object a name stands for, or end the session and open
  the store again, with settings of the type \<open>'c\<close>.\<close>

datatype 'c use = Put string u64 | Reopen 'c

fun names_put :: "'c use list \<Rightarrow> string set" where
  "names_put [] = {}"
| "names_put (Put h raw # us) = insert h (names_put us)"
| "names_put (Reopen c # us) = names_put us"

locale lasting_store = content_store store fetch has ok fits
  for store :: "string \<Rightarrow> bytes \<Rightarrow> u64 \<Rightarrow> ('s, unit) step" and fetch :: "'s \<Rightarrow> string \<Rightarrow> error + bytes"
    and has :: "'s \<Rightarrow> string \<Rightarrow> bool" and ok :: "'s \<Rightarrow> bool" and fits :: "'s \<Rightarrow> string \<Rightarrow> bytes \<Rightarrow> bool" +
  fixes reopen :: "'c \<Rightarrow> ('s, unit) step" and lasting :: "'s \<Rightarrow> bool" and nameable :: "string \<Rightarrow> bool"
  assumes store_lasting: "ok s \<Longrightarrow> lasting s \<Longrightarrow> fits s h d \<Longrightarrow> nameable h \<Longrightarrow> store h d raw s = (Inr (), s') \<Longrightarrow> lasting s'"
    and reopen_same: "ok s \<Longrightarrow> lasting s \<Longrightarrow>
      \<exists>s'. reopen c s = (Inr (), s') \<and> ok s' \<and> lasting s' \<and> fetch s' = fetch s \<and> has s' = has s"
begin

definition used :: "(string \<Rightarrow> bytes) \<Rightarrow> 'c use \<Rightarrow> ('s, unit) step" where
  "used content u = (case u of Put h raw \<Rightarrow> store h (content h) raw | Reopen c \<Rightarrow> reopen c)"

definition allowed :: "(string \<Rightarrow> bytes) \<Rightarrow> 's \<Rightarrow> 'c use \<Rightarrow> bool" where
  "allowed content s u = (case u of Put h raw \<Rightarrow> fits s h (content h) \<and> nameable h | Reopen c \<Rightarrow> True)"

lemma uses_sound:
  assumes "sound content s" and "lasting s" and "all_along (allowed content) (used content) us s"
    and "for_each (used content) us s = (Inr (), s')"
  shows "sound content s' \<and> lasting s' \<and> (\<forall>h. has s' h \<longleftrightarrow> has s h \<or> h \<in> names_put us)"
  using assms
proof (induction us arbitrary: s)
  case (Cons u us)
  then obtain s1 where s1: "used content u s = (Inr (), s1)" "for_each (used content) us s1 = (Inr (), s')"
    by (auto simp: bindS_Inr_iff)
  have okn: "ok s" using Cons.prems(1) by (simp add: sound_def)
  have now: "allowed content s u" and rest: "all_along (allowed content) (used content) us s1"
    using Cons.prems(3) s1(1) by simp_all
  have "sound content s1 \<and> lasting s1 \<and> (\<forall>h. has s1 h \<longleftrightarrow> has s h \<or> h \<in> names_put [u])"
  proof (cases u)
    case (Put h raw)
    then have w: "store h (content h) raw s = (Inr (), s1)" and a: "fits s h (content h)" "nameable h"
      using s1(1) now by (simp_all add: used_def allowed_def)
    from store_sound [OF Cons.prems(1) a(1) w] store_lasting [OF okn Cons.prems(2) a w] show ?thesis by (simp add: Put)
  next
    case (Reopen c)
    then have "reopen c s = (Inr (), s1)" using s1(1) by (simp add: used_def)
    with reopen_same [OF okn Cons.prems(2), of c] Cons.prems(1) show ?thesis by (auto simp: Reopen sound_def)
  qed
  moreover from this have "sound content s' \<and> lasting s' \<and> (\<forall>h. has s' h \<longleftrightarrow> has s1 h \<or> h \<in> names_put us)"
    using Cons.IH rest s1(2) by blast
  moreover have "names_put (u # us) = names_put [u] \<union> names_put us" by (cases u) simp_all
  ultimately show ?case by auto
qed simp

text \<open>A use that only opens the store again never fails.\<close>

lemma reopens_return:
  assumes "sound content s" and "lasting s"
  shows "\<exists>s'. for_each (used content) (map Reopen cs) s = (Inr (), s')"
  using assms
proof (induction cs arbitrary: s)
  case (Cons c cs)
  from reopen_same [of s c] Cons.prems obtain s1 where
    "reopen c s = (Inr (), s1)" "sound content s1" "lasting s1" by (auto simp: sound_def)
  with Cons.IH [of s1] show ?case by (simp add: used_def bindS_def)
qed (simp add: returnS_def)

end

section \<open>The object store\<close>

text \<open>A session ends, and the next one starts with its own settings.\<close>

definition reopen_store :: "path \<Rightarrow> bool \<times> u64 \<Rightarrow> unit store_step" where
  "reopen_store root = (\<lambda>(ec, mb) (s, f). case ObjectStore_new root ec mb f of
     (Inl x, f') \<Rightarrow> (Inl x, (s, f')) | (Inr t, f') \<Rightarrow> (Inr (), (t, f')))"

definition lasting_at :: "libs \<Rightarrow> path \<Rightarrow> object_store \<times> fs \<Rightarrow> bool" where
  "lasting_at X root = (\<lambda>(s, f). hash_laws X \<and> durable s f \<and> objects_dir s = root @ [''objects''])"

lemma write_object_dir:
  assumes "rs_laws X" "store_inv s" "room (s, f) h d" "write_object X h d raw (s, f) = (Inr (), (t, g))"
  shows "objects_dir t = objects_dir s"
  using write_object_outside [OF assms] by blast

interpretation lasting_objects: lasting_store "write_object X" "\<lambda>(s, f). read_object s f" "\<lambda>(s, f). contains s"
  "\<lambda>(s, f). rs_laws X \<and> store_inv s" room "reopen_store root" "lasting_at X root" hash_name for X root
proof
  fix st st' :: "object_store \<times> fs" and h d raw
  obtain s f s' f' where e: "st = (s, f)" "st' = (s', f')" by fastforce
  show "lasting_at X root st'"
    if "case st of (s, f) \<Rightarrow> rs_laws X \<and> store_inv s" "lasting_at X root st" "room st h d" "hash_name h"
      "write_object X h d raw st = (Inr (), st')"
    using that durable_write [of s f h d X raw s' f'] write_object_dir [of X s f h d raw s' f']
    by (auto simp: e lasting_at_def)
next
  fix st :: "object_store \<times> fs" and c :: "bool \<times> u64"
  assume a: "case st of (s, f) \<Rightarrow> rs_laws X \<and> store_inv s" "lasting_at X root st"
  obtain s f ec mb where e: "st = (s, f)" "c = (ec, mb)" by fastforce
  have d: "durable s f" "store_inv s" "objects_dir s = root @ [''objects'']" using a by (simp_all add: e lasting_at_def)
  obtain t where t: "ObjectStore_new root ec mb f = (Inr t, f)" "same_objects s t" "store_inv t" "durable t f"
    by (rule reopen_durable [OF d])
  note same = same_objectsD [OF t(2)]
  have "objects_dir t = objects_dir s" using same(3) by (simp add: same_frame_def)
  then show "\<exists>st'. reopen_store root c st = (Inr (), st') \<and> (case st' of (s, f) \<Rightarrow> rs_laws X \<and> store_inv s) \<and>
      lasting_at X root st' \<and> (case st' of (s, f) \<Rightarrow> read_object s f) = (case st of (s, f) \<Rightarrow> read_object s f) \<and>
      (case st' of (s, f) \<Rightarrow> contains s) = (case st of (s, f) \<Rightarrow> contains s)"
    using a t same by (intro exI [of _ "(t, f)"]) (simp add: e reopen_store_def lasting_at_def)
qed

text \<open>C27: a store of many sessions.  Through any sequence of writes and restarts, with and without
  erasure coding and with any limit for packfiles in each session, every object of the store keeps
  the content its name stands for, and the store holds what it held and what was written.\<close>

theorem store_sessions:
  assumes laws: "rs_laws X" "hash_laws X" and start: "faithful content s f" "durable s f" "objects_dir s = root @ [''objects'']"
    and fits: "all_along (\<lambda>st u. case u of Put h raw \<Rightarrow> room st h (content h) \<and> hash_name h | Reopen c \<Rightarrow> True)
      (\<lambda>u. case u of Put h raw \<Rightarrow> write_object X h (content h) raw | Reopen c \<Rightarrow> reopen_store root c) us (s, f)"
    and run: "for_each (\<lambda>u. case u of Put h raw \<Rightarrow> write_object X h (content h) raw | Reopen c \<Rightarrow> reopen_store root c) us (s, f)
      = (Inr (), (s', f'))"
  shows "faithful content s' f' \<and> durable s' f' \<and> (\<forall>h. contains s' h \<longleftrightarrow> contains s h \<or> h \<in> names_put us)"
proof -
  have "object_store.sound X content (s, f)" using laws(1) start(1) unfolding sound_faithful by blast
  moreover have "lasting_at X root (s, f)" using laws(2) start(2,3) by (simp add: lasting_at_def)
  ultimately have "object_store.sound X content (s', f') \<and> lasting_at X root (s', f') \<and>
      (\<forall>h. contains s' h \<longleftrightarrow> contains s h \<or> h \<in> names_put us)"
    using lasting_objects.uses_sound [of X content "(s, f)" root us "(s', f')"] fits run
    unfolding lasting_objects.used_def [abs_def] lasting_objects.allowed_def [abs_def] prod.case by blast
  then show ?thesis unfolding sound_faithful by (simp add: lasting_at_def)
qed

end
