(* ===== verification/Crash.thy ===== *)
theory Crash
  imports Durability
begin

text \<open>
  Crashes while loose objects are packed.  The steps of \<open>seal_packfile\<close> on the disk are the new pack
  file, the appended objects and the checksum, the lines of the index file and the removal of the
  loose files; between any two of them the process can end.
\<close>

section \<open>The disks between the steps\<close>

fun pack_disks :: "libs \<Rightarrow> (string \<times> path \<times> u64) list \<Rightarrow> packfile_writer \<Rightarrow> fs \<Rightarrow> fs list" where
  "pack_disks X [] w f = []"
| "pack_disks X ((h, p, n) # objs) w f =
     (case fs_read f p of
        Inl x \<Rightarrow> []
      | Inr d \<Rightarrow>
         (case writer_write_object X w h d f of
            (Inl x, f1) \<Rightarrow> [f1] | (Inr w1, f1) \<Rightarrow> f1 # pack_disks X objs w1 f1))"

fun remove_disks :: "(string \<times> path \<times> u64) list \<Rightarrow> fs \<Rightarrow> fs list" where
  "remove_disks [] f = [f]"
| "remove_disks ((h, p, n) # objs) f = f # remove_disks objs (snd (remove_file p f))"

text \<open>The index file is created empty and grows line by line.\<close>

definition index_disks :: "path \<Rightarrow> packfile_entry list \<Rightarrow> fs \<Rightarrow> fs list" where
  "index_disks i es f = map (\<lambda>k. snd (fs_write i (bytes_of (concat (map idx_line (take k es)))) f)) [0..<Suc (length es)]"

definition seal_disks :: "libs \<Rightarrow> (string \<times> path \<times> u64) list \<Rightarrow> object_store \<Rightarrow> fs \<Rightarrow> fs list" where
  "seal_disks X objs s f =
     (case PackfileWriter_new (packfile_dir s) (pack_name (next_pack_id s)) (max_packfile_size_mb s) f of
        (Inl x, f1) \<Rightarrow> [f, f1]
      | (Inr w, f1) \<Rightarrow> f # f1 # pack_disks X objs w f1 @
         (case pack_objects X objs w f1 of
            (Inl x, f2) \<Rightarrow> []
          | (Inr w', f2) \<Rightarrow>
             (case fs_append (writer_path w') (u32_to_le (crc w')) f2 of
                (Inl x, f3) \<Rightarrow> [f3]
              | (Inr u, f3) \<Rightarrow> f3 # index_disks (child (packfile_dir s) (writer_pack_id w' @ ''.idx'')) (writer_index w') f3 @
                  remove_disks objs (snd (seal w' (packfile_dir s) f2)))))"

lemma pack_disks_only:
  "pack_objects X objs w f = (Inr w', f') \<Longrightarrow> m \<in> set (pack_disks X objs w f) \<Longrightarrow> only_files {writer_path w} f m"
proof (induction X objs w f rule: pack_disks.induct)
  case (2 X h p n objs w f)
  then obtain d w1 f1 where d: "fs_read f p = Inr d" "writer_write_object X w h d f = (Inr w1, f1)"
    "pack_objects X objs w1 f1 = (Inr w', f')" by (auto simp: bindS_Inr_iff)
  then have a: "fs_append (writer_path w) d f = (Inr (), f1)" and p: "writer_path w1 = writer_path w"
    by (auto simp: writer_write_object_def bindS_Inr_iff)
  consider "m = f1" | "m \<in> set (pack_disks X objs w1 f1)" using "2.prems"(2) d by auto
  then show ?case
  proof cases
    case 2
    then have "only_files {writer_path w1} f1 m" using "2.IH" [OF d(1) d(2) [symmetric]] d(3) by blast
    then show ?thesis unfolding p by (rule only_files_trans [OF only_files_append [OF a]])
  qed (use only_files_append [OF a] in simp)
qed simp

lemma remove_disks_only: "m \<in> set (remove_disks objs f) \<Longrightarrow> only_files ((\<lambda>(h, p, n). p) ` set objs) f m"
proof (induction objs f rule: remove_disks.induct)
  case (2 h p n objs f)
  let ?P = "(\<lambda>(h, p, n). p) ` set ((h, p, n) # objs)"
  consider "m = f" | "m \<in> set (remove_disks objs (snd (remove_file p f)))" using "2.prems" by auto
  then show ?case
  proof cases
    case 2
    from "2.IH" [OF this] have "only_files ?P (snd (remove_file p f)) m" by (rule only_files_mono) (simp add: subset_insertI)
    moreover have "only_files ?P f (snd (remove_file p f))" by (rule only_files_mono [OF only_files_remove]) simp
    ultimately show ?thesis by (blast intro: only_files_trans)
  qed simp
qed simp

section \<open>Before the index file\<close>

text \<open>A store that a new process finds with all the objects of \<open>s\<close>.\<close>

definition survives :: "object_store \<Rightarrow> fs \<Rightarrow> fs \<Rightarrow> bool" where
  "survives s f m = (\<exists>u. durable u m \<and> store_inv u \<and> objects_dir u = objects_dir s \<and>
     contains u = contains s \<and> read_object u m = read_object s f)"

lemma pack_file_unlisted:
  assumes d: "durable s f" and inv: "store_inv s" and o: "only_files {pack_path s} f m"
  shows "survives s f m"
proof -
  obtain root where root: "objects_dir s = root @ [''objects'']" "packfile_dir s = root @ [''packfiles'']"
      "parity_dir s = root @ [''packfiles'', ''parity'']"
    using store_invD(1) [OF inv] by (auto simp: layout_def)
  have node: "fs_node m q = fs_node f q" if "q \<noteq> pack_path s" for q using o that by (simp add: only_files_def)
  have faulty: "faulty m = faulty f" and dirs: "is_dir m q = is_dir f q" for q using o by (simp_all add: only_files_def)
  have read: "fs_read m q = fs_read f q" if "q \<noteq> pack_path s" for q by (rule fs_read_same [OF node [OF that] faulty])
  have oo: "only_files ({pack_path s, idx_path s} \<union> (\<lambda>h. objects_dir s @ [h]) ` {}) f m" by (rule only_files_mono [OF o]) simp
  note lo = packed_files(3) [OF store_invD(1) [OF inv] oo, simplified]
  have apart: "objects_dir s @ t \<noteq> pack_path s" "parity_dir s @ [h] \<noteq> pack_path s" for h t
    by (simp_all add: root pack_path_def)
  have pl: "pack_lists s m k es" if l: "pack_lists s f k es" for k es
    by (rule packed_files(4) [OF store_invD(1) [OF inv] oo l refl]) (use l in \<open>simp add: pack_lists_def\<close>)
  have "durable s m"
  proof (rule durable_change [OF d _ _ faulty])
    show "plain n \<and> (loose_at s m n \<noteq> None \<longrightarrow> contains s n)" if "fs_exists m (objects_dir s @ [n])" for n
    proof -
      have "fs_exists f (objects_dir s @ [n])" using that node [OF apart(1)] by (simp add: fs_exists_def)
      from durableD(7,8) [OF d this] lo show ?thesis by metis
    qed
    show "hash_name h \<and> kept_at s m h loc" if h: "map_of (object_index s) h = Some loc" for h loc
    proof -
      note n = durableD(5) [OF d h]
      from kept_at_mono [OF durableD(6) [OF d h] pl] lo [OF hash_nameD(1) [OF n]] n show ?thesis by metis
    qed
    show "\<exists>k es. n = pack_name k @ ''.idx'' \<and> pack_lists s m k es \<and>
        (\<forall>e \<in> set es. map_of (object_index s) (entry_hash e) = Some (entry_loc k e))"
      if ex: "fs_exists m (packfile_dir s @ [n])" and nm: "ends_with ''.idx'' (entry_name n)" for n
    proof -
      have "packfile_dir s @ [n] \<noteq> pack_path s"
      proof
        assume "packfile_dir s @ [n] = pack_path s"
        then have n: "n = pack_name (next_pack_id s) @ ''.pack''" by (simp add: pack_path_def)
        have "entry_name n = n" by (rule entry_name_id) (use nm in \<open>auto simp: ends_with_def\<close>)
        with nm show False by (simp add: n ends_with_def)
      qed
      then have "fs_exists f (packfile_dir s @ [n])" using ex node by (simp add: fs_exists_def)
      from durableD(9) [OF d this nm] pl show ?thesis by blast
    qed
  qed (simp_all add: same_frame_def dirs)
  moreover have "read_object s m = read_object s f"
  proof (rule ext, rule read_object_cong)
    fix h loc p assume a: "map_of (object_index s) h = Some loc" "p \<in> files_of s loc"
    have "p \<noteq> pack_path s"
      using store_invD(3) [OF inv a(1)] a(2) by (cases rule: files_of_cases) (auto simp: apart pack_path_def pack_name_inj root)
    then show "fs_read m p = fs_read f p" by (rule read)
  qed simp_all
  ultimately show ?thesis using inv unfolding survives_def by blast
qed

section \<open>With a part of the index file\<close>

lemma take_entries: "length hs = length ds \<Longrightarrow> take k (entries_of off hs ds) = entries_of off (take k hs) (take k ds)"
proof (induction off hs ds arbitrary: k rule: entries_of.induct)
  case (1 off h hs d ds)
  then show ?case by (cases k) simp_all
qed simp_all

text \<open>The index of a store in which the objects of some entries have moved into the new packfile.\<close>

lemma moved_store:
  assumes inv: "store_inv s" and room: "next_pack_id s \<noteq> - 1"
    and u: "u = s\<lparr>next_pack_id := next_pack_id s + 1, object_index := idx\<rparr>" and d: "distinct (map fst idx)"
    and at: "\<And>e. e \<in> set es \<Longrightarrow> map_of idx (entry_hash e) = Some (entry_loc (next_pack_id s) e)"
    and old: "\<And>h. h \<notin> entry_hash ` set es \<Longrightarrow> map_of idx h = map_of (object_index s) h"
    and has: "\<And>e. e \<in> set es \<Longrightarrow> contains s (entry_hash e)"
  shows "store_inv u" and "contains u = contains s"
proof -
  show "store_inv u" unfolding store_inv_def
  proof (intro conjI allI impI)
    show "layout u" "distinct (map fst (object_index u))" using store_invD(1) [OF inv] d by (simp_all add: layout_def u)
    fix h loc assume a: "map_of (object_index u) h = Some loc"
    show "loc_ok u h loc"
    proof (cases "h \<in> entry_hash ` set es")
      case True
      then obtain e where e: "e \<in> set es" "h = entry_hash e" by blast
      have "plain h" using store_invD(3) [OF inv] has [OF e(1)] e(2) by (auto simp: loc_ok_def contains_def)
      moreover have "loc = entry_loc (next_pack_id s) e" using at [OF e(1)] a e(2) by (simp add: u)
      ultimately show ?thesis using next_pack_less [OF room, of "next_pack_id s"] by (auto simp: loc_ok_def entry_loc_def u)
    next
      case False
      then have "loc_ok s h loc" using a old store_invD(3) [OF inv] by (simp add: u)
      then show ?thesis using next_pack_less [OF room]
        by (cases loc) (auto simp: loc_ok_def pack_name_inj u intro: less_imp_le)
    qed
  qed
  have "contains u h = contains s h" for h
  proof (cases "h \<in> entry_hash ` set es")
    case True
    then obtain e where "e \<in> set es" "h = entry_hash e" by blast
    with at has show ?thesis by (simp add: contains_def u)
  qed (simp add: contains_def old u)
  then show "contains u = contains s" by blast
qed

lemma packed_survives:
  assumes d: "durable s f" and inv: "store_inv s" and room: "loose_bytes s f < 2 ^ 64" "next_pack_id s \<noteq> - 1"
    and sealed: "sealed s f s' g ds" and es: "es = take k (entries_of 0 (loose_names s f) ds)"
    and oo: "only_files ({pack_path s, idx_path s} \<union> (\<lambda>h. objects_dir s @ [h]) ` (entry_hash ` set es)) f m"
    and rp: "fs_read m (pack_path s) = Inr (concat ds @ c)"
    and ri: "fs_read m (idx_path s) = Inr (bytes_of (concat (map idx_line es)))"
  shows "survives s f m"
proof -
  let ?hs = "loose_names s f" and ?k = "next_pack_id s"
  let ?pid = "pack_name ?k"
  let ?u = "s\<lparr>next_pack_id := ?k + 1, object_index := fold (add_entry ?pid) es (object_index s)\<rparr>"
  have s': "s' = s\<lparr>next_pack_id := ?k + 1, object_index := fold (add_entry ?pid) (entries_of 0 ?hs ds) (object_index s)\<rparr>"
    and ds: "list_all2 (\<lambda>h d. read_object s f h = Inr d) ?hs ds" "length (concat ds) = loose_bytes s f"
    using sealed by (simp_all add: sealed_def)
  have len: "length ?hs = length ds" by (rule list_all2_lengthD [OF ds(1)])
  have dist: "distinct ?hs" unfolding loose_names_def by (rule individuals_names) (rule store_invD [OF inv])
  have es': "es = entries_of 0 (take k ?hs) (take k ds)" unfolding es by (rule take_entries [OF len])
  have names: "entry_hash ` set es = set (take k ?hs)" unfolding es' by (rule entries_hashes) (simp add: len)
  have at: "map_of (fold (add_entry ?pid) es (object_index s)) (entry_hash e) = Some (entry_loc ?k e)" if "e \<in> set es" for e
    using that unfolding es' by (rule entries_located [rotated 2]) (use dist len in simp_all)
  have full: "map_of (object_index s') (entry_hash e) = Some (entry_loc ?k e)" if "e \<in> set es" for e
  proof -
    have "e \<in> set (entries_of 0 ?hs ds)" using that unfolding es by (rule in_set_takeD)
    then show ?thesis unfolding s' using entries_located [OF dist len] by simp
  qed
  have old: "map_of (fold (add_entry ?pid) es (object_index s)) h = map_of (object_index s) h" if "h \<notin> set (take k ?hs)" for h
    using that unfolding es' by (simp add: fold_entries_other len)
  have sub: "set (take k ?hs) \<subseteq> set ?hs" by (rule set_take_subset)
  have faulty: "faulty m = faulty f" using oo by (simp add: only_files_def)
  have read: "fs_read m q = fs_read f q"
    if "q \<noteq> pack_path s" "q \<noteq> idx_path s" "q \<notin> (\<lambda>h. objects_dir s @ [h]) ` set (take k ?hs)" for q
    by (rule fs_read_same [OF _ faulty]) (use oo that in \<open>simp add: only_files_def names\<close>)
  have "fs_exists m (pack_path s)" using fs_read_InrD [OF rp] by (simp add: fs_exists_def)
  then have dur: "durable ?u m"
    by (intro durable_packed [OF d inv room(2) refl at _ _ oo ri]) (simp_all only: old names sub simp_thms)
  have sm: "sealed s f s' m ds"
    unfolding sealed_def using ds rp s' read sub by blast
  have objs: "read_object ?u m h = read_object s f h" for h
  proof (cases "h \<in> set (take k ?hs)")
    case True
    then obtain e where e: "e \<in> set es" "h = entry_hash e" using names by blast
    have "read_object ?u m h = read_object s' m h"
      by (rule read_object_cong) (simp_all add: at [OF e(1)] full [OF e(1), unfolded s', simplified] e(2) s')
    with sealed_packed(2) [OF inv room(1) sm, of h] True sub show ?thesis by auto
  next
    case False
    show ?thesis
    proof (rule read_object_cong)
      show "map_of (object_index ?u) h = map_of (object_index s) h" using old [OF False] by simp
      fix loc p assume a: "map_of (object_index ?u) h = Some loc" "p \<in> files_of ?u loc"
      have ms: "map_of (object_index s) h = Some loc" using a(1) old [OF False] by simp
      have pin: "p \<in> files_of s loc" using a(2) by (simp add: files_of_def split: object_location.splits)
      obtain root where root: "objects_dir s = root @ [''objects'']" "packfile_dir s = root @ [''packfiles'']"
        using store_invD(1) [OF inv] by (auto simp: layout_def)
      have "p \<notin> (\<lambda>h. objects_dir s @ [h]) ` set (take k ?hs) \<and> p \<noteq> pack_path s \<and> p \<noteq> idx_path s"
        using store_invD(3) [OF inv ms] pin
        by (cases rule: files_of_cases) (use False in \<open>auto simp: root pack_path_def idx_path_def pack_name_inj\<close>)
      then show "fs_read m p = fs_read f p" by (intro read) auto
    qed simp
  qed
  have has: "contains s (entry_hash e)" if "e \<in> set es" for e
    using loose_names_iff [OF inv, of "entry_hash e" f] sub names that by (auto simp: contains_def)
  have dist_u: "distinct (map fst (fold (add_entry ?pid) es (object_index s)))"
    using store_invD(2) [OF inv] by (simp add: fold_entries_distinct)
  have "store_inv ?u" "contains ?u = contains s"
    by (rule moved_store [OF inv room(2) refl dist_u at _ has]; use old names in simp)+
  then show ?thesis unfolding survives_def using dur objs by (intro exI [of _ ?u]) auto
qed

section \<open>Packing is safe at every point\<close>

lemma survivesI: "durable s f \<Longrightarrow> store_inv s \<Longrightarrow> survives s f f"
  unfolding survives_def by blast

lemma seal_disks_survive:
  assumes d: "durable s f" and inv: "store_inv s" and room: "loose_bytes s f < 2 ^ 64" "next_pack_id s \<noteq> - 1"
    and run: "seal_packfile X (individuals f (object_index s)) (s, f) = (Inr (), (t, g))"
    and m: "m \<in> set (seal_disks X (individuals f (object_index s)) s f)"
  shows "survives s f m"
proof -
  let ?objs = "individuals f (object_index s)" and ?P = "pack_path s" and ?I = "idx_path s" and ?hs = "loose_names s f"
  let ?L = "(\<lambda>h. objects_dir s @ [h]) ` set ?hs"
  obtain f1 w w' f2 f2' f3 ds where
    new: "PackfileWriter_new (packfile_dir s) (pack_name (next_pack_id s)) (max_packfile_size_mb s) f = (Inr w, f1)" and
    1: "fs_write ?P [] f = (Inr (), f1)" and w: "writer_path w = ?P" and 2: "pack_objects X ?objs w f1 = (Inr w', f2)" and
    3: "fs_append (writer_path w') (u32_to_le (crc w')) f2 = (Inr (), f2')" and w': "writer_path w' = ?P" and
    es: "writer_index w' = entries_of 0 ?hs ds" and i: "child (packfile_dir s) (writer_pack_id w' @ ''.idx'') = ?I" and
    4: "fs_write ?I (bytes_of (concat (map idx_line (entries_of 0 ?hs ds)))) f2' = (Inr (), f3)" and
    r: "list_all2 (\<lambda>h d. fs_read f (objects_dir s @ [h]) = Inr d) ?hs ds" and
    P: "fs_read f2' ?P = Inr (concat ds @ u32_to_le (crc w'))" and g: "g = remove_loose ?objs f3"
    by (rule seal_stages [OF inv run])
  have L: "(\<lambda>(h, p, n). p) ` set ?objs = ?L"
    using individuals_of(1) [OF inv] by (force simp: loose_names_def image_image)
  obtain ds' where sealed: "sealed s f t g ds'" using sealed_intro [OF inv run] by blast
  have "ds' = ds"
  proof -
    have "read_object s f h = fs_read f (objects_dir s @ [h])" if "h \<in> set ?hs" for h
      using that by (simp add: loose_names_iff [OF inv] read_object_def)
    then have "list_all2 (\<lambda>h d. read_object s f h = Inr d) ?hs ds"
      by (intro list.rel_mono_strong [OF r]) simp
    moreover have "list_all2 (\<lambda>h d. read_object s f h = Inr d) ?hs ds'" using sealed by (simp add: sealed_def)
    ultimately show ?thesis by (auto simp: list_all2_conv_all_nth intro!: nth_equalityI)
  qed
  note sealed = sealed [unfolded this]
  have sl: "seal w' (packfile_dir s) f2 = (Inr (writer_index w'), f3)"
    using 3 4 by (simp add: seal_def bindS_def returnS_def i es)
  have o2: "only_files {?P} f f2'"
    using only_files_write [OF 1] only_files_pack [OF 2] only_files_append [OF 3]
    by (simp add: w w') (metis only_files_trans)
  have dir: "is_dir f2' (parent ?I)" "\<not> is_dir f2' ?I" "?I \<notin> set (faulty f2')" using fs_write_InrD [OF 4] by simp_all
  have apart: "?P \<noteq> ?I" by (simp add: pack_path_def idx_path_def)
  have part: "survives s f (snd (fs_write ?I (bytes_of (concat (map idx_line (take k (entries_of 0 ?hs ds))))) f2'))" for k
  proof -
    let ?b = "bytes_of (concat (map idx_line (take k (entries_of 0 ?hs ds))))"
    obtain f4 where 5: "fs_write ?I ?b f2' = (Inr (), f4)" using dir by (simp add: fs_write_def)
    have "only_files {?P, ?I} f f4"
      by (rule only_files_trans [OF only_files_mono [OF o2] only_files_mono [OF only_files_write [OF 5]]]) auto
    then show ?thesis
      unfolding 5 snd_conv
      by (intro packed_survives [OF d inv room sealed refl only_files_mono, of "{?P, ?I}" f4 k "u32_to_le (crc w')"])
        (use P apart in \<open>simp_all add: fs_read_write [OF 5]\<close>)
  qed
  have gone: "survives s f m'" if "only_files ?L f3 m'" for m'
  proof -
    have o3: "only_files {?P, ?I} f f3"
      by (rule only_files_trans [OF only_files_mono [OF o2] only_files_mono [OF only_files_write [OF 4]]]) auto
    have oo: "only_files ({?P, ?I} \<union> ?L) f m'"
      by (rule only_files_trans [OF only_files_mono [OF o3] only_files_mono [OF that]]) auto
    have rd: "fs_read m' q = fs_read f3 q" if "q \<notin> ?L" for q
      by (rule fs_read_same) (use \<open>only_files ?L f3 m'\<close> that in \<open>simp_all add: only_files_def\<close>)
    obtain root where root: "objects_dir s = root @ [''objects'']" "packfile_dir s = root @ [''packfiles'']"
      using store_invD(1) [OF inv] by (auto simp: layout_def)
    have notin: "?P \<notin> ?L" "?I \<notin> ?L" by (auto simp: pack_path_def idx_path_def root)
    have reads: "fs_read m' ?P = Inr (concat ds @ u32_to_le (crc w'))"
      "fs_read m' ?I = Inr (bytes_of (concat (map idx_line (entries_of 0 ?hs ds))))"
      using rd notin apart P by (simp_all add: fs_read_write [OF 4])
    have len: "length ?hs = length ds" by (rule list_all2_lengthD [OF r])
    have all: "entries_of 0 ?hs ds = take (length ?hs) (entries_of 0 ?hs ds)" by (simp add: take_entries len)
    show ?thesis
      by (rule packed_survives [OF d inv room sealed all _ reads]) (use oo len in \<open>simp only: entries_hashes\<close>)
  qed
  have m': "m \<in> {f, f1, f2'} \<union> set (pack_disks X ?objs w f1) \<union> set (index_disks ?I (entries_of 0 ?hs ds) f2')
      \<union> set (remove_disks ?objs f3)"
    using m by (auto simp: seal_disks_def new 2 3 i es sl)
  have idx: "survives s f m" if "m \<in> set (index_disks ?I (entries_of 0 ?hs ds) f2')"
    using that part unfolding index_disks_def by (auto simp del: upt_Suc)
  have pack: "only_files {?P} f m" if "m \<in> set (pack_disks X ?objs w f1)"
    using only_files_trans [OF only_files_write [OF 1]] pack_disks_only [OF 2 that] by (simp add: w)
  have rem: "only_files ?L f3 m" if "m \<in> set (remove_disks ?objs f3)"
    using remove_disks_only [OF that] by (simp only: L)
  consider "m = f" | "m = f1" | "m = f2'" | "m \<in> set (pack_disks X ?objs w f1)"
    | "m \<in> set (index_disks ?I (entries_of 0 ?hs ds) f2')" | "m \<in> set (remove_disks ?objs f3)" using m' by blast
  then show ?thesis
    by cases (use survivesI [OF d inv] pack_file_unlisted [OF d inv] only_files_write [OF 1] o2 idx pack gone [OF rem] in auto)
qed

text \<open>The last of the disks is the one the seal leaves.\<close>

lemma remove_disks_last: "remove_disks objs f \<noteq> [] \<and> last (remove_disks objs f) = remove_loose objs f"
  by (induction objs f rule: remove_disks.induct) auto

lemma seal_disks_last:
  assumes "store_inv s" and "seal_packfile X (individuals f (object_index s)) (s, f) = (Inr (), (t, g))"
  shows "last (seal_disks X (individuals f (object_index s)) s f) = g"
proof -
  obtain f1 w w' f2 f2' f3 ds where
    new: "PackfileWriter_new (packfile_dir s) (pack_name (next_pack_id s)) (max_packfile_size_mb s) f = (Inr w, f1)" and
    2: "pack_objects X (individuals f (object_index s)) w f1 = (Inr w', f2)" and
    3: "fs_append (writer_path w') (u32_to_le (crc w')) f2 = (Inr (), f2')" and
    es: "writer_index w' = entries_of 0 (loose_names s f) ds" "child (packfile_dir s) (writer_pack_id w' @ ''.idx'') = idx_path s" and
    4: "fs_write (idx_path s) (bytes_of (concat (map idx_line (entries_of 0 (loose_names s f) ds)))) f2' = (Inr (), f3)" and
    g: "g = remove_loose (individuals f (object_index s)) f3"
    by (rule seal_stages [OF assms])
  have "seal w' (packfile_dir s) f2 = (Inr (writer_index w'), f3)"
    using 3 4 by (simp add: seal_def bindS_def returnS_def es)
  then show ?thesis using remove_disks_last [of "individuals f (object_index s)" f3] by (simp add: seal_disks_def new 2 3 g)
qed


section \<open>A small store\<close>

lemma all_dirs_list: "(\<And>k. k \<le> length p \<Longrightarrow> is_dir f (take k p)) \<Longrightarrow> all_dirs f p"
  by (metis all_dirs_def nat_le_linear order_refl take_all_iff)

lemma loose_durable: "durable loose_store loose_fs"
proof -
  note defs = loose_fs_def sample_fs_def fs_node_def
  have o: "n = ''aa'' \<or> n = ''bb''" if "fs_node loose_fs [''r'', ''objects'', n] \<noteq> None" for n
    using that by (simp add: defs split: if_splits)
  have p: "n = ''parity''" if "fs_node loose_fs [''r'', ''packfiles'', n] \<noteq> None" for n
    using that by (simp add: defs split: if_splits)
  have dirs: "all_dirs loose_fs [''r'', ''objects'']" "all_dirs loose_fs [''r'', ''packfiles'', ''parity'']"
    by (rule all_dirs_list, auto simp: le_Suc_eq is_dir_def defs)+
  have at: "loose_at loose_store loose_fs ''aa'' = Some (Individual [''r'', ''objects'', ''aa''])"
    "loose_at loose_store loose_fs ''bb'' = Some (Individual [''r'', ''objects'', ''bb''])" by code_simp+
  have names: "hash_name ''aa'' \<and> hash_name ''bb''" by (simp add: hash_name_def plain_def line_safe_def)
  have par: "\<not> ends_with ''.idx'' (entry_name ''parity'')" by (simp add: ends_with_def entry_name_def)
  have fields: "objects_dir loose_store = [''r'', ''objects'']" "packfile_dir loose_store = [''r'', ''packfiles'']"
    "parity_dir loose_store = [''r'', ''packfiles'', ''parity'']" "faulty loose_fs = []"
    by (simp_all add: loose_store_def sample_store_def loose_fs_def sample_fs_def)
  have index: "map_of (object_index loose_store) = [''aa'' \<mapsto> Individual [''r'', ''objects'', ''aa''], ''bb'' \<mapsto> Individual [''r'', ''objects'', ''bb'']]"
    by (simp add: loose_store_def fun_eq_iff)
  have kept: "hash_name h \<and> kept_at loose_store loose_fs h loc" if "map_of (object_index loose_store) h = Some loc" for h loc
    using that at names by (auto simp: index kept_at_def split: if_splits)
  have plain: "plain n \<and> contains loose_store n" if "fs_exists loose_fs ([''r'', ''objects''] @ [n])" for n
    using o [of n] that by (auto simp: fs_exists_def plain_def contains_def index)
  show ?thesis
    unfolding durable_def fields
    using dirs kept plain p par by (simp add: fs_exists_def) blast
qed


end
