(* ===== verification/Sample_Restart.thy ===== *)
theory Sample_Restart
  imports Sample_Maintain Sample_Ipc Lifecycle Daemon_Correct Sessions Crash
begin

text \<open>
  The sample server started again after its backup, and a daemon on it among visitors without a
  token: the witnesses of \<open>Restart\<close> and \<open>Daemon_Correct\<close>.
\<close>

section \<open>Starting again\<close>

definition sample_platform :: "(sample_db, json) platform" where
  "sample_platform = \<lparr>pl_crates = sample_crates, pl_yaml = sample_yaml, pl_open = (\<lambda>p cfs. Inr (index_db game_done)),
     pl_key = replicate 32 7, pl_mtimes = (\<lambda>p. 7)\<rparr>"

definition sample_args :: args where
  "sample_args = \<lparr>config_path = [''none''], socket_path = [''sock''], args_root = [''r''], oneshot = False, args_tag = None\<rparr>"

lemma game_dirs: "all_dirs game_fs [''r'', ''.obsidian'', ''store'', ''objects'']"
  "all_dirs game_fs [''r'', ''.obsidian'', ''store'', ''packfiles'', ''parity'']"
  by (rule all_dirs_list, auto simp: le_Suc_eq is_dir_def fs_node_def game_fs_def)+

lemma game_durable: "durable game_store game_fs"
proof -
  have "fs_node game_fs ([''r'', ''.obsidian'', ''store'', ''objects''] @ [n]) = None" for n
    by (simp add: fs_node_def game_fs_def)
  moreover have "n = ''parity''" if "fs_node game_fs ([''r'', ''.obsidian'', ''store'', ''packfiles''] @ [n]) \<noteq> None" for n
    using that by (simp add: fs_node_def game_fs_def split: if_splits)
  moreover have "\<not> ends_with ''.idx'' (entry_name ''parity'')"
    by (simp add: ends_with_def entry_name_def)
  ultimately show ?thesis using game_dirs
    by (auto simp: durable_def game_store_def fs_exists_def) (auto simp: game_fs_def)
qed

text \<open>Two objects, and two more sessions with other settings.\<close>

theorem store_sessions_witness:
  "\<exists>s f. for_each (\<lambda>u. case u of Put h raw \<Rightarrow> write_object sample_libs h (game_content h) raw | Reopen c \<Rightarrow> reopen_store [''r'', ''.obsidian'', ''store''] c)
       [Put h1 1, Put h2 3, Reopen (True, 5), Reopen (False, 7)] (game_store, game_fs) = (Inr (), (s, f)) \<and>
     read_object s f h1 = Inr [4] \<and> read_object s f h2 = Inr [1, 2, 3]"
proof -
  let ?root = "[''r'', ''.obsidian'', ''store'']"
  let ?act = "\<lambda>u. case u of Put h raw \<Rightarrow> write_object sample_libs h (game_content h) raw | Reopen c \<Rightarrow> reopen_store ?root c"
  let ?ok = "\<lambda>st u. case u of Put h raw \<Rightarrow> room st h (game_content h) \<and> hash_name h | Reopen c \<Rightarrow> True"
  let ?us = "[Put h1 1, Put h2 3, Reopen (True, 5), Reopen (False, 7)]"
  have act: "lasting_objects.used sample_libs ?root game_content = ?act"
    by (simp add: lasting_objects.used_def fun_eq_iff)
  have names: "hash_name h1" "hash_name h2" by (simp_all add: h1_def h2_def sample_hash_name)
  have cont: "game_content h1 = [4]" "game_content h2 = [1, 2, 3]" using hashes by (simp_all add: game_content_def)
  have f: "faithful game_content game_store game_fs"
    using game_inv by (simp add: engine_inv_def data_inv_def)
  have puts: "for_each ?act [Put h1 1, Put h2 3] (game_store, game_fs) = (Inr (), (store2, fs2))"
    using w1 w2 by (simp add: bindS_def returnS_def cont)
  have fits: "all_along ?ok ?act [Put h1 1, Put h2 3] (game_store, game_fs)"
    using w1 game_room names by (simp add: cont)
  have root: "objects_dir game_store = ?root @ [''objects'']" by (simp add: game_store_def)
  have mid: "faithful game_content store2 fs2 \<and> durable store2 fs2"
    using store_sessions [OF sample_rs_laws sample_hash_laws f game_durable root fits puts] by blast
  have "objects_dir store2 = objects_dir game_store" by (simp add: store2_def store1_def)
  then have "lasting_at sample_libs ?root (store2, fs2)" using mid sample_hash_laws by (simp add: lasting_at_def root)
  moreover have "object_store.sound sample_libs game_content (store2, fs2)"
    using mid sample_rs_laws unfolding sound_faithful by blast
  ultimately have "\<exists>q. for_each ?act (map Reopen [(True, 5), (False, 7)]) (store2, fs2) = (Inr (), q)"
    unfolding act [symmetric] by (intro lasting_objects.reopens_return)
  then obtain s t where "for_each ?act [Reopen (True, 5), Reopen (False, 7)] (store2, fs2) = (Inr (), (s, t))" by auto
  then have run: "for_each ?act ?us (game_store, game_fs) = (Inr (), (s, t))"
    using w1 w2 by (simp add: bindS_def cont)
  have fits: "all_along ?ok ?act ?us (game_store, game_fs)"
    using w1 game_room names by (simp add: cont)
  have "faithful game_content s t" "contains s h1" "contains s h2"
    using store_sessions [OF sample_rs_laws sample_hash_laws f game_durable root fits run] by simp_all
  with run cont show ?thesis by (auto simp: faithful_def)
qed

lemma game_laws: "rs_laws (cr_libs sample_crates)" "hash_laws (cr_libs sample_crates)" "name_laws (cr_libs sample_crates)"
  by (simp_all add: sample_rs_laws sample_hash_laws name_laws_def sample_hash_name)

lemma same_sample_server: "same_server sample_platform sample_args SidecarConfig_default game_done"
proof -
  have "fs_node game_fs [''none''] = None" "fs_node game_fs [''r'', ''.obsidian'', ''rocksdb''] = Some Dir"
    "fs_node game_fs [''r'', ''.obsidian''] = Some Dir" "fs_node game_fs [''r''] = Some Dir"
    by (simp_all add: fs_node_def game_fs_def)
  note nodes = this fs3_nodes object_at_def
  have "\<not> fs_exists fs3 [''none'']" by (simp add: fs_exists_def nodes)
  moreover have "key_apart [''r''] SidecarConfig_default"
    by (simp add: key_apart_def Let_def sign_key_path_def cfg_key_path_def SidecarConfig_default_def SecurityConfig_default_def
        SnapshotSigningConfig_default_def child_def path_of_def join_def is_absolute_def public_key_path_def below_def)
  moreover have "all_dirs fs3 [''r'', ''.obsidian'', ''rocksdb'']"
    by (rule all_dirs_list) (auto simp: le_Suc_eq is_dir_def nodes fs_node_root)
  ultimately show ?thesis
    by (simp add: same_server_def sample_args_def sample_platform_def done_fields done_disk SidecarConfig_load_def BlockIndex_open_def)
qed

theorem backup_survives_restart_witness:
  "\<exists>e2 s. start_engine sample_platform sample_args (disk game_done) = (Inr e2, disk e2) \<and>
     recoverable sample_crates e2 ''world/a.mca'' [4] \<and> recoverable sample_crates e2 ''world/level.dat'' [1, 2, 3] \<and>
     s \<in> set (snapshots e2) \<and> si_id s = game_snap"
proof -
  have run: "run_backup sample_crates game_env None False game_engine = Some (Inr game_result, game_done)"
    using game_run [of None] game_done_run by (simp add: game_tally_def)
  have P: "sample_crates = pl_crates sample_platform" by (simp add: sample_platform_def)
  have fair: "fair game_env (length [amca, level])" by (auto simp: fair_def)
  have dur: "durable (obj_store game_engine) (disk game_engine)" "snapshot_dir game_engine \<notin> set (faulty (disk game_engine))"
    using game_durable by simp_all (simp add: game_fs_def)
  have read: "bytes_at game_fs (fe_path amca) = [4]" "bytes_at game_fs (fe_path level) = [1, 2, 3]"
    using game_reads by (simp_all add: bytes_at_def) (simp add: fs_read_def fs_node_def game_fs_def level_def)
  from backup_survives_restart [OF P game_laws game_inv game_layout(2) dur game_files _ _ fair _ game_tasks_ok slash_free run same_sample_server]
  show ?thesis by (auto simp: rel_names read game_snap_id)
qed

section \<open>A life\<close>

lemma game_healthy: "healthy sample_crates game_content game_engine"
proof -
  have "fs_node game_fs [''r'', ''.obsidian'', ''store'', ''snapshots''] = None" by (simp add: fs_node_def game_fs_def)
  moreover have "faulty game_fs = []" by (simp add: game_fs_def)
  ultimately show ?thesis using game_inv game_layout(2) game_durable
    by (simp add: healthy_def is_file_def snapshot_dir_path)
qed

text \<open>A backup, a restart, and a pin.\<close>

theorem server_keeps_archive_witness:
  "\<exists>e M. (life sample_crates sample_yaml game_content)\<^sup>*\<^sup>* (game_engine, Map.empty) (e, M) \<and>
     M ''world/a.mca'' = Some [4] \<and> M ''world/level.dat'' = Some [1, 2, 3] \<and>
     recoverable sample_crates e ''world/a.mca'' [4] \<and> recoverable sample_crates e ''world/level.dat'' [1, 2, 3]"
proof -
  let ?life = "life sample_crates sample_yaml game_content"
  let ?M = "Map.empty ++ map_of (task_contents game_engine (tasks_for (order game_env 2) [amca, level]))"
  have run: "run_backup sample_crates game_env None False game_engine = Some (Inr game_result, game_done)"
    using game_run [of None] game_done_run by (simp add: game_tally_def)
  have "tasks_for (order game_env 2) [amca, level] = task_list game_env [amca, level]"
    by (simp add: tasks_for_def task_list_def numeral_2_eq_2)
  then have ok: "tasks_ok sample_crates game_env game_content (tasks_for (order game_env 2) [amca, level]) (processing game_env game_engine)"
    using game_tasks_ok by simp
  have 1: "?life (game_engine, Map.empty) (game_done, ?M)"
    by (rule backed_up [OF game_files _ _ _ _ ok slash_free run]) (auto simp: fair_def rel_names)
  have none: "archived sample_crates game_engine Map.empty" by (simp add: archived_def)
  have P: "pl_crates sample_platform = sample_crates" "pl_yaml sample_platform = sample_yaml" by (simp_all add: sample_platform_def)
  have "healthy sample_crates game_content game_done" using life_step [OF game_laws 1 game_healthy none] by blast
  then obtain e2 where start: "start_engine sample_platform sample_args (disk game_done) = (Inr e2, disk e2)"
    using healthy_restart [of sample_platform game_content game_done, OF _ same_sample_server] by (metis P(1))
  have 2: "?life (game_done, ?M) (e2, ?M)" by (rule restarted [OF P same_sample_server start])
  obtain r e3 where "pin_snapshot sample_crates game_env game_snap 30 e2 = (r, e3)" by fastforce
  moreover have "CHR ''/'' \<notin> set game_snap" by (simp add: game_snap_id)
  ultimately have 3: "?life (e2, ?M) (e3, ?M)" by (intro was_pinned)
  have all: "?life\<^sup>*\<^sup>* (game_engine, Map.empty) (e3, ?M)"
    by (rule rtranclp.rtrancl_into_rtrancl [OF rtranclp.rtrancl_into_rtrancl [OF r_into_rtranclp [of ?life, OF 1] 2] 3])
  have level: "fs_read game_fs (fe_path level) = Inr [1, 2, 3]" by (simp add: fs_read_def fs_node_def game_fs_def level_def)
  have "tasks_for (order game_env 2) [amca, level] = [(0, amca), (1, level)]" by (simp add: tasks_for_def numeral_2_eq_2)
  then have M: "?M ''world/a.mca'' = Some [4]" "?M ''world/level.dat'' = Some [1, 2, 3]"
    using game_reads(1) level by (simp_all add: task_contents_def file_content_def rel_names bytes_at_def)
  note kept = conjunct1 [OF server_keeps_archive [OF game_laws game_healthy none all, of sample_platform], rule_format]
  show ?thesis by (intro exI [of _ e3] exI [of _ ?M] conjI all M kept)
qed

section \<open>A daemon among strangers\<close>

definition open_config :: SidecarConfig where
  "open_config = token_config\<lparr>remote_sync := RemoteSyncConfig_default\<lparr>sync_enabled := True, listen_addr := Some ''0.0.0.0'',
     sync_token := ''secret''\<rparr>\<rparr>"

text \<open>A client with a guess asks to prune everything, a peer sends three bytes, and accepting fails.\<close>

definition strangers :: "event list" where
  "strangers = [Client [Inr (auth_line ''guess''), Inr (postfix (cli_request ''t1'' (Prune 0)))], Peer (line 0 [1, 2, 3]), AcceptFails]"


end
