(* ===== verification/Backup_Faults.thy ===== *)
theory Backup_Faults
  imports Backup_Correct
begin

text \<open>
  Backups on a store that cannot be written: a failed write of an object is logged and no more, so
  the task of the file, the commit and the result of the backup do not show it.
\<close>

section \<open>Chunks that are lost\<close>

text \<open>The chunk is new and its object cannot be written: the write fails and changes nothing.\<close>

definition lost_chunk :: "libs \<Rightarrow> 'db index_libs \<Rightarrow> 'db chunk_ctx \<Rightarrow> chunk \<Rightarrow> bool" where
  "lost_chunk X L cx ck =
     (chunk_exists L (ck_hash ck) (cx_db cx) \<noteq> Inr True \<and> \<not> contains (cx_store cx) (ck_hash ck) \<and>
      plain (ck_hash ck) \<and> \<not> erasure_enabled (cx_store cx) \<and>
      \<not> writable (cx_disk cx) (objects_dir (cx_store cx) @ [ck_hash ck]))"

lemma record_lost:
  assumes "lost_chunk X L cx ck"
  shows "record_chunk X L rel ck cx = (Inr (), cx\<lparr>cx_hashes := cx_hashes cx @ [ck_hash ck], cx_new := cx_new cx + 1\<rparr>)"
proof -
  have "fs_write (objects_dir (cx_store cx) @ [ck_hash ck]) (ck_data ck) (cx_disk cx) = (Inl IoError, cx_disk cx)"
    using assms by (auto simp: lost_chunk_def fs_write_def writable_def)
  then have "write_object X (ck_hash ck) (ck_data ck) n (cx_store cx, cx_disk cx) = (Inl IoError, (cx_store cx, cx_disk cx))" for n
    using assms by (simp add: lost_chunk_def write_object_def write_individual_object_def child_plain on_fs_def bindS_def Let_def)
  then show ?thesis
    using assms by (auto simp: record_chunk_def Let_def lost_chunk_def split: sum.split)
qed

lemma deliver_lost:
  assumes "\<forall>ck \<in> set cks. lost_chunk X L cx ck"
  shows "deliver (record_chunk X L rel) cks cx =
    (Inr (), cx\<lparr>cx_hashes := cx_hashes cx @ map ck_hash cks, cx_new := cx_new cx + of_nat (length cks)\<rparr>)"
  using assms
proof (induction cks arbitrary: cx)
  case (Cons ck cks)
  have "lost_chunk X L cx ck" using Cons.prems by simp
  note 1 = record_lost [OF this]
  have "\<forall>c \<in> set cks. lost_chunk X L (cx\<lparr>cx_hashes := cx_hashes cx @ [ck_hash ck], cx_new := cx_new cx + 1\<rparr>) c"
    using Cons.prems by (simp add: lost_chunk_def)
  from Cons.IH [OF this] show ?case by (simp add: 1 algebra_simps)
qed simp

text \<open>Every chunk of the file is lost.\<close>

definition file_lost :: "'db crates \<Rightarrow> env \<Rightarrow> 'db engine \<Rightarrow> file_entry \<Rightarrow> bool" where
  "file_lost C v e fe = (case fs_read (disk e) (fe_path fe) of
     Inl x \<Rightarrow> False
   | Inr b \<Rightarrow> b \<noteq> [] \<and> reader_ok (reads v b) \<and> reader_bytes (reads v b) = b \<and>
       list_all (lost_chunk (cr_libs C) (cr_index C) (open_ctx e)) (file_chunk_list (cr_libs C) (reads v b)))"

lemma lost_file_task:
  assumes inv: "engine_inv C content e" and lost: "file_lost C v e fe"
  shows "\<exists>n e'. backup_file C v fe e = Some (Inr (rel_of e fe, fe_size fe, 0, n), e') \<and>
     engine_inv C content e' \<and> (\<forall>b. \<not> recoverable C e' (rel_of e fe) b) \<and> (\<exists>db. e' = e\<lparr>index_db := db\<rparr>)"
proof -
  let ?X = "cr_libs C" and ?L = "cr_index C" and ?rel = "rel_of e fe"
  obtain b where b: "fs_read (disk e) (fe_path fe) = Inr b" "b \<noteq> []" "reader_ok (reads v b)" "reader_bytes (reads v b) = b"
    and all: "\<forall>ck \<in> set (file_chunk_list ?X (reads v b)). lost_chunk ?X ?L (open_ctx e) ck"
    using lost by (auto simp: file_lost_def list_all_iff split: sum.splits)
  define cks where "cks = file_chunk_list ?X (reads v b)"
  have ne: "cks \<noteq> []" using chunk_reader_file(2) [OF b(3), of ?X] b(2,4) by (auto simp: cks_def)
  have ok: "index_ok ?L (index_db e)" and f: "faithful content (obj_store e) (disk e)"
    using inv by (simp_all add: engine_inv_def data_inv_def)
  from insert_file_chunks_refines [OF ok, of ?rel "map ck_hash cks" "fe_size fe" "fe_modified fe"] obtain db where
    db: "insert_file_chunks ?L ?rel (map ck_hash cks) (fe_size fe) (fe_modified fe) (index_db e) = (Inr (), db)"
    "index_ok ?L db" "abs_index ?L db = set_file ?rel (map ck_hash cks) (fe_size fe) (abs_index ?L (index_db e))"
    by (auto simp: refines_def)
  let ?e = "e\<lparr>index_db := db\<rparr>"
  have "backup_file C v fe e = Some (Inr (?rel, fe_size fe, 0, of_nat (length cks)), ?e)"
    using deliver_lost [OF all, of ?rel] db(1)
    by (simp add: backup_file_def b(1) chunk_reader_file(1) [OF b(3)] open_ctx_def close_ctx_def cks_def Let_def)
  moreover have "engine_inv C content ?e"
    using inv db(2,3) by (simp add: engine_inv_def data_inv_def set_file_def)
  moreover have "\<not> recoverable C ?e ?rel d" for d
  proof -
    have "get_file_chunks ?L ?rel db = Inr (map ck_hash cks)"
      using get_file_chunks_ok [OF db(2)] by (simp add: db(3) set_file_def)
    moreover obtain ck cks' where cks: "cks = ck # cks'" using ne by (cases cks) auto
    have "\<not> contains (obj_store e) (ck_hash ck)" using all by (simp add: lost_chunk_def open_ctx_def flip: cks_def) (simp add: cks)
    then have "\<exists>x. read_object (obj_store e) (disk e) (ck_hash ck) = Inl x"
      by (simp add: contains_def read_object_def)
    ultimately show ?thesis by (auto simp: recoverable_def cks Let_def split_beta split: sum.split)
  qed
  ultimately show ?thesis by (intro exI [of _ "of_nat (length cks)"] exI [of _ ?e]) auto
qed


end
