(* ===== verification/Sample_Faults.thy ===== *)
theory Sample_Faults
  imports Sample_Restart Backup_Faults
begin

text \<open>
  The sample server when things go wrong: a process that ends between two file tasks, and a store
  that cannot be written; the witnesses of \<open>Restart\<close> and \<open>Backup_Faults\<close>.
\<close>

section \<open>A crash in the second backup\<close>

lemma done_durable: "durable (obj_store game_done) (disk game_done)"
proof -
  let ?p = "processing game_env game_engine"
  have inv: "engine_inv sample_crates game_content ?p"
    using game_inv by (simp add: engine_inv_def)
  have run: "run_tasks sample_crates game_env (task_list game_env [amca, level]) ?p =
     Some ([(0, Inr (''world/a.mca'', 1, 0, 1)), (1, Inr (''world/level.dat'', 3, 0, 1))], game_after)"
    unfolding game_after_def game_tasks by (rule tasks_run) simp_all
  have "durable (obj_store game_after) (disk game_after)"
    using run_tasks_kept [OF game_laws inv game_tasks_ok run] game_durable by (simp add: store_kept_def)
  then show ?thesis
    using commit_kept(1) [OF game_done_run files_storedD(7) [OF game_stored] game_after_placed slash_free] by (simp add: store_kept_def)
qed

lemma level_again: "fs_read fs3 (fe_path level) = Inr [1, 2, 3]"
proof -
  have "fs_node game_fs [''r'', ''world'', ''level.dat''] = Some (File [1, 2, 3])" by (simp add: fs_node_def game_fs_def)
  then show ?thesis by (simp add: fs_read_def level_def fs3_nodes object_at_def)
qed

theorem crash_between_files_witness:
  "\<exists>(P :: (sample_db, json) platform) e' e2 rs. run_tasks sample_crates game_env [(0, level)] game_done = Some (rs, e') \<and>
     start_engine P sample_args (disk e') = (Inr e2, disk e2) \<and>
     recoverable sample_crates e2 ''world/level.dat'' [1, 2, 3] \<and> recoverable sample_crates e2 ''world/a.mca'' [4]"
proof -
  obtain r e' where b: "backup_file sample_crates game_env level game_done = Some (r, e')" "disk e' = fs3" "server_root e' = [''r'']"
    by (simp add: backup_file_def done_disk level_again chunk_reader_small Let_def record_chunk_def open_ctx_def close_ctx_def done_fields
        game_done_known flip: h2_def)
  have tasks: "tasks_ok sample_crates game_env game_content [(0, level)] game_done"
    by (simp add: file_ok_def done_disk level_again small_file_chunks Let_def game_content_def chunk_fits_def small_reader_ok open_ctx_def
        hashes game_done_known b(1) flip: h2_def)
  have run: "run_tasks sample_crates game_env [(0, level)] game_done = Some ([(0, r)], e')" using b by simp
  let ?P = "sample_platform\<lparr>pl_open := (\<lambda>p cfs. Inr (index_db e'))\<rparr>"
  have again: "same_server ?P sample_args SidecarConfig_default e'"
    using same_sample_server by (simp add: same_server_def BlockIndex_open_def b done_disk done_fields)
  have P: "sample_crates = pl_crates ?P" by (simp add: sample_platform_def)
  have dirs: "is_dir (disk game_done) (snapshot_dir game_done)" "snapshot_dir game_done \<notin> set (faulty (disk game_done))"
    by (simp_all add: snapshot_dir_path done_fields done_disk is_dir_def fs3_nodes)
  have out: "\<forall>(i, fe) \<in> set [(0 :: nat, level)]. outside (obj_store game_done) (fe_path fe)"
    using outside_root [OF done_placed, of "''world''" "[''level.dat'']"] by (simp add: done_fields level_def)
  have dist: "distinct (map (\<lambda>(i, fe). rel_of game_done fe) [(0 :: nat, level)])" by simp
  from crash_between_files [OF P game_laws game_done_facts(1) done_placed done_durable dirs dist out tasks run again] obtain e2 where
    start: "start_engine ?P sample_args (disk e') = (Inr e2, disk e2)"
    and e2: "recoverable sample_crates e2 (rel_of game_done level) (bytes_at (disk game_done) (fe_path level))"
    "\<forall>p b. p \<noteq> rel_of game_done level \<longrightarrow> recoverable sample_crates game_done p b \<longrightarrow> recoverable sample_crates e2 p b" by auto
  have rel: "rel_of game_done level = ''world/level.dat''" by (rule rel_names) (rule done_fields)
  have bytes: "bytes_at (disk game_done) (fe_path level) = [1, 2, 3]" by (simp add: bytes_at_def done_disk level_again)
  have "recoverable sample_crates e2 ''world/a.mca'' [4]" using e2(2) game_done_facts(2) by (simp add: rel)
  with run start e2(1) show ?thesis unfolding rel bytes by blast
qed

section \<open>A store without its directory\<close>

text \<open>The sample server with one file, after the directory of the loose objects has been removed.\<close>

definition bare_fs :: fs where
  "bare_fs = \<lparr>entries = [([''r''], Dir), ([''r'', ''.obsidian''], Dir), ([''r'', ''.obsidian'', ''store''], Dir), ([''r'', ''world''], Dir),
     ([''r'', ''world'', ''level.dat''], File [1, 2, 3])], faulty = [], real_path = id\<rparr>"

abbreviation bare :: "sample_db engine" where
  "bare \<equiv> game_engine\<lparr>disk := bare_fs\<rparr>"

lemma bare_inv: "engine_inv sample_crates game_content bare" "placed bare"
  using game_inv game_layout(2)
  by (simp_all add: engine_inv_def data_inv_def faithful_def placed_def) (simp add: contains_def game_store_def)

lemma bare_files: "files_to_back_up sample_crates False bare = Some [level]"
proof -
  have "find_world_directories [''r''] bare_fs = [[''r'', ''world'']]" "is_dir bare_fs [''r'', ''world'']"
    "walk bare_fs [''r'', ''world''] = [([''r'', ''world'', ''level.dat''], [1, 2, 3])]" by code_simp+
  moreover have "faulty bare_fs = []" by (simp add: bare_fs_def)
  ultimately have "scan_world_directory since (\<lambda>p. 7) [] [''r''] None bare_fs = Some [level]" for since
    by (simp add: scan_world_directory_def scan_directory_def game_names game_kept unchanged_def sort_by_path_def level_def)
  then show ?thesis by (simp add: files_to_back_up_def last_snapshot_time_def game_engine_def cfg_ignores_def)
qed

lemma bare_lost: "file_lost sample_crates game_env (processing game_env bare) level"
proof -
  have "fs_read bare_fs (fe_path level) = Inr [1, 2, 3]" by (simp add: fs_read_def fs_node_def bare_fs_def level_def)
  moreover have "\<not> writable bare_fs (objects_dir game_store @ [h])" for h
    by (simp add: writable_def is_dir_def parent_def fs_node_def bare_fs_def game_store_def)
  ultimately show ?thesis
    by (simp add: file_lost_def small_file_chunks small_reader_ok lost_chunk_def open_ctx_def game_index hashes flip: h2_def)
      (simp add: contains_def game_store_def)
qed

lemma bare_commits:
  assumes "disk e = bare_fs" "server_root e = [''r'']"
  shows "\<exists>r e'. commit_backup sample_crates game_env tx tag n t e = (Inr r, e')"
proof -
  have dir: "snapshot_dir e = snap_dir" by (simp add: snapshot_dir_path assms)
  have names: "manifest_path e (''snap_'' @ uuid8 game_env) = snap_dir @ [''snap_0a1b2c3d.json'']"
    "sig_path e (''snap_'' @ uuid8 game_env) = snap_dir @ [''snap_0a1b2c3d.sig'']"
    using snapshot_paths [of "''snap_'' @ uuid8 game_env" e] by (simp_all add: dir)
  have nodes: "fs_node bare_fs [''r''] = Some Dir" "fs_node bare_fs [''r'', ''.obsidian''] = Some Dir"
    "fs_node bare_fs [''r'', ''.obsidian'', ''store''] = Some Dir" "fs_node bare_fs snap_dir = None"
    "fs_node bare_fs (snap_dir @ [m]) = None" "faulty bare_fs = []" for m
    by (simp_all add: fs_node_def bare_fs_def)
  define f1 where "f1 = set_node snap_dir Dir bare_fs"
  have mk: "create_dir_all snap_dir bare_fs = (Inr (), f1)"
    by (simp add: create_dir_all_def nodes f1_def Let_def)
  have w: "fs_write (snap_dir @ [''snap_0a1b2c3d.json'']) m f1 = (Inr (), set_node (snap_dir @ [''snap_0a1b2c3d.json'']) (File m) f1)" for m
    using nodes(5) by (simp add: fs_write_def f1_def is_dir_def parent_def nodes frame_simps)
  have w2: "\<exists>f3. fs_write (snap_dir @ [''snap_0a1b2c3d.sig'']) sg (set_node (snap_dir @ [''snap_0a1b2c3d.json'']) (File m) f1) = (Inr (), f3)" for sg m
    using nodes(5) by (simp add: fs_write_def f1_def is_dir_def parent_def nodes frame_simps)
  have pretty: "json_pretty sample_index_libs j = Inr (postfix j)" for j by (simp add: sample_index_libs_def)
  show ?thesis
    by (rule commit_backup_ok [where ?f1.0 = f1 and s = "postfix (manifest_of e game_env tag n t)"])
      (simp add: sample_index_ok, simp add: dir mk assms, simp add: pretty, unfold names, rule w, rule w2)
qed


end
